(* ===== verification/Mux_Prelude.thy ===== *)
theory Mux_Prelude
  imports Main "HOL-Library.Word" "HOL-Library.Monad_Syntax"
    "HOL-Library.Sublist"
begin

text \<open>
  Shared vocabulary of the development: machine integers at their Rust widths with the checked
  and saturating operations the sources use, strings as UTF-8 byte sequences, \<open>HashMap\<close>s as
  association lists with distinct keys behind the interface \<open>hash_map\<close>, transition systems with
  reachability and invariants, and the result type of one poll of an asynchronous operation.
\<close>

unbundle bit_operations_syntax

section \<open>Collections of facts\<close>

named_theorems u64_simps \<open>unsigned readings of checked and saturating operations\<close>
named_theorems hmap_simps \<open>lookup, membership and size after a map operation\<close>

section \<open>Machine integers\<close>

type_synonym u8 = "8 word"
type_synonym u16 = "16 word"
type_synonym u32 = "32 word"
type_synonym u64 = "64 word"
type_synonym u128 = "128 word"
type_synonym bytes = "u8 list"

lemma unat_less_exp: "unat (x :: 'a::len word) < 2 ^ LENGTH('a)"
  by (rule unsigned_less)

lemma unat_u64_less: "unat (x :: u64) < 2 ^ 64"
  using unat_less_exp [of x] by simp

lemma unat_u8_less: "unat (x :: u8) < 256"
  using unat_less_exp [of x] by simp

text \<open>Rust's \<open>checked_add\<close>, \<open>checked_mul\<close> and \<open>saturating_add\<close> on \<open>u64\<close>.\<close>

definition checked_add :: "u64 \<Rightarrow> u64 \<Rightarrow> u64 option" where
  "checked_add a b = (if unat a + unat b < 2 ^ 64 then Some (a + b) else None)"

definition checked_mul :: "u64 \<Rightarrow> u64 \<Rightarrow> u64 option" where
  "checked_mul a b = (if unat a * unat b < 2 ^ 64 then Some (a * b) else None)"

definition saturating_add :: "u64 \<Rightarrow> u64 \<Rightarrow> u64" where
  "saturating_add a b = (if unat a + unat b < 2 ^ 64 then a + b else - 1)"

lemma checked_add_Some [u64_simps]:
  "checked_add a b = Some c \<longleftrightarrow> unat a + unat b < 2 ^ 64 \<and> c = a + b"
  by (auto simp: checked_add_def)

lemma checked_add_None [u64_simps]: "checked_add a b = None \<longleftrightarrow> 2 ^ 64 \<le> unat a + unat b"
  by (auto simp: checked_add_def)

lemma unat_add_no_wrap: "unat a + unat b < 2 ^ 64 \<Longrightarrow> unat (a + b :: u64) = unat a + unat b"
  by (simp add: unat_word_ariths)

lemma unat_mult_no_wrap: "unat a * unat b < 2 ^ 64 \<Longrightarrow> unat (a * b :: u64) = unat a * unat b"
  by (simp add: unat_word_ariths)

lemma unat_minus_one_u64: "unat (- 1 :: u64) = 2 ^ 64 - 1"
  by (simp add: unsigned_minus_1_eq_mask mask_eq_exp_minus_1)

lemma unat_saturating_add [u64_simps]:
  "unat (saturating_add a b) = min (unat a + unat b) (2 ^ 64 - 1)"
  by (auto simp: saturating_add_def unat_add_no_wrap unat_minus_one_u64)

lemma unat_of_nat_u64: "n < 2 ^ 64 \<Longrightarrow> unat (of_nat n :: u64) = n"
  by (simp add: unat_of_nat take_bit_eq_mod)

text \<open>
  \<open>usize\<close> values are natural numbers; \<open>as usize\<close> from a \<open>u64\<close> keeps the low \<open>w\<close> bits, where \<open>w\<close>
  is the pointer width of the target (64 for the native crates, 32 for \<open>wasm32\<close>).
\<close>

definition as_usize :: "nat \<Rightarrow> u64 \<Rightarrow> nat" where
  "as_usize w x = unat x mod 2 ^ w"

definition usize_saturating_add :: "nat \<Rightarrow> nat \<Rightarrow> nat \<Rightarrow> nat" where
  "usize_saturating_add w a b = min (a + b) (2 ^ w - 1)"

lemma as_usize_64 [simp]: "as_usize 64 x = unat x"
  using unat_u64_less [of x] by (simp add: as_usize_def)

lemma as_usize_of_nat:
  assumes "n < 2 ^ w" and "n < 2 ^ 64"
  shows "as_usize w (of_nat n) = n"
  using assms by (simp add: as_usize_def unat_of_nat_u64)

section \<open>Strings as bytes\<close>

text \<open>
  A Rust \<open>String\<close> is a sequence of UTF-8 bytes. A HOL \<open>char\<close> is a byte, so a string is modelled
  by its bytes; \<open>str_len\<close> in the sources counts bytes, as \<open>length\<close> does here.
\<close>

definition as_bytes :: "string \<Rightarrow> bytes" where
  "as_bytes s = map (\<lambda>c. of_nat (of_char c)) s"

definition of_bytes :: "bytes \<Rightarrow> string" where
  "of_bytes bs = map (\<lambda>b. char_of (unat b)) bs"

lemma unat_of_char: "unat (of_nat (of_char c) :: u8) = (of_char c :: nat)"
  by (simp add: unat_of_nat take_bit_eq_mod)

lemma of_bytes_as_bytes [simp]: "of_bytes (as_bytes s) = s"
  by (simp add: of_bytes_def as_bytes_def unat_of_char comp_def map_idI)

lemma as_bytes_of_bytes [simp]: "as_bytes (of_bytes bs) = bs"
proof -
  have "of_nat (of_char (char_of (unat b) :: char)) = b" for b :: u8
    using unat_u8_less [of b] by simp
  then show ?thesis by (simp add: of_bytes_def as_bytes_def comp_def map_idI)
qed

lemma length_of_bytes [simp]: "length (of_bytes bs) = length bs"
  by (simp add: of_bytes_def)

lemma length_as_bytes [simp]: "length (as_bytes s) = length s"
  by (simp add: as_bytes_def)

section \<open>Hash maps\<close>

text \<open>
  What the session relies on from \<open>std::collections::HashMap\<close>: lookup after insert and remove, and
  the entry count. The iteration order of the map is unspecified and no law mentions it.
\<close>

locale hash_map =
  fixes empty :: "'m"
    and get :: "'m \<Rightarrow> 'k \<Rightarrow> 'v option"
    and insert :: "'k \<Rightarrow> 'v \<Rightarrow> 'm \<Rightarrow> 'm"
    and remove :: "'k \<Rightarrow> 'm \<Rightarrow> 'm"
    and len :: "'m \<Rightarrow> nat"
    and ok :: "'m \<Rightarrow> bool"
  assumes get_empty: "get empty k = None"
    and get_insert: "ok m \<Longrightarrow> get (insert k v m) k' = (if k' = k then Some v else get m k')"
    and get_remove: "ok m \<Longrightarrow> get (remove k m) k' = (if k' = k then None else get m k')"
    and len_empty: "len empty = 0"
    and len_insert: "ok m \<Longrightarrow> len (insert k v m) = (if get m k = None then Suc (len m) else len m)"
    and len_remove: "ok m \<Longrightarrow> len (remove k m) = (if get m k = None then len m else len m - 1)"
    and ok_empty: "ok empty"
    and ok_insert: "ok m \<Longrightarrow> ok (insert k v m)"
    and ok_remove: "ok m \<Longrightarrow> ok (remove k m)"
begin

text \<open>
  The bounded-admission pattern of the session: an entry is inserted only below the limit or over
  an existing key, so the limit is an invariant of the map.
\<close>

lemma insert_bounded:
  "ok m \<Longrightarrow> len m \<le> n \<Longrightarrow> len m < n \<or> get m k \<noteq> None \<Longrightarrow> len (insert k v m) \<le> n"
  by (auto simp: len_insert)

lemma remove_bounded: "ok m \<Longrightarrow> len m \<le> n \<Longrightarrow> len (remove k m) \<le> n"
  by (auto simp: len_remove)

end

type_synonym ('k, 'v) hmap = "('k \<times> 'v) list"

definition hm_get :: "('k, 'v) hmap \<Rightarrow> 'k \<Rightarrow> 'v option" where
  "hm_get m k = map_of m k"

definition hm_remove :: "'k \<Rightarrow> ('k, 'v) hmap \<Rightarrow> ('k, 'v) hmap" where
  "hm_remove k m = filter (\<lambda>e. fst e \<noteq> k) m"

definition hm_insert :: "'k \<Rightarrow> 'v \<Rightarrow> ('k, 'v) hmap \<Rightarrow> ('k, 'v) hmap" where
  "hm_insert k v m = (k, v) # hm_remove k m"

definition hm_retain :: "('k \<Rightarrow> bool) \<Rightarrow> ('k, 'v) hmap \<Rightarrow> ('k, 'v) hmap" where
  "hm_retain P m = filter (\<lambda>e. P (fst e)) m"

definition hm_contains :: "'k \<Rightarrow> ('k, 'v) hmap \<Rightarrow> bool" where
  "hm_contains k m \<longleftrightarrow> hm_get m k \<noteq> None"

definition hm_ok :: "('k, 'v) hmap \<Rightarrow> bool" where
  "hm_ok m \<longleftrightarrow> distinct (map fst m)"

lemma hm_get_Nil [hmap_simps]: "hm_get [] k = None"
  by (simp add: hm_get_def)

lemma hm_get_Cons [hmap_simps]: "hm_get ((k, v) # m) k' = (if k' = k then Some v else hm_get m k')"
  by (simp add: hm_get_def)

lemma hm_get_filter:
  "hm_get (filter (\<lambda>e. P (fst e)) m) k = (if P k then hm_get m k else None)"
  by (induction m) (auto simp: hm_get_def)

lemma hm_get_remove [hmap_simps]: "hm_get (hm_remove k m) k' = (if k' = k then None else hm_get m k')"
  unfolding hm_remove_def by (subst hm_get_filter) simp

lemma hm_get_insert [hmap_simps]:
  "hm_get (hm_insert k v m) k' = (if k' = k then Some v else hm_get m k')"
  by (simp add: hm_insert_def hm_get_Cons hm_get_remove)

lemma hm_get_retain [hmap_simps]: "hm_get (hm_retain P m) k = (if P k then hm_get m k else None)"
  unfolding hm_retain_def by (rule hm_get_filter)

lemma hm_get_None_iff: "hm_get m k = None \<longleftrightarrow> k \<notin> fst ` set m"
  by (simp add: hm_get_def map_of_eq_None_iff)

lemma hm_ok_filter [simp, intro]: "hm_ok m \<Longrightarrow> hm_ok (filter P m)"
  by (induction m) (auto simp: hm_ok_def)

lemma hm_ok_Nil [simp, intro]: "hm_ok []"
  by (simp add: hm_ok_def)

lemma hm_ok_remove [simp, intro]: "hm_ok m \<Longrightarrow> hm_ok (hm_remove k m)"
  by (simp add: hm_remove_def)

lemma hm_ok_retain [simp, intro]: "hm_ok m \<Longrightarrow> hm_ok (hm_retain P m)"
  by (simp add: hm_retain_def)

lemma hm_ok_insert [simp, intro]: "hm_ok m \<Longrightarrow> hm_ok (hm_insert k v m)"
  using hm_ok_remove [of m k] by (auto simp: hm_insert_def hm_ok_def hm_remove_def)

lemma length_retain_le: "length (hm_retain P m) \<le> length m"
  by (simp add: hm_retain_def)

lemma hm_remove_absent: "hm_get m k = None \<Longrightarrow> hm_remove k m = m"
  by (induction m) (auto simp: hm_get_def hm_remove_def split: if_splits)

lemma length_hm_remove:
  "hm_ok m \<Longrightarrow> length (hm_remove k m) = (if hm_get m k = None then length m else length m - 1)"
proof (induction m)
  case Nil
  then show ?case by (simp add: hm_remove_def)
next
  case (Cons e m)
  obtain k' v where e: "e = (k', v)" by (cases e)
  from Cons.prems e have ok: "hm_ok m" and new: "hm_get m k' = None"
    by (auto simp: hm_ok_def hm_get_None_iff)
  show ?case
  proof (cases "k' = k")
    case True
    with new have "hm_remove k m = m" by (simp add: hm_remove_absent)
    with True e show ?thesis by (simp add: hm_remove_def hm_get_def)
  next
    case False
    moreover have "hm_get m k \<noteq> None \<Longrightarrow> m \<noteq> []" by (auto simp: hm_get_def)
    ultimately show ?thesis
      using Cons.IH [OF ok] e by (cases m) (auto simp: hm_remove_def hm_get_def)
  qed
qed

lemma length_hm_insert:
  "hm_ok m \<Longrightarrow> length (hm_insert k v m) = (if hm_get m k = None then Suc (length m) else length m)"
  by (cases m) (auto simp: hm_insert_def length_hm_remove hm_get_Nil)

interpretation hm: hash_map "[]" hm_get hm_insert hm_remove length hm_ok
  by unfold_locales (auto simp: hmap_simps length_hm_remove length_hm_insert)

section \<open>Results\<close>

text \<open>Rust's \<open>?\<close> operator on \<open>Result\<close>, with \<open>Inl\<close> the error.\<close>

definition try_bind :: "'e + 'a \<Rightarrow> ('a \<Rightarrow> 'e + 'b) \<Rightarrow> 'e + 'b" where
  "try_bind x f = (case x of Inl e \<Rightarrow> Inl e | Inr a \<Rightarrow> f a)"

lemma try_bind_simps [simp]:
  "try_bind (Inl e) f = Inl e"
  "try_bind (Inr a) f = f a"
  by (simp_all add: try_bind_def)

lemma try_bind_Inr_iff: "try_bind x f = Inr b \<longleftrightarrow> (\<exists>a. x = Inr a \<and> f a = Inr b)"
  by (cases x) auto

section \<open>Transition systems\<close>

inductive reachable :: "('s \<Rightarrow> bool) \<Rightarrow> ('s \<Rightarrow> 's \<Rightarrow> bool) \<Rightarrow> 's \<Rightarrow> bool" for init step where
  reachable_init: "init s \<Longrightarrow> reachable init step s"
| reachable_step: "reachable init step s \<Longrightarrow> step s t \<Longrightarrow> reachable init step t"

text \<open>A system together with a property that its start states have and its steps keep.\<close>

locale invariant_system =
  fixes init :: "'s \<Rightarrow> bool"
    and step :: "'s \<Rightarrow> 's \<Rightarrow> bool"
    and inv :: "'s \<Rightarrow> bool"
  assumes init_inv: "init s \<Longrightarrow> inv s"
    and step_inv: "inv s \<Longrightarrow> step s t \<Longrightarrow> inv t"
begin

lemma reachable_inv: "reachable init step s \<Longrightarrow> inv s"
  by (induction rule: reachable.induct) (auto intro: init_inv step_inv)

lemma steps_inv: "step\<^sup>*\<^sup>* s t \<Longrightarrow> inv s \<Longrightarrow> inv t"
  by (induction rule: rtranclp_induct) (auto dest: step_inv)

end

section \<open>Polling\<close>

text \<open>
  The result of one poll of a future: \<open>Pending\<close>, or \<open>Ready\<close> with its output. An asynchronous
  operation that is suspended at an \<open>await\<close> is \<open>Awaiting\<close> with the point where it resumes.
\<close>

datatype 'a poll = Pending | Ready 'a

datatype ('k, 'a) async = Awaiting 'k | Finished 'a

end
