(* ===== verification/Varint.thy ===== *)
theory Varint
  imports Mux_Prelude
begin

text \<open>
  The QUIC variable-length integers of \<open>websock-mux-proto/src/varint.rs\<close>: construction, size,
  encoding and decoding over byte buffers, and the asynchronous reader and writer. A branch the
  source marks \<open>unreachable!\<close> is \<open>None\<close>, so that not panicking is a statement about the model. The
  interface \<open>codec\<close> collects what a self-delimiting encoding promises to its users.
\<close>

section \<open>Self-delimiting encodings\<close>

text \<open>
  \<open>enc\<close> may panic (\<open>None\<close>); \<open>dec\<close> reads one value from the front of a buffer and returns the rest,
  or an error. \<open>wf\<close> are the values the encoding is meant for.
\<close>

locale codec =
  fixes enc :: "'a \<Rightarrow> bytes option"
    and dec :: "bytes \<Rightarrow> 'e + ('a \<times> bytes)"
    and wf :: "'a \<Rightarrow> bool"
  assumes enc_total: "wf x \<Longrightarrow> \<exists>bs. enc x = Some bs"
    and dec_enc: "wf x \<Longrightarrow> enc x = Some bs \<Longrightarrow> dec (bs @ r) = Inr (x, r)"
    and dec_consumes: "dec bs = Inr (x, r) \<Longrightarrow> strict_suffix r bs"
begin

lemma dec_shorter: "dec bs = Inr (x, r) \<Longrightarrow> length r < length bs"
  using dec_consumes [of bs x r] by (auto simp: strict_suffix_def suffix_def)

lemma enc_nonempty: "wf x \<Longrightarrow> enc x = Some bs \<Longrightarrow> bs \<noteq> []"
  using dec_enc [of x bs "[]"] dec_shorter by fastforce

lemma enc_prefix_free:
  assumes "wf x" "wf y" "enc x = Some b1" "enc y = Some b2" "b1 @ r1 = b2 @ r2"
  shows "x = y \<and> r1 = r2"
  using dec_enc [of x b1 r1] dec_enc [of y b2 r2] assms by simp

lemma enc_inj: "wf x \<Longrightarrow> wf y \<Longrightarrow> enc x = enc y \<Longrightarrow> x = y"
  using enc_total enc_prefix_free by fastforce

end

section \<open>Values\<close>

text \<open>The range of the encoding, \<open>0..2^62-1\<close>.\<close>

definition in_varint :: "u64 \<Rightarrow> bool" where
  "in_varint x \<longleftrightarrow> unat x < 2 ^ 62"

datatype varint = VarInt (into_inner: u64)

datatype varint_bounds_exceeded = VarIntBoundsExceeded

datatype varint_unexpected_end = VarIntUnexpectedEnd

definition MAX_1BYTE :: u64 where "MAX_1BYTE = push_bit 6 1 - 1"

definition MAX_2BYTE :: u64 where "MAX_2BYTE = push_bit 14 1 - 1"

definition MAX_4BYTE :: u64 where "MAX_4BYTE = push_bit 30 1 - 1"

definition varint_MAX :: varint where "varint_MAX = VarInt (push_bit 62 1 - 1)"

definition MAX_SIZE :: nat where "MAX_SIZE = 8"

definition from_u32 :: "u32 \<Rightarrow> varint" where
  "from_u32 x = VarInt (ucast x)"

definition from_u64 :: "u64 \<Rightarrow> varint_bounds_exceeded + varint" where
  "from_u64 x = (if x \<le> into_inner varint_MAX then Inr (VarInt x) else Inl VarIntBoundsExceeded)"

text \<open>The conversions that cannot fail, and the unchecked one, whose argument its caller must bound.\<close>

definition from_u8 :: "u8 \<Rightarrow> varint" where
  "from_u8 x = VarInt (ucast x)"

definition from_u16 :: "u16 \<Rightarrow> varint" where
  "from_u16 x = VarInt (ucast x)"

definition from_u64_unchecked :: "u64 \<Rightarrow> varint" where
  "from_u64_unchecked x = VarInt x"

text \<open>\<open>TryFrom<u64>\<close>, and \<open>TryFrom<usize>\<close> through the cast to \<open>u64\<close>.\<close>

definition try_from_u64 :: "u64 \<Rightarrow> varint_bounds_exceeded + varint" where
  "try_from_u64 x = from_u64 x"

definition try_from_usize :: "nat \<Rightarrow> varint_bounds_exceeded + varint" where
  "try_from_usize x = try_from_u64 (of_nat x)"

text \<open>\<open>TryFrom<u128>\<close>: the value must first fit in a \<open>u64\<close>.\<close>

definition try_from_u128 :: "u128 \<Rightarrow> varint_bounds_exceeded + varint" where
  "try_from_u128 x = (if unat x < 2 ^ 64 then from_u64 (ucast x) else Inl VarIntBoundsExceeded)"

definition varint_size :: "varint \<Rightarrow> nat option" where
  "varint_size v = (let x = into_inner v in
     if x \<le> MAX_1BYTE then Some 1
     else if x \<le> MAX_2BYTE then Some 2
     else if x \<le> MAX_4BYTE then Some 4
     else if x \<le> into_inner varint_MAX then Some 8
     else None)"

section \<open>Encoding and decoding\<close>

text \<open>\<open>BufMut::put_u16\<close>, \<open>put_u32\<close> and \<open>put_u64\<close> append in network byte order.\<close>

definition put_u16 :: "u16 \<Rightarrow> bytes" where
  "put_u16 x = [ucast (drop_bit 8 x), ucast x]"

definition put_u32 :: "u32 \<Rightarrow> bytes" where
  "put_u32 x = [ucast (drop_bit 24 x), ucast (drop_bit 16 x), ucast (drop_bit 8 x), ucast x]"

definition put_u64 :: "u64 \<Rightarrow> bytes" where
  "put_u64 x = [ucast (drop_bit 56 x), ucast (drop_bit 48 x), ucast (drop_bit 40 x),
     ucast (drop_bit 32 x), ucast (drop_bit 24 x), ucast (drop_bit 16 x), ucast (drop_bit 8 x),
     ucast x]"

definition varint_encode :: "varint \<Rightarrow> bytes option" where
  "varint_encode v = (let x = into_inner v in
     if x \<le> MAX_1BYTE then Some [ucast x]
     else if x \<le> MAX_2BYTE then Some (put_u16 (push_bit 14 1 OR ucast x))
     else if x \<le> MAX_4BYTE then Some (put_u32 (push_bit 30 2 OR ucast x))
     else if x \<le> into_inner varint_MAX then Some (put_u64 (push_bit 62 3 OR x))
     else None)"

text \<open>
  \<open>VarInt::decode\<close>: the two top bits of the first byte select the width. \<open>tag\<close> is a byte shifted
  right by six, so the last branch is the \<open>0b11\<close> one (\<open>varint_tag_cases\<close> below).
\<close>

fun varint_decode :: "bytes \<Rightarrow> varint_unexpected_end + (varint \<times> bytes)" where
  "varint_decode [] = Inl VarIntUnexpectedEnd"
| "varint_decode (first # r) = (
     let tag = drop_bit 6 first;
         body = (ucast (first AND 63) :: u64);
         at = (\<lambda>i. ucast (r ! i) :: u64)
     in if tag = 0 then Inr (VarInt body, r)
     else if tag = 1 then
       (if length r < 1 then Inl VarIntUnexpectedEnd
        else Inr (VarInt (push_bit 8 body OR at 0), drop 1 r))
     else if tag = 2 then
       (if length r < 3 then Inl VarIntUnexpectedEnd
        else Inr (VarInt (push_bit 24 body OR push_bit 16 (at 0) OR push_bit 8 (at 1) OR at 2),
               drop 3 r))
     else
       (if length r < 7 then Inl VarIntUnexpectedEnd
        else Inr (VarInt (push_bit 56 body OR push_bit 48 (at 0) OR push_bit 40 (at 1)
                    OR push_bit 32 (at 2) OR push_bit 24 (at 3) OR push_bit 16 (at 4)
                    OR push_bit 8 (at 5) OR at 6),
               drop 7 r)))"

text \<open>
  \<open>VarInt::read\<close> over a byte stream: one byte, then as many more as its tag announces, then a
  decode of exactly those bytes. \<open>read_exact\<close> fails when the stream ends first. The inner
  \<open>unwrap\<close> is the \<open>None\<close> result.
\<close>

definition read_exact :: "nat \<Rightarrow> bytes \<Rightarrow> (bytes \<times> bytes) option" where
  "read_exact n stream = (if length stream < n then None else Some (take n stream, drop n stream))"

definition varint_read :: "bytes \<Rightarrow> (varint_unexpected_end + (varint \<times> bytes)) option" where
  "varint_read stream =
     (case read_exact 1 stream of
        None \<Rightarrow> Some (Inl VarIntUnexpectedEnd)
      | Some (b0, stream1) \<Rightarrow>
          (let size = push_bit (unat (drop_bit 6 (hd b0))) (1 :: nat) in
           case read_exact (size - 1) stream1 of
             None \<Rightarrow> Some (Inl VarIntUnexpectedEnd)
           | Some (more, stream2) \<Rightarrow>
               (case varint_decode (b0 @ more) of
                  Inl _ \<Rightarrow> None
                | Inr (v, _) \<Rightarrow> Some (Inr (v, stream2)))))"

text \<open>
  \<open>VarInt::write\<close>: the value is encoded into an eight-byte stack buffer, and the written prefix
  goes to the stream. The result is what was written; \<open>put_*\<close> into a slice panics if it is full.
\<close>

definition varint_write :: "varint \<Rightarrow> bytes option" where
  "varint_write v = (case varint_encode v of
     None \<Rightarrow> None
   | Some bs \<Rightarrow> (if length bs \<le> 8 then
       (let cursor_len = 8 - length bs; size = 8 - cursor_len
        in Some (take size (bs @ replicate cursor_len 0))) else None))"

section \<open>Ranges and sizes\<close>

lemma varint_limits:
  "MAX_1BYTE = 63" "MAX_2BYTE = 16383" "MAX_4BYTE = 1073741823"
  "into_inner varint_MAX = 4611686018427387903"
  by (simp_all add: MAX_1BYTE_def MAX_2BYTE_def MAX_4BYTE_def varint_MAX_def)

lemma le_varint_MAX_iff: "x \<le> into_inner varint_MAX \<longleftrightarrow> in_varint x"
  by (simp add: in_varint_def varint_limits word_le_nat_alt) linarith

lemma from_unsigned_in_range: "in_varint (into_inner (from_u8 a))" "in_varint (into_inner (from_u16 b))"
    "in_varint (into_inner (from_u32 c))"
proof -
  have "unat a < 2 ^ 8" "unat b < 2 ^ 16" "unat c < 2 ^ 32"
    by (rule order_less_le_trans [OF unsigned_less], simp)+
  then have "unat a < 2 ^ 62" "unat b < 2 ^ 62" "unat c < 2 ^ 62" by simp_all
  then show "in_varint (into_inner (from_u8 a))" "in_varint (into_inner (from_u16 b))" "in_varint (into_inner (from_u32 c))"
    by (simp_all add: from_u8_def from_u16_def from_u32_def in_varint_def unsigned_ucast_eq
        order_le_less_trans [OF take_bit_nat_less_eq_self])
qed

lemma try_from_usize_iff: "x < 2 ^ 64 \<Longrightarrow> try_from_usize x = Inr v \<longleftrightarrow> x < 2 ^ 62 \<and> v = VarInt (of_nat x)"
  by (auto simp: try_from_usize_def try_from_u64_def from_u64_def le_varint_MAX_iff in_varint_def unat_of_nat)

lemma unat_varint_MAX: "unat (into_inner varint_MAX) = 2 ^ 62 - 1"
  by (simp add: varint_limits)

lemma varint_size_None_iff: "varint_size v = None \<longleftrightarrow> \<not> in_varint (into_inner v)"
  by (auto simp: varint_size_def Let_def varint_limits word_le_nat_alt in_varint_def)

lemma varint_encode_size: "map_option length (varint_encode v) = varint_size v"
  by (simp add: varint_encode_def varint_size_def Let_def put_u16_def put_u32_def put_u64_def)

lemma varint_encode_None_iff: "varint_encode v = None \<longleftrightarrow> \<not> in_varint (into_inner v)"
  using varint_encode_size [of v] varint_size_None_iff [of v] by (cases "varint_encode v") auto

lemma bit_less_exp:
  assumes "unat (x :: u64) < 2 ^ k" "bit x n"
  shows "n < k"
proof -
  have "unat (take_bit k x) = unat x"
    using assms(1) by (simp only: unsigned_take_bit_eq) (simp add: take_bit_eq_mod)
  then have "take_bit k x = x" by (simp add: word_unat_eq_iff)
  with assms(2) show ?thesis by (metis bit_take_bit_iff)
qed

section \<open>Round trip\<close>

lemma varint_tag_cases:
  "drop_bit 6 (b :: u8) \<in> {0, 1, 2, 3}"
proof -
  have "unat (drop_bit 6 b) = unat b div 64"
    using unat_u8_less [of b]
    by (simp only: unsigned_drop_bit_eq) (simp add: drop_bit_eq_div take_bit_eq_mod)
  with unat_u8_less [of b] have "unat (drop_bit 6 b) < 4" by simp
  then have "unat (drop_bit 6 b) \<in> {0, 1, 2, 3}" by auto
  then show ?thesis by (auto simp: word_unat_eq_iff)
qed

lemma mask_numerals:
  "(63 :: u8) = mask 6" "(3 :: u64) = mask 2" "(3 :: u8) = mask 2" "(2 :: u8) = push_bit 1 1"
  "(2 :: u32) = push_bit 1 1"
  by (simp_all add: mask_eq_exp_minus_1)

text \<open>Reassembling a value from its bytes, most significant first, one byte at a time.\<close>

lemma byte_low: "ucast (ucast (y :: u64) :: u8) = take_bit 8 y"
  by (rule bit_eqI) (auto simp: bit_simps)

lemma byte_join: "push_bit k (take_bit 8 (drop_bit k (y :: u64))) OR take_bit k y = take_bit (k + 8) y"
  by (rule bit_eqI) (auto simp: bit_simps)

lemma body_join:
  "push_bit k (ucast ((ucast (drop_bit k (y :: u64)) :: u8) AND 63)) OR take_bit k y = take_bit (k + 6) y"
  unfolding mask_numerals by (rule bit_eqI) (auto simp: bit_simps)

lemma take_bit_tagged:
  assumes "unat (x :: u64) < 2 ^ k" and "\<And>n. bit t n \<Longrightarrow> k \<le> n"
  shows "take_bit k (t OR x) = x"
  by (rule bit_eqI) (use assms(2) bit_less_exp [OF assms(1)] in \<open>force simp: bit_simps\<close>)

lemma tag_byte:
  assumes "unat (x :: u64) < 2 ^ (k + 6)" and "k \<le> 56"
    and "\<And>n. bit t n \<longleftrightarrow> k + 6 \<le> n \<and> bit c (n - (k + 6))" and "\<And>n. bit c n \<Longrightarrow> n < 2"
  shows "drop_bit 6 (ucast (drop_bit k (t OR x)) :: u8) = c"
proof (rule bit_eqI)
  fix n
  show "bit (drop_bit 6 (ucast (drop_bit k (t OR x)) :: u8)) n = bit c n"
    using assms(2-4) bit_less_exp [OF assms(1), of "k + (6 + n)"]
    by (auto simp: bit_simps add.assoc)
qed

text \<open>The 16- and 32-bit encodings written over the 64-bit value.\<close>

lemma put_u16_wide: "put_u16 (push_bit 14 1 OR ucast (x :: u64)) =
    [ucast (drop_bit 8 (push_bit 14 1 OR x)), ucast (push_bit 14 1 OR x)]"
proof -
  have "(push_bit 14 1 OR ucast x :: u16) = ucast (push_bit 14 1 OR x)"
    by (rule bit_eqI) (simp only: bit_simps, auto)
  moreover have "ucast (drop_bit 8 (ucast y :: u16)) = (ucast (drop_bit 8 y) :: u8)"
    "ucast (ucast y :: u16) = (ucast y :: u8)" for y :: u64
    by (rule bit_eqI; auto simp: bit_simps)+
  ultimately show ?thesis by (simp only: put_u16_def)
qed

lemma put_u32_wide: "put_u32 (push_bit 30 2 OR ucast (x :: u64)) =
    [ucast (drop_bit 24 (push_bit 30 2 OR x)), ucast (drop_bit 16 (push_bit 30 2 OR x)),
     ucast (drop_bit 8 (push_bit 30 2 OR x)), ucast (push_bit 30 2 OR x)]"
proof -
  have "(push_bit 30 2 :: u32) = push_bit 31 1" "(push_bit 30 2 :: u64) = push_bit 31 1"
    by simp_all
  moreover have "(push_bit 31 1 OR ucast x :: u32) = ucast (push_bit 31 1 OR x)"
    by (rule bit_eqI) (simp only: bit_simps, auto)
  moreover have "k \<le> 24 \<Longrightarrow> ucast (drop_bit k (ucast y :: u32)) = (ucast (drop_bit k y) :: u8)"
    "ucast (ucast y :: u32) = (ucast y :: u8)" for y :: u64 and k
    by (rule bit_eqI; auto simp: bit_simps)+
  ultimately show ?thesis unfolding put_u32_def by simp
qed

lemma bit_tag_constants:
  "bit (push_bit 14 1 :: u64) n \<longleftrightarrow> 14 \<le> n \<and> bit (1 :: u8) (n - 14)"
  "bit (push_bit 30 2 :: u64) n \<longleftrightarrow> 30 \<le> n \<and> bit (2 :: u8) (n - 30)"
  "bit (push_bit 62 3 :: u64) n \<longleftrightarrow> 62 \<le> n \<and> bit (3 :: u8) (n - 62)"
proof -
  show "bit (push_bit 14 1 :: u64) n \<longleftrightarrow> 14 \<le> n \<and> bit (1 :: u8) (n - 14)"
    by (simp only: bit_simps) auto
  have "(push_bit 30 2 :: u64) = push_bit 31 1" by simp
  then show "bit (push_bit 30 2 :: u64) n \<longleftrightarrow> 30 \<le> n \<and> bit (2 :: u8) (n - 30)"
    unfolding mask_numerals by (simp only: bit_simps) auto
  show "bit (push_bit 62 3 :: u64) n \<longleftrightarrow> 62 \<le> n \<and> bit (3 :: u8) (n - 62)"
    unfolding mask_numerals by (simp only: bit_simps) auto
qed

lemma bit_tag_bytes:
  "bit (1 :: u8) n \<Longrightarrow> n < 2" "bit (2 :: u8) n \<Longrightarrow> n < 2" "bit (3 :: u8) n \<Longrightarrow> n < 2"
  unfolding mask_numerals by (auto simp: bit_simps)

lemma bytes_join:
  fixes y :: u64
  shows "push_bit 8 (take_bit 8 (drop_bit 8 y)) OR take_bit 8 y = take_bit 16 y"
    "push_bit 16 (take_bit 8 (drop_bit 16 y)) OR take_bit 16 y = take_bit 24 y"
    "push_bit 24 (take_bit 8 (drop_bit 24 y)) OR take_bit 24 y = take_bit 32 y"
    "push_bit 32 (take_bit 8 (drop_bit 32 y)) OR take_bit 32 y = take_bit 40 y"
    "push_bit 40 (take_bit 8 (drop_bit 40 y)) OR take_bit 40 y = take_bit 48 y"
    "push_bit 48 (take_bit 8 (drop_bit 48 y)) OR take_bit 48 y = take_bit 56 y"
    "push_bit 8 (ucast ((ucast (drop_bit 8 y) :: u8) AND 63)) OR take_bit 8 y = take_bit 14 y"
    "push_bit 24 (ucast ((ucast (drop_bit 24 y) :: u8) AND 63)) OR take_bit 24 y = take_bit 30 y"
    "push_bit 56 (ucast ((ucast (drop_bit 56 y) :: u8) AND 63)) OR take_bit 56 y = take_bit 62 y"
  using byte_join [of _ y] body_join [of _ y] by (metis numeral_plus_numeral add_num_simps)+

lemma varint_decode_put_u16:
  assumes "unat (x :: u64) < 2 ^ 14"
  shows "varint_decode (put_u16 (push_bit 14 1 OR ucast x) @ r) = Inr (VarInt x, r)"
proof -
  define y where "y = push_bit 14 1 OR x"
  have tag: "drop_bit 6 (ucast (drop_bit 8 y) :: u8) = 1"
    unfolding y_def by (rule tag_byte) (use assms bit_tag_constants bit_tag_bytes in auto)
  have val: "take_bit 14 y = x"
    unfolding y_def by (rule take_bit_tagged) (use assms bit_tag_constants in auto)
  show ?thesis
    unfolding put_u16_wide y_def [symmetric] by (simp add: Let_def tag byte_low bytes_join val)
qed

lemma varint_decode_put_u32:
  assumes "unat (x :: u64) < 2 ^ 30"
  shows "varint_decode (put_u32 (push_bit 30 2 OR ucast x) @ r) = Inr (VarInt x, r)"
proof -
  define y where "y = push_bit 30 2 OR x"
  have tag: "drop_bit 6 (ucast (drop_bit 24 y) :: u8) = 2"
    unfolding y_def by (rule tag_byte) (use assms bit_tag_constants bit_tag_bytes in auto)
  have val: "take_bit 30 y = x"
    unfolding y_def by (rule take_bit_tagged) (use assms bit_tag_constants in auto)
  show ?thesis
    unfolding put_u32_wide y_def [symmetric]
    by (simp add: Let_def tag byte_low bytes_join val numeral_2_eq_2)
qed

lemma varint_decode_put_u64:
  assumes "unat (x :: u64) < 2 ^ 62"
  shows "varint_decode (put_u64 (push_bit 62 3 OR x) @ r) = Inr (VarInt x, r)"
proof -
  define y where "y = push_bit 62 3 OR x"
  have tag: "drop_bit 6 (ucast (drop_bit 56 y) :: u8) = 3"
    unfolding y_def by (rule tag_byte) (use assms bit_tag_constants bit_tag_bytes in auto)
  have val: "take_bit 62 y = x"
    unfolding y_def by (rule take_bit_tagged) (use assms bit_tag_constants in auto)
  show ?thesis
    unfolding put_u64_def y_def [symmetric]
    by (simp add: Let_def tag byte_low bytes_join val)
qed

lemma varint_decode_encode:
  assumes "varint_encode v = Some bs"
  shows "varint_decode (bs @ r) = Inr (v, r)"
proof (cases v)
  case (VarInt x)
  show ?thesis
  proof (cases "x \<le> MAX_1BYTE")
    case True
    then have "unat x < 2 ^ 6" by (simp add: varint_limits word_le_nat_alt)
    note b = bit_less_exp [OF this]
    have "drop_bit 6 (ucast x :: u8) = 0" "ucast ((ucast x :: u8) AND 63) = x"
      unfolding mask_numerals by (rule bit_eqI; auto simp: bit_simps dest: b)+
    with True VarInt assms show ?thesis by (auto simp: varint_encode_def)
  next
    case False
    with assms VarInt show ?thesis
      using varint_decode_put_u16 [of x r] varint_decode_put_u32 [of x r] varint_decode_put_u64 [of x r]
      by (simp add: varint_encode_def Let_def varint_limits word_le_nat_alt
          del: varint_decode.simps split: if_splits)
  qed
qed

section \<open>What decoding guarantees\<close>

text \<open>The announced width: one, two, four or eight bytes.\<close>

definition varint_width :: "u8 \<Rightarrow> nat" where
  "varint_width first = push_bit (unat (drop_bit 6 first)) 1"

lemma varint_width_cases:
  "drop_bit 6 b = 0 \<Longrightarrow> varint_width b = 1" "drop_bit 6 b = 1 \<Longrightarrow> varint_width b = 2"
  "drop_bit 6 b = 2 \<Longrightarrow> varint_width b = 4" "drop_bit 6 b = 3 \<Longrightarrow> varint_width b = 8"
  by (simp_all add: varint_width_def)

lemma varint_decode_cases:
  "varint_decode (b # r) =
     (if length r < varint_width b - 1 then Inl VarIntUnexpectedEnd
      else map_sum id (\<lambda>(v, _). (v, drop (varint_width b - 1) r))
             (varint_decode (b # take (varint_width b - 1) r)))"
  using varint_tag_cases [of b] by (cases r) (auto simp: Let_def varint_width_cases)

lemma varint_decode_Inr_iff:
  "(\<exists>v. varint_decode (b # r) = Inr (v, r')) \<longleftrightarrow>
     varint_width b - 1 \<le> length r \<and> r' = drop (varint_width b - 1) r"
  using varint_tag_cases [of b] by (cases r) (auto simp: Let_def varint_width_cases)

lemma varint_decode_consumes:
  assumes "varint_decode bs = Inr (v, r)"
  shows "strict_suffix r bs"
proof (cases bs)
  case Nil
  with assms show ?thesis by simp
next
  case (Cons b q)
  with assms varint_decode_Inr_iff [of b q r] have "r = drop (varint_width b - 1) q" by blast
  then have "suffix r q" by (simp add: suffix_drop)
  with Cons show ?thesis by (auto simp: strict_suffix_def suffix_def)
qed

interpretation varint_codec: codec varint_encode varint_decode
  "\<lambda>v. in_varint (into_inner v)"
proof
  fix v assume "in_varint (into_inner v)"
  then show "\<exists>bs. varint_encode v = Some bs"
    using varint_encode_None_iff [of v] by (auto simp: in_varint_def)
qed (auto intro: varint_decode_encode varint_decode_consumes simp: in_varint_def)


lemma bit_push_body: "k + 6 \<le> n \<Longrightarrow> \<not> bit (push_bit k (ucast ((b :: u8) AND 63)) :: u64) n"
  unfolding mask_numerals by (auto simp: bit_simps)

lemma bit_push_byte: "k + 8 \<le> n \<Longrightarrow> \<not> bit (push_bit k (ucast (b :: u8)) :: u64) n"
  by (auto simp: bit_simps dest: bit_imp_le_length)

lemma bit_byte: "8 \<le> n \<Longrightarrow> \<not> bit (ucast (b :: u8) :: u64) n"
  by (auto simp: bit_simps dest: bit_imp_le_length)

lemma unat_less_of_bits:
  assumes "\<And>n. bit (x :: u64) n \<Longrightarrow> n < k"
  shows "unat x < 2 ^ k"
proof -
  have "take_bit k x = x" by (rule bit_eqI) (use assms in \<open>auto simp: bit_simps\<close>)
  then have "unat x = take_bit k (unat x)" by (metis unsigned_take_bit_eq)
  then show ?thesis by (metis take_bit_nat_less_exp)
qed

lemma varint_decode_in_range:
  assumes "varint_decode bs = Inr (v, r)"
  shows "in_varint (into_inner v)"
  unfolding in_varint_def
proof (rule unat_less_of_bits)
  fix n assume set: "bit (into_inner v) n"
  show "n < 62"
  proof (rule ccontr)
    assume "\<not> n < 62"
    with set assms show False
      by (cases bs) (auto simp: Let_def bit_or_iff bit_push_body bit_push_byte bit_byte split: if_splits)
  qed
qed

lemma varint_width_exp: "varint_width b = 2 ^ unat (drop_bit 6 b)"
  by (simp add: varint_width_def)

lemma varint_read_eq_decode: "varint_read stream = Some (varint_decode stream)"
proof (cases stream)
  case Nil
  then show ?thesis by (simp add: varint_read_def read_exact_def)
next
  case (Cons b r)
  have "varint_decode (b # take (varint_width b - 1) r) \<noteq> Inl e" if "varint_width b - 1 \<le> length r" for e
    using varint_tag_cases [of b] that by (cases r) (auto simp: Let_def varint_width_cases)
  then show ?thesis
    unfolding varint_read_def read_exact_def Cons
    by (subst varint_decode_cases)
      (auto simp: varint_width_exp Let_def not_less simp del: varint_decode.simps split: sum.splits)
qed

lemma varint_write_eq_encode: "varint_write v = varint_encode v"
proof (cases "varint_encode v")
  case (Some bs)
  then have "length bs \<le> 8"
    by (auto simp: varint_encode_def Let_def put_u16_def put_u32_def put_u64_def split: if_splits)
  with Some show ?thesis by (simp add: varint_write_def)
qed (simp add: varint_write_def)

section \<open>Properties\<close>

text \<open>
  C39: every value in the varint range encodes without panic, to exactly \<open>size()\<close> bytes and at most
  \<open>MAX_SIZE\<close>, and decoding those bytes followed by anything returns the value and leaves the rest.
\<close>

theorem varint_roundtrip:
  assumes "in_varint x"
  shows "\<exists>bs. varint_encode (VarInt x) = Some bs \<and> varint_size (VarInt x) = Some (length bs)
     \<and> length bs \<le> MAX_SIZE \<and> varint_decode (bs @ r) = Inr (VarInt x, r)"
proof -
  obtain bs where bs: "varint_encode (VarInt x) = Some bs"
    using varint_codec.enc_total [of "VarInt x"] assms by auto
  moreover have "varint_size (VarInt x) = Some (length bs)"
    using varint_encode_size [of "VarInt x"] bs by simp
  moreover from this have "length bs \<le> MAX_SIZE"
    by (auto simp: varint_size_def MAX_SIZE_def Let_def split: if_splits)
  ultimately show ?thesis using varint_decode_encode by blast
qed

theorem varint_roundtrip_witness:
  "in_varint 16384 \<and> varint_encode (VarInt 16384) = Some [128, 0, 64, 0]
     \<and> varint_decode ([128, 0, 64, 0] @ [7]) = Inr (VarInt 16384, [7])"
proof -
  have "in_varint 16384" by (simp add: in_varint_def)
  moreover have "varint_encode (VarInt 16384) = Some [128, 0, 64, 0]" by code_simp
  ultimately show ?thesis using varint_roundtrip [of 16384 "[7]"] by auto
qed

text \<open>
  The asynchronous reader never reaches its \<open>unwrap\<close> panic and returns on every byte stream
  exactly what the buffer decoder returns; the writer emits exactly the encoder's bytes.
\<close>

lemma varint_async_agrees:
  "varint_read stream = Some (varint_decode stream) \<and> varint_write v = varint_encode v"
  by (simp add: varint_read_eq_decode varint_write_eq_encode)

text \<open>
  The decoder accepts exactly the inputs that hold as many bytes as the tag of the first byte
  announces; what it returns is in range, so that it can be encoded again.
\<close>

lemma varint_decode_exact:
  "(\<exists>v. varint_decode (b # r) = Inr (v, r') \<and> in_varint (into_inner v)) \<longleftrightarrow>
     2 ^ unat (drop_bit 6 b) \<le> length (b # r) \<and> r' = drop (2 ^ unat (drop_bit 6 b)) (b # r)"
proof -
  have pos: "(2 :: nat) ^ unat (drop_bit 6 b) = Suc (varint_width b - 1)"
    by (simp add: varint_width_exp)
  show ?thesis
    using varint_decode_Inr_iff [of b r r'] varint_decode_in_range [of "b # r" _ r']
    unfolding pos by (simp add: less_Suc_eq_le) blast
qed

end
