(* ===== verification/Frames.thy ===== *)
theory Frames
  imports Varint
begin

text \<open>
  Stream identifiers and wire frames of \<open>websock-mux-proto/src/stream.rs\<close>. A \<open>panic\<close> of the source
  (an integer above the varint range reaching \<open>VarInt::encode\<close>) is \<open>None\<close>. Decoding takes the
  pointer width \<open>w\<close> of the target, because the source reads lengths with \<open>as usize\<close>.
\<close>

section \<open>Stream identifiers\<close>

datatype stream_dir = Bi | Uni

datatype stream_id = StreamId (sid: u64)

definition stream_id_new :: "u64 \<Rightarrow> bool \<Rightarrow> stream_dir \<Rightarrow> varint_bounds_exceeded + stream_id" where
  "stream_id_new counter is_server dir =
     (let initiator = (if is_server then (1 :: u64) else 0);
          dir_bit = (case dir of Bi \<Rightarrow> (0 :: u64) | Uni \<Rightarrow> 1)
      in case checked_mul counter 4 of
           None \<Rightarrow> Inl VarIntBoundsExceeded
         | Some c4 \<Rightarrow>
             (let val = c4 OR push_bit 1 dir_bit OR initiator in
              try_bind (from_u64 val) (\<lambda>_. Inr (StreamId val))))"

definition stream_id_dir :: "stream_id \<Rightarrow> stream_dir" where
  "stream_id_dir i = (if drop_bit 1 (sid i) AND 1 = 1 then Uni else Bi)"

definition initiator_is_server :: "stream_id \<Rightarrow> bool" where
  "initiator_is_server i \<longleftrightarrow> sid i AND 1 = 1"

definition stream_id_counter :: "stream_id \<Rightarrow> u64" where
  "stream_id_counter i = drop_bit 2 (sid i)"

section \<open>Frames\<close>

datatype frame =
    OpenUni stream_id
  | OpenBi stream_id
  | Stream stream_id bytes bool
  | ResetStream stream_id u64
  | StopSending stream_id u64
  | MaxStreamData stream_id u64
  | ConnectionClose u64 string

fun encoded_len :: "frame \<Rightarrow> nat option" where
  "encoded_len (OpenUni i) = do { a \<leftarrow> varint_size (VarInt (sid i)); Some (1 + a) }"
| "encoded_len (OpenBi i) = do { a \<leftarrow> varint_size (VarInt (sid i)); Some (1 + a) }"
| "encoded_len (Stream i d f) = do {
     a \<leftarrow> varint_size (VarInt (sid i));
     b \<leftarrow> varint_size (VarInt (if f then 1 else 0));
     c \<leftarrow> varint_size (VarInt (of_nat (length d)));
     Some (1 + a + b + c + length d) }"
| "encoded_len (ResetStream i code) = do {
     a \<leftarrow> varint_size (VarInt (sid i)); b \<leftarrow> varint_size (VarInt code); Some (1 + a + b) }"
| "encoded_len (StopSending i code) = do {
     a \<leftarrow> varint_size (VarInt (sid i)); b \<leftarrow> varint_size (VarInt code); Some (1 + a + b) }"
| "encoded_len (MaxStreamData i m) = do {
     a \<leftarrow> varint_size (VarInt (sid i)); b \<leftarrow> varint_size (VarInt m); Some (1 + a + b) }"
| "encoded_len (ConnectionClose code reason) = do {
     a \<leftarrow> varint_size (VarInt code);
     b \<leftarrow> varint_size (VarInt (of_nat (length reason)));
     Some (1 + a + b + length reason) }"

text \<open>The fields of a frame in wire order; \<open>frame_encode\<close> sizes the buffer first, as the source does.\<close>

fun encode_fields :: "frame \<Rightarrow> bytes option" where
  "encode_fields (OpenUni i) = do {
     t \<leftarrow> varint_encode (VarInt 0); a \<leftarrow> varint_encode (VarInt (sid i)); Some (t @ a) }"
| "encode_fields (OpenBi i) = do {
     t \<leftarrow> varint_encode (VarInt 1); a \<leftarrow> varint_encode (VarInt (sid i)); Some (t @ a) }"
| "encode_fields (Stream i d f) = do {
     t \<leftarrow> varint_encode (VarInt 2);
     a \<leftarrow> varint_encode (VarInt (sid i));
     b \<leftarrow> varint_encode (VarInt (if f then 1 else 0));
     c \<leftarrow> varint_encode (VarInt (of_nat (length d)));
     Some (t @ a @ b @ c @ d) }"
| "encode_fields (ResetStream i code) = do {
     t \<leftarrow> varint_encode (VarInt 3);
     a \<leftarrow> varint_encode (VarInt (sid i)); b \<leftarrow> varint_encode (VarInt code); Some (t @ a @ b) }"
| "encode_fields (StopSending i code) = do {
     t \<leftarrow> varint_encode (VarInt 4);
     a \<leftarrow> varint_encode (VarInt (sid i)); b \<leftarrow> varint_encode (VarInt code); Some (t @ a @ b) }"
| "encode_fields (MaxStreamData i m) = do {
     t \<leftarrow> varint_encode (VarInt 6);
     a \<leftarrow> varint_encode (VarInt (sid i)); b \<leftarrow> varint_encode (VarInt m); Some (t @ a @ b) }"
| "encode_fields (ConnectionClose code reason) = do {
     t \<leftarrow> varint_encode (VarInt 5);
     a \<leftarrow> varint_encode (VarInt code);
     b \<leftarrow> varint_encode (VarInt (of_nat (length reason)));
     Some (t @ a @ b @ as_bytes reason) }"

definition frame_encode :: "frame \<Rightarrow> bytes option" where
  "frame_encode f = do { _ \<leftarrow> encoded_len f; encode_fields f }"

section \<open>UTF-8 validation\<close>

text \<open>
  \<open>std::str::from_utf8\<close>: \<open>utf8_step\<close> is the length of the first well-formed scalar value (Unicode
  table 3-7: no overlong forms, no surrogates, nothing above U+10FFFF).
\<close>

definition utf8_tail :: "bytes \<Rightarrow> nat \<Rightarrow> bool" where
  "utf8_tail r n \<longleftrightarrow> n \<le> length r \<and> (\<forall>b \<in> set (take n r). 128 \<le> b \<and> b \<le> 191)"

definition utf8_step :: "bytes \<Rightarrow> nat option" where
  "utf8_step bs = (case bs of
     [] \<Rightarrow> None
   | b # r \<Rightarrow>
       if b \<le> 127 then Some 1
       else if 194 \<le> b \<and> b \<le> 223 then (if utf8_tail r 1 then Some 2 else None)
       else if 224 \<le> b \<and> b \<le> 239 then
         (if utf8_tail r 2 \<and> (b = 224 \<longrightarrow> 160 \<le> r ! 0) \<and> (b = 237 \<longrightarrow> r ! 0 \<le> 159)
          then Some 3 else None)
       else if 240 \<le> b \<and> b \<le> 244 then
         (if utf8_tail r 3 \<and> (b = 240 \<longrightarrow> 144 \<le> r ! 0) \<and> (b = 244 \<longrightarrow> r ! 0 \<le> 143)
          then Some 4 else None)
       else None)"

lemma utf8_step_Some:
  assumes "utf8_step bs = Some n"
  shows "0 < n \<and> bs \<noteq> []"
  using assms by (auto simp: utf8_step_def split: list.splits if_splits)

function utf8_valid :: "bytes \<Rightarrow> bool" where
  "utf8_valid bs = (if bs = [] then True
     else case utf8_step bs of None \<Rightarrow> False | Some n \<Rightarrow> utf8_valid (drop n bs))"
  by pat_completeness auto
termination
  by (relation "measure length") (auto dest: utf8_step_Some)

declare utf8_valid.simps [simp del]

definition from_utf8 :: "bytes \<Rightarrow> string option" where
  "from_utf8 bs = (if utf8_valid bs then Some (of_bytes bs) else None)"

section \<open>Decoding\<close>

datatype frame_decode_error = UnexpectedEnd | UnknownTag u64 | InvalidUtf8 | InvalidFin u64

text \<open>\<open>VarInt::decode(buf)?.into_inner()\<close> with the error converted by \<open>From<VarIntUnexpectedEnd>\<close>.\<close>

definition decode_u64 :: "bytes \<Rightarrow> frame_decode_error + (u64 \<times> bytes)" where
  "decode_u64 buf = (case varint_decode buf of
     Inl VarIntUnexpectedEnd \<Rightarrow> Inl UnexpectedEnd
   | Inr (v, r) \<Rightarrow> Inr (into_inner v, r))"

text \<open>The length check and \<open>copy_to_bytes\<close> shared by the two length-prefixed frames.\<close>

definition decode_payload :: "nat \<Rightarrow> bytes \<Rightarrow> frame_decode_error + (bytes \<times> bytes)" where
  "decode_payload w buf = try_bind (decode_u64 buf) (\<lambda>(n, r).
     let len = as_usize w n in
     if length r < len then Inl UnexpectedEnd else Inr (take len r, drop len r))"

definition frame_decode :: "nat \<Rightarrow> bytes \<Rightarrow> frame_decode_error + (frame \<times> bytes)" where
  "frame_decode w buf = try_bind (decode_u64 buf) (\<lambda>(tag, b0).
     if tag = 0 then try_bind (decode_u64 b0) (\<lambda>(i, b1). Inr (OpenUni (StreamId i), b1))
     else if tag = 1 then try_bind (decode_u64 b0) (\<lambda>(i, b1). Inr (OpenBi (StreamId i), b1))
     else if tag = 2 then
       try_bind (decode_u64 b0) (\<lambda>(i, b1).
       try_bind (decode_u64 b1) (\<lambda>(f, b2).
         if f \<noteq> 0 \<and> f \<noteq> 1 then Inl (InvalidFin f)
         else try_bind (decode_payload w b2) (\<lambda>(d, b3). Inr (Stream (StreamId i) d (f = 1), b3))))
     else if tag = 3 then
       try_bind (decode_u64 b0) (\<lambda>(i, b1).
       try_bind (decode_u64 b1) (\<lambda>(c, b2). Inr (ResetStream (StreamId i) c, b2)))
     else if tag = 4 then
       try_bind (decode_u64 b0) (\<lambda>(i, b1).
       try_bind (decode_u64 b1) (\<lambda>(c, b2). Inr (StopSending (StreamId i) c, b2)))
     else if tag = 5 then
       try_bind (decode_u64 b0) (\<lambda>(c, b1).
       try_bind (decode_payload w b1) (\<lambda>(d, b2).
         case from_utf8 d of None \<Rightarrow> Inl InvalidUtf8
         | Some reason \<Rightarrow> Inr (ConnectionClose c reason, b2)))
     else if tag = 6 then
       try_bind (decode_u64 b0) (\<lambda>(i, b1).
       try_bind (decode_u64 b1) (\<lambda>(m, b2). Inr (MaxStreamData (StreamId i) m, b2)))
     else Inl (UnknownTag tag))"

section \<open>Identifiers: fields and ranges\<close>

lemma stream_id_dir_bit: "stream_id_dir i = (if bit (sid i) 1 then Uni else Bi)"
  by (simp add: stream_id_dir_def and_one_eq bit_iff_odd_drop_bit odd_iff_mod_2_eq_one)

lemma initiator_bit: "initiator_is_server i \<longleftrightarrow> bit (sid i) 0"
  by (simp add: initiator_is_server_def and_one_eq bit_0 odd_iff_mod_2_eq_one)

definition stream_id_bits :: "u64 \<Rightarrow> bool \<Rightarrow> stream_dir \<Rightarrow> u64" where
  "stream_id_bits c s d = push_bit 2 c OR push_bit 1 (of_bool (d = Uni)) OR of_bool s"

lemma bit_stream_id_bits:
  "bit (stream_id_bits c s d) n \<longleftrightarrow>
     n < 64 \<and> (if n = 0 then s else if n = 1 then d = Uni else bit c (n - 2))"
  by (cases n; cases "n - 1") (auto simp: stream_id_bits_def bit_simps)

lemma from_u64_Inr_iff: "from_u64 x = Inr v \<longleftrightarrow> in_varint x \<and> v = VarInt x"
  by (auto simp: from_u64_def le_varint_MAX_iff)

lemma stream_id_new_eq:
  "stream_id_new c s d =
     (if unat c < 2 ^ 60 then Inr (StreamId (stream_id_bits c s d)) else Inl VarIntBoundsExceeded)"
proof -
  have mul: "checked_mul c 4 = (if unat c < 2 ^ 62 then Some (push_bit 2 c) else None)"
    by (simp add: checked_mul_def push_bit_eq_mult)
  have val: "push_bit 2 c OR push_bit 1 (case d of Bi \<Rightarrow> 0 | Uni \<Rightarrow> 1) OR (if s then 1 else 0)
      = stream_id_bits c s d"
    by (cases d) (simp_all add: stream_id_bits_def)
  have eq: "stream_id_new c s d =
      (if unat c < 2 ^ 62
       then try_bind (from_u64 (stream_id_bits c s d)) (\<lambda>_. Inr (StreamId (stream_id_bits c s d)))
       else Inl VarIntBoundsExceeded)"
    unfolding stream_id_new_def Let_def mul by (cases "unat c < 2 ^ 62") (simp_all only: val if_True if_False option.case)
  have "unat c < 2 ^ 60" if "unat c < 2 ^ 62" "in_varint (stream_id_bits c s d)"
  proof (rule unat_less_of_bits)
    fix n assume n: "bit c n"
    from bit_less_exp [OF that(1) n] have "n < 62" .
    with n have "bit (stream_id_bits c s d) (n + 2)" by (simp add: bit_stream_id_bits)
    from bit_less_exp [OF that(2) [unfolded in_varint_def] this] show "n < 60" by simp
  qed
  moreover have "in_varint (stream_id_bits c s d)" if "unat c < 2 ^ 60"
    using bit_less_exp [OF that] unfolding in_varint_def
    by (intro unat_less_of_bits) (fastforce simp: bit_stream_id_bits split: if_splits)
  ultimately show ?thesis
    by (auto simp: eq from_u64_def le_varint_MAX_iff)
qed

lemma stream_id_fields:
  fixes s d
  assumes "unat c < 2 ^ 60"
  defines "i \<equiv> StreamId (stream_id_bits c s d)"
  shows "stream_id_counter i = c" "initiator_is_server i = s" "stream_id_dir i = d"
    "in_varint (sid i)"
proof -
  show "stream_id_counter i = c"
    unfolding i_def stream_id_counter_def
    by (rule bit_eqI) (use bit_less_exp [OF assms(1)] in \<open>force simp: bit_simps bit_stream_id_bits\<close>)
  show "initiator_is_server i = s" "stream_id_dir i = d"
    by (cases d; simp add: i_def initiator_bit stream_id_dir_bit bit_stream_id_bits)+
  show "in_varint (sid i)"
    using bit_less_exp [OF assms(1)] unfolding i_def in_varint_def
    by (intro unat_less_of_bits) (fastforce simp: bit_stream_id_bits split: if_splits)
qed

lemma stream_id_eq_iff:
  "i = j \<longleftrightarrow> stream_id_counter i = stream_id_counter j
     \<and> (initiator_is_server i \<longleftrightarrow> initiator_is_server j) \<and> stream_id_dir i = stream_id_dir j"
  (is "_ = ?fields")
proof
  assume f: ?fields
  have "bit (sid i) n = bit (sid j) n" for n
  proof -
    consider "n = 0" | "n = 1" | m where "n = m + 2"
      by (metis One_nat_def add_2_eq_Suc' not0_implies_Suc)
    then show ?thesis
    proof cases
      case (3 m)
      from f have "bit (drop_bit 2 (sid i)) m = bit (drop_bit 2 (sid j)) m"
        by (simp add: stream_id_counter_def)
      with 3 show ?thesis by (simp add: bit_drop_bit_eq)
    qed (use f in \<open>auto simp: initiator_bit stream_id_dir_bit split: if_splits\<close>)
  qed
  then have "sid i = sid j" by (simp add: bit_eq_iff)
  then show "i = j" by (cases i; cases j) simp
qed simp

lemma stream_id_counter_bound:
  assumes "in_varint (sid i)"
  shows "unat (stream_id_counter i) < 2 ^ 60"
  using bit_less_exp [OF assms [unfolded in_varint_def]]
  by (intro unat_less_of_bits) (fastforce simp: stream_id_counter_def bit_simps)

section \<open>The frame codec\<close>

text \<open>The integers a frame puts on the wire as varints.\<close>

fun frame_ints :: "frame \<Rightarrow> u64 list" where
  "frame_ints (OpenUni i) = [sid i]"
| "frame_ints (OpenBi i) = [sid i]"
| "frame_ints (Stream i d f) = [sid i, of_nat (length d)]"
| "frame_ints (ResetStream i c) = [sid i, c]"
| "frame_ints (StopSending i c) = [sid i, c]"
| "frame_ints (MaxStreamData i m) = [sid i, m]"
| "frame_ints (ConnectionClose c reason) = [c, of_nat (length reason)]"

fun payload_len :: "frame \<Rightarrow> nat" where
  "payload_len (Stream i d f) = length d"
| "payload_len (ConnectionClose c reason) = length reason"
| "payload_len _ = 0"

fun reason_valid :: "frame \<Rightarrow> bool" where
  "reason_valid (ConnectionClose c reason) = utf8_valid (as_bytes reason)"
| "reason_valid _ = True"

text \<open>
  A frame a program on a target of pointer width \<open>w\<close> can hold: its payload is addressable, a
  close reason is a Rust \<open>String\<close>, and every integer is in the varint range.
\<close>

definition frame_wf :: "nat \<Rightarrow> frame \<Rightarrow> bool" where
  "frame_wf w f \<longleftrightarrow> list_all in_varint (frame_ints f)
     \<and> payload_len f < 2 ^ w \<and> payload_len f < 2 ^ 62 \<and> reason_valid f"

lemma varint_encode_total: "(\<exists>b. varint_encode v = Some b) \<longleftrightarrow> in_varint (into_inner v)"
  using varint_encode_None_iff [of v] by (cases "varint_encode v") auto

lemma bind_None_conv: "Option.bind x f = None \<longleftrightarrow> x = None \<or> (\<exists>a. x = Some a \<and> f a = None)"
  by (cases x) auto

lemma varint_encode_small: "unat x < 64 \<Longrightarrow> varint_encode (VarInt x) = Some [ucast x]"
  by (simp add: varint_encode_def varint_limits word_le_nat_alt)

lemma varint_size_small: "unat x < 64 \<Longrightarrow> varint_size (VarInt x) = Some 1"
  by (simp add: varint_size_def varint_limits word_le_nat_alt)

lemma varint_size_encode: "varint_encode v = Some b \<Longrightarrow> varint_size v = Some (length b)"
  using varint_encode_size [of v] by simp

lemma encoded_len_encode_fields: "encode_fields f = Some bs \<Longrightarrow> encoded_len f = Some (length bs)"
  by (cases f) (auto simp: varint_encode_small varint_size_small Option.bind_eq_Some_conv
      dest!: varint_size_encode)

lemma encode_fields_None_iff:
  "encode_fields f = None \<longleftrightarrow> (\<exists>x \<in> set (frame_ints f). \<not> in_varint x)"
  by (cases f) (auto simp: bind_None_conv varint_encode_None_iff varint_encode_small
      varint_encode_total)

lemma varint_size_total: "(\<exists>n. varint_size v = Some n) \<longleftrightarrow> in_varint (into_inner v)"
  using varint_size_None_iff [of v] by (cases "varint_size v") auto

lemma encoded_len_None_iff:
  "encoded_len f = None \<longleftrightarrow> (\<exists>x \<in> set (frame_ints f). \<not> in_varint x)"
  by (cases f) (auto simp: bind_None_conv varint_size_None_iff varint_size_small varint_size_total)

lemma frame_encode_eq: "frame_encode f = encode_fields f"
proof (cases "encode_fields f")
  case (Some bs)
  then show ?thesis by (simp add: frame_encode_def encoded_len_encode_fields)
qed (simp add: frame_encode_def)

lemma decode_u64_encode: "varint_encode (VarInt x) = Some b \<Longrightarrow> decode_u64 (b @ r) = Inr (x, r)"
  by (simp add: decode_u64_def varint_decode_encode)

lemma decode_u64_small: "unat x < 64 \<Longrightarrow> decode_u64 (ucast x # r) = Inr (x, r)"
  using decode_u64_encode [OF varint_encode_small, of x r] by simp

lemma decode_payload_encode:
  assumes "varint_encode (VarInt (of_nat (length d))) = Some b" "length d < 2 ^ w" "length d < 2 ^ 62"
  shows "decode_payload w (b @ d @ r) = Inr (d, r)"
  using assms by (simp add: decode_payload_def decode_u64_encode as_usize_of_nat)

lemmas field_simps_enc =
  decode_u64_encode decode_u64_small decode_payload_encode varint_encode_small

lemma frame_decode_encode:
  assumes "frame_wf w f" and "frame_encode f = Some bs"
  shows "frame_decode w (bs @ r) = Inr (f, r)"
proof (cases f)
  case (ConnectionClose c reason)
  obtain a b where ab: "varint_encode (VarInt c) = Some a"
      "varint_encode (VarInt (of_nat (length (as_bytes reason)))) = Some b"
      "bs = 5 # a @ b @ as_bytes reason"
    using assms(2) ConnectionClose
    by (auto simp: frame_encode_eq varint_encode_small Option.bind_eq_Some_conv)
  have "decode_payload w (b @ as_bytes reason @ r) = Inr (as_bytes reason, r)"
    by (rule decode_payload_encode) (use ab assms(1) ConnectionClose in \<open>simp_all add: frame_wf_def\<close>)
  then show ?thesis
    using ab assms(1) ConnectionClose decode_u64_small [of 5]
    by (simp add: frame_decode_def decode_u64_encode from_utf8_def frame_wf_def)
next
  case (Stream i d fin)
  show ?thesis
    using assms Stream decode_u64_small [of 2] decode_u64_small [of 1] decode_u64_small [of 0]
    by (cases i) (auto simp: frame_encode_eq frame_decode_def frame_wf_def field_simps_enc
        Option.bind_eq_Some_conv)
qed (use assms decode_u64_small [of 0] decode_u64_small [of 1] decode_u64_small [of 3]
      decode_u64_small [of 4] decode_u64_small [of 6] in
      \<open>auto simp: frame_encode_eq frame_decode_def field_simps_enc Option.bind_eq_Some_conv\<close>)

lemma decode_u64_consumes: "decode_u64 bs = Inr (x, r) \<Longrightarrow> strict_suffix r bs"
  by (auto simp: decode_u64_def dest: varint_decode_consumes split: sum.splits varint_unexpected_end.splits)

lemma decode_u64_in_range: "decode_u64 bs = Inr (x, r) \<Longrightarrow> in_varint x"
  by (auto simp: decode_u64_def dest: varint_decode_in_range split: sum.splits varint_unexpected_end.splits)

lemma decode_payload_consumes: "decode_payload w bs = Inr (d, r) \<Longrightarrow> strict_suffix r bs"
  by (auto simp: decode_payload_def try_bind_Inr_iff Let_def split: if_splits
      dest!: decode_u64_consumes intro: suffix_order.le_less_trans [OF suffix_drop])

lemma as_usize_le: "as_usize w x \<le> unat x" "as_usize w x < 2 ^ w"
  by (simp_all add: as_usize_def)

lemma decode_payload_bounds:
  assumes "decode_payload w bs = Inr (d, r)"
  shows "length d < 2 ^ w" "length d < 2 ^ 62"
proof -
  from assms obtain n q where n: "decode_u64 bs = Inr (n, q)" and d: "d = take (as_usize w n) q"
    by (auto simp: decode_payload_def try_bind_Inr_iff Let_def split: if_splits)
  then have "length d \<le> as_usize w n" by simp
  with as_usize_le [of w n] decode_u64_in_range [OF n, unfolded in_varint_def]
  show "length d < 2 ^ w" "length d < 2 ^ 62" by linarith+
qed

lemma in_varint_of_nat: "n < 2 ^ 62 \<Longrightarrow> in_varint (of_nat n)"
  by (simp add: in_varint_def unat_of_nat_u64)

lemma frame_decode_wf:
  assumes "frame_decode w bs = Inr (f, r)"
  shows "frame_wf w f"
proof -
  note bounds = decode_u64_in_range decode_payload_bounds in_varint_of_nat [OF decode_payload_bounds(2)]
  from assms show ?thesis
    by (auto simp: frame_decode_def try_bind_Inr_iff frame_wf_def from_utf8_def
        dest: bounds [simplified] split: if_splits option.splits)
qed

lemma frame_decode_consumes:
  assumes "frame_decode w bs = Inr (f, r)"
  shows "strict_suffix r bs"
  using assms
  by (auto simp: frame_decode_def try_bind_Inr_iff split: if_splits option.splits
      dest!: decode_u64_consumes decode_payload_consumes intro: suffix_order.less_trans)

interpretation frame_codec: codec frame_encode "frame_decode w" "frame_wf w" for w
proof
  fix f assume "frame_wf w f"
  then have "encode_fields f \<noteq> None"
    by (simp add: encode_fields_None_iff frame_wf_def list_all_iff)
  then show "\<exists>bs. frame_encode f = Some bs" by (simp add: frame_encode_eq)
qed (auto intro: frame_decode_encode frame_decode_consumes)

lemma varint_encode_length_le: "varint_encode v = Some b \<Longrightarrow> length b \<le> 8"
  by (auto simp: varint_encode_def Let_def put_u16_def put_u32_def put_u64_def split: if_splits)

lemma stream_frame_overhead:
  "frame_encode (Stream i d fin) = Some bs \<Longrightarrow> length bs \<le> length d + 18"
  by (auto simp: frame_encode_eq varint_encode_small Option.bind_eq_Some_conv
      dest!: varint_encode_length_le)

lemma ascii_utf8_valid: "list_all (\<lambda>b. b \<le> 127) bs \<Longrightarrow> utf8_valid bs"
  by (induction bs) (simp_all add: utf8_valid.simps utf8_step_def)

section \<open>Properties\<close>

text \<open>
  C24: a frame whose integers fit in a varint encodes without panic, and decoding the bytes followed
  by anything gives back the frame and leaves the rest, at any pointer width its payload fits in.
\<close>

theorem frame_roundtrip:
  assumes "frame_wf w f"
  shows "\<exists>bs. frame_encode f = Some bs \<and> frame_decode w (bs @ r) = Inr (f, r)"
  using frame_codec.enc_total [OF assms] frame_codec.dec_enc [OF assms] by blast

theorem frame_roundtrip_witness:
  "frame_wf 64 (Stream (StreamId 6) [1, 2] True)
     \<and> frame_decode 64 ([2, 6, 1, 2, 1, 2] @ [9]) = Inr (Stream (StreamId 6) [1, 2] True, [9])"
proof -
  have "frame_wf 64 (Stream (StreamId 6) [1, 2] True)"
    by (simp add: frame_wf_def in_varint_def)
  moreover have "frame_encode (Stream (StreamId 6) [1, 2] True) = Some [2, 6, 1, 2, 1, 2]"
    by code_simp
  ultimately show ?thesis using frame_roundtrip [of 64 "Stream (StreamId 6) [1, 2] True" "[9]"] by auto
qed

text \<open>
  C25: whatever \<open>Frame::decode\<close> accepts is a well-formed frame that the encoder accepts again, and
  decoding makes progress: the rest is a proper suffix of the input.
\<close>

theorem frame_decode_sound:
  assumes "frame_decode w bs = Inr (f, r)"
  shows "frame_wf w f \<and> frame_encode f \<noteq> None \<and> strict_suffix r bs"
  using frame_decode_wf [OF assms] frame_decode_consumes [OF assms] frame_codec.enc_total by blast

theorem frame_decode_sound_witness:
  "frame_decode 64 [4, 64, 3, 5, 0] = Inr (StopSending (StreamId 3) 5, [0])
     \<and> frame_encode (StopSending (StreamId 3) 5) \<noteq> None"
proof -
  have "frame_decode 64 [4, 64, 3, 5, 0] = Inr (StopSending (StreamId 3) 5, [0])" by code_simp
  then show ?thesis using frame_decode_sound by blast
qed

text \<open>
  \<open>encode\<close> panics exactly when an identifier, code, limit or length is \<open>2 ^ 62\<close> or more, and
  \<open>encoded_len\<close> is the exact number of bytes written, so the reserved buffer is never outgrown.
\<close>

lemma frame_encode_panics_iff:
  "(frame_encode f = None \<longleftrightarrow> (\<exists>x \<in> set (frame_ints f). 2 ^ 62 \<le> unat x))
     \<and> map_option length (frame_encode f) = encoded_len f"
proof -
  have "frame_encode f = None \<longleftrightarrow> (\<exists>x \<in> set (frame_ints f). \<not> in_varint x)"
    by (simp add: frame_encode_eq encode_fields_None_iff)
  moreover have "encode_fields f = None \<Longrightarrow> encoded_len f = None"
    by (simp add: encode_fields_None_iff encoded_len_None_iff)
  then have "map_option length (frame_encode f) = encoded_len f"
    by (cases "encode_fields f") (auto simp: frame_encode_eq dest: encoded_len_encode_fields)
  ultimately show ?thesis by (simp add: in_varint_def not_less)
qed

fun encode_batch :: "frame list \<Rightarrow> bytes option" where
  "encode_batch [] = Some []"
| "encode_batch (f # fs) = do { b \<leftarrow> frame_encode f; bs \<leftarrow> encode_batch fs; Some (b @ bs) }"

text \<open>
  C26: two different sequences of well-formed frames never have the same concatenated encoding: the
  frames of a batch can be read back in one way only.
\<close>

theorem batch_unambiguous:
  assumes "list_all (frame_wf w) fs" "list_all (frame_wf w) gs"
    and "encode_batch fs = Some b" "encode_batch gs = Some b"
  shows "fs = gs"
  using assms
proof (induction fs arbitrary: gs b)
  case Nil
  then show ?case by (cases gs) (auto simp: Option.bind_eq_Some_conv dest: frame_codec.enc_nonempty)
next
  case (Cons f fs)
  then obtain bf bs where f: "frame_encode f = Some bf" "encode_batch fs = Some bs" "b = bf @ bs"
    by (auto simp: Option.bind_eq_Some_conv)
  with Cons.prems frame_codec.enc_nonempty [of w f bf] have "b \<noteq> []" by auto
  with Cons.prems(4) obtain g gs' bg bs' where g: "gs = g # gs'" "frame_encode g = Some bg"
      "encode_batch gs' = Some bs'" "b = bg @ bs'"
    by (cases gs) (auto simp: Option.bind_eq_Some_conv)
  have "f = g \<and> bs = bs'"
    using frame_codec.enc_prefix_free [of w f g bf bg bs bs'] f g Cons.prems by auto
  with Cons.IH [of gs' bs] f g Cons.prems show ?case by auto
qed

theorem batch_unambiguous_witness:
  "{gs. list_all (frame_wf 64) gs \<and> encode_batch gs = Some [0, 2, 3, 2, 0]}
     = {[OpenUni (StreamId 2), ResetStream (StreamId 2) 0]}"
proof -
  let ?fs = "[OpenUni (StreamId 2), ResetStream (StreamId 2) 0]"
  have "list_all (frame_wf 64) ?fs" by (simp add: frame_wf_def in_varint_def)
  moreover have "encode_batch ?fs = Some [0, 2, 3, 2, 0]" by code_simp
  ultimately show ?thesis using batch_unambiguous [of 64 ?fs _ "[0, 2, 3, 2, 0]"] by blast
qed

text \<open>
  A stream identifier carries its counter, its initiator and its direction, and construction
  fails exactly for counters of \<open>2 ^ 60\<close> or more; so different triples get different identifiers.
\<close>

lemma stream_id_roundtrip:
  "(case stream_id_new c s d of
      Inr i \<Rightarrow> unat c < 2 ^ 60 \<and> stream_id_counter i = c \<and> initiator_is_server i = s
        \<and> stream_id_dir i = d \<and> in_varint (sid i)
    | Inl _ \<Rightarrow> 2 ^ 60 \<le> unat c)"
  using stream_id_fields [of c] by (simp add: stream_id_new_eq)

lemma decode_long_length:
  "decode_u64 [192, 0, 0, 1, 0, 0, 0, 2, 65, 66] = Inr (4294967298, [65, 66])"
  by code_simp

lemma decode_payload_long_length:
  "decode_payload 64 [192, 0, 0, 1, 0, 0, 0, 2, 65, 66] = Inl UnexpectedEnd"
  "decode_payload 32 [192, 0, 0, 1, 0, 0, 0, 2, 65, 66] = Inr ([65, 66], [])"
  by (simp_all add: decode_payload_def decode_long_length as_usize_def)


end
