(* ===== verification/Ws_Options.thy ===== *)
theory Ws_Options
  imports Frames
begin

text \<open>
  The shared vocabulary of \<open>websock-proto\<close> (errors, messages, connection options and resource
  limits), the mux \<open>Limits\<close> of the session layer, and the tungstenite configurations computed from
  them. \<open>usize\<close> limits are natural numbers below \<open>2 ^ w\<close> for the pointer width \<open>w\<close>.
\<close>

section \<open>Errors and messages\<close>

text \<open>An \<open>io::Error\<close> by its kind and text; kinds the sources never build are \<open>OsKind\<close>.\<close>

datatype error_kind = BrokenPipe | InvalidInput | KindOther | OsKind nat

datatype io_error = IoError (io_error_kind: error_kind) string

text \<open>A type-erased source error (\<open>BoxError\<close>) is represented by its text.\<close>

datatype error =
    Closed
  | InvalidUrl string
  | Protocol string
  | Io io_error
  | Tls string
  | Transport string
  | Unsupported string
  | FrameDecode string
  | StreamIdError string
  | Other string

fun io_kind :: "error \<Rightarrow> error_kind option" where
  "io_kind (Io e) = Some (io_error_kind e)"
| "io_kind _ = None"

text \<open>The \<open>Display\<close> texts the \<open>thiserror\<close> attributes derive.\<close>

fun error_to_string :: "error \<Rightarrow> string" where
  "error_to_string Closed = ''connection closed''"
| "error_to_string (InvalidUrl m) = ''invalid url: '' @ m"
| "error_to_string (Protocol m) = ''protocol error: '' @ m"
| "error_to_string (Io (IoError k m)) = ''io error: '' @ m"
| "error_to_string (Tls m) = ''tls error: '' @ m"
| "error_to_string (Transport m) = ''transport error: '' @ m"
| "error_to_string (Unsupported m) = ''unsupported: '' @ m"
| "error_to_string (FrameDecode m) = ''frame decode error: '' @ m"
| "error_to_string (StreamIdError m) = ''stream id error: '' @ m"
| "error_to_string (Other m) = ''other error: '' @ m"

datatype message = Text string | Binary bytes

record close_frame =
  cf_code :: u16
  cf_reason :: string

definition close_frame_normal :: close_frame where
  "close_frame_normal = \<lparr>cf_code = 1000, cf_reason = ''''\<rparr>"

section \<open>Transport limits and options\<close>

record websocket_limits =
  max_message_size :: nat
  max_frame_size :: nat
  max_write_buffer_size :: nat

definition websocket_limits_default :: websocket_limits where
  "websocket_limits_default = \<lparr>max_message_size = 16 * 1024 * 1024,
     max_frame_size = 4 * 1024 * 1024, max_write_buffer_size = 16 * 1024 * 1024\<rparr>"

definition websocket_limits_validate :: "websocket_limits \<Rightarrow> error + unit" where
  "websocket_limits_validate l =
     (if max_message_size l = 0 then Inl (Protocol ''max_message_size must be greater than zero'')
      else if max_frame_size l = 0 then Inl (Protocol ''max_frame_size must be greater than zero'')
      else if max_frame_size l > max_message_size l then
        Inl (Protocol ''max_frame_size must not exceed max_message_size'')
      else if max_write_buffer_size l = 0 then
        Inl (Protocol ''max_write_buffer_size must be greater than zero'')
      else Inr ())"

record connect_options =
  co_protocols :: "string list"
  co_headers :: "(string \<times> string) list"
  co_limits :: websocket_limits

definition connect_options_default :: connect_options where
  "connect_options_default =
     \<lparr>co_protocols = [], co_headers = [], co_limits = websocket_limits_default\<rparr>"

record server_options =
  so_protocols :: "string list"
  so_headers :: "(string \<times> string) list"
  so_limits :: websocket_limits

definition server_options_default :: server_options where
  "server_options_default =
     \<lparr>so_protocols = [], so_headers = [], so_limits = websocket_limits_default\<rparr>"

definition default_ws_alpn :: "bytes list" where
  "default_ws_alpn = [as_bytes ''http/1.1'']"

section \<open>Mux session limits\<close>

record limits =
  max_ws_message_size :: nat
  max_stream_data_per_frame :: nat
  max_open_streams :: nat
  recv_event_queue_len :: nat
  outbound_queue_len :: nat
  max_batch_frames :: nat
  max_batch_bytes :: nat
  initial_stream_window :: nat
  stream_window_update_threshold :: nat
  accept_uni_queue_len :: nat
  accept_bi_queue_len :: nat

definition limits_default :: limits where
  "limits_default = \<lparr>
     max_ws_message_size = 1024 * 1024,
     max_stream_data_per_frame = 256 * 1024,
     max_open_streams = 1024,
     recv_event_queue_len = 128,
     outbound_queue_len = 256,
     max_batch_frames = 64,
     max_batch_bytes = 512 * 1024,
     initial_stream_window = 512 * 1024,
     stream_window_update_threshold = 256 * 1024,
     accept_uni_queue_len = 128,
     accept_bi_queue_len = 128\<rparr>"

definition limits_validate :: "nat \<Rightarrow> limits \<Rightarrow> error + unit" where
  "limits_validate w l =
     (let non_zero =
        [(''max_ws_message_size'', max_ws_message_size l),
         (''max_stream_data_per_frame'', max_stream_data_per_frame l),
         (''max_open_streams'', max_open_streams l),
         (''recv_event_queue_len'', recv_event_queue_len l),
         (''outbound_queue_len'', outbound_queue_len l),
         (''max_batch_frames'', max_batch_frames l),
         (''max_batch_bytes'', max_batch_bytes l),
         (''initial_stream_window'', initial_stream_window l),
         (''stream_window_update_threshold'', stream_window_update_threshold l),
         (''accept_uni_queue_len'', accept_uni_queue_len l),
         (''accept_bi_queue_len'', accept_bi_queue_len l)]
      in case find (\<lambda>(_, v). v = 0) non_zero of
           Some (name, _) \<Rightarrow> Inl (Protocol (name @ '' must be greater than zero''))
         | None \<Rightarrow>
             if max_stream_data_per_frame l > max_ws_message_size l then
               Inl (Protocol ''max_stream_data_per_frame must not exceed max_ws_message_size'')
             else if max_batch_bytes l > max_ws_message_size l then
               Inl (Protocol ''max_batch_bytes must not exceed max_ws_message_size'')
             else if max_batch_bytes l < usize_saturating_add w (max_stream_data_per_frame l) 33 then
               Inl (Protocol ''max_batch_bytes must accommodate a maximum-size stream frame'')
             else if stream_window_update_threshold l > initial_stream_window l then
               Inl (Protocol ''stream_window_update_threshold must not exceed initial_stream_window'')
             else if max_ws_message_size l > unat (into_inner varint_MAX)
                   \<or> initial_stream_window l > unat (into_inner varint_MAX) then
               Inl (Protocol ''byte and flow-control limits must fit in a mux varint'')
             else Inr ())"

section \<open>tungstenite configurations\<close>

text \<open>The fields of \<open>WebSocketConfig\<close> the sources set; all others keep tungstenite's defaults.\<close>

record ws_config =
  read_buffer_size :: nat
  write_buffer_size :: nat
  cfg_max_write_buffer_size :: nat
  cfg_max_message_size :: "nat option"
  cfg_max_frame_size :: "nat option"

definition limits_websocket_config :: "nat \<Rightarrow> limits \<Rightarrow> ws_config" where
  "limits_websocket_config w l =
     (let buffer_size = min (max_ws_message_size l) (128 * 1024) in
      \<lparr>read_buffer_size = buffer_size,
       write_buffer_size = buffer_size,
       cfg_max_write_buffer_size = usize_saturating_add w buffer_size (max_ws_message_size l),
       cfg_max_message_size = Some (max_ws_message_size l),
       cfg_max_frame_size = Some (max_ws_message_size l)\<rparr>)"

text \<open>The configuration \<open>connect_with_tls\<close> and \<open>bind\<close> of the plain transport build.\<close>

definition transport_config :: "websocket_limits \<Rightarrow> ws_config" where
  "transport_config l =
     (let write_buffer_size = min (128 * 1024) (max_write_buffer_size l - 1) in
      \<lparr>read_buffer_size = min (128 * 1024) (max_frame_size l),
       write_buffer_size = write_buffer_size,
       cfg_max_write_buffer_size = max_write_buffer_size l,
       cfg_max_message_size = Some (max_message_size l),
       cfg_max_frame_size = Some (max_frame_size l)\<rparr>)"

section \<open>What validation establishes\<close>

definition limits_ok :: "nat \<Rightarrow> limits \<Rightarrow> bool" where
  "limits_ok w l \<longleftrightarrow>
     0 < max_ws_message_size l \<and> 0 < max_stream_data_per_frame l \<and> 0 < max_open_streams l
     \<and> 0 < recv_event_queue_len l \<and> 0 < outbound_queue_len l \<and> 0 < max_batch_frames l
     \<and> 0 < max_batch_bytes l \<and> 0 < initial_stream_window l
     \<and> 0 < stream_window_update_threshold l \<and> 0 < accept_uni_queue_len l
     \<and> 0 < accept_bi_queue_len l
     \<and> max_stream_data_per_frame l \<le> max_ws_message_size l
     \<and> max_batch_bytes l \<le> max_ws_message_size l
     \<and> usize_saturating_add w (max_stream_data_per_frame l) 33 \<le> max_batch_bytes l
     \<and> stream_window_update_threshold l \<le> initial_stream_window l
     \<and> max_ws_message_size l < 2 ^ 62 \<and> initial_stream_window l < 2 ^ 62"

lemma limits_validate_ok_iff: "limits_validate w l = Inr () \<longleftrightarrow> limits_ok w l"
  by (auto simp: limits_validate_def limits_ok_def unat_varint_MAX split: if_splits)

text \<open>
  \<open>Limits::validate\<close> accepts exactly the limits that are non-zero and mutually consistent; on
  a rejection it returns a protocol error.
\<close>

lemma limits_validate_iff:
  "(limits_validate w l = Inr () \<longleftrightarrow> limits_ok w l)
   \<and> (\<forall>e. limits_validate w l = Inl e \<longrightarrow> (\<exists>msg. e = Protocol msg))"
  using limits_validate_ok_iff [of w l]
  by (auto simp: limits_validate_def Let_def split: if_splits option.splits prod.splits)

lemma limits_validate_iff_witness:
  "limits_validate 64 limits_default = Inr () \<and> limits_ok 64 limits_default
   \<and> limits_validate 64 (limits_default\<lparr>max_open_streams := 0\<rparr>)
       = Inl (Protocol ''max_open_streams must be greater than zero'')"
  using limits_validate_iff [of 64 limits_default]
  by (simp add: limits_default_def limits_ok_def usize_saturating_add_def limits_validate_def)

text \<open>
  Under validated limits on a 64-bit target every \<open>Stream\<close> frame whose payload respects
  \<open>max_stream_data_per_frame\<close> encodes into at most \<open>max_batch_bytes\<close>, so it fits one message.
\<close>

lemma stream_frame_fits_batch:
  assumes "limits_validate 64 l = Inr ()"
    and "length d \<le> max_stream_data_per_frame l"
    and "frame_encode (Stream i d fin) = Some bs"
  shows "length bs \<le> max_batch_bytes l \<and> length bs \<le> max_ws_message_size l"
proof -
  from assms(1) have ok: "limits_ok 64 l" by (simp add: limits_validate_ok_iff)
  then have "max_stream_data_per_frame l + 33 \<le> max_batch_bytes l"
    by (auto simp: limits_ok_def usize_saturating_add_def)
  with ok assms(2) stream_frame_overhead [OF assms(3)] show ?thesis
    by (auto simp: limits_ok_def)
qed

lemma stream_frame_fits_batch_witness:
  "frame_encode (Stream (StreamId 4) [1, 2] False) = Some [2, 4, 0, 2, 1, 2]
   \<and> length [2, 4, 0, 2, 1, 2 :: u8] \<le> max_batch_bytes limits_default"
proof -
  have e: "frame_encode (Stream (StreamId 4) [1, 2] False) = Some [2, 4, 0, 2, 1, 2]"
    by (simp add: frame_encode_eq varint_encode_small)
  have v: "limits_validate 64 limits_default = Inr ()"
    by (simp add: limits_validate_def limits_default_def usize_saturating_add_def unat_varint_MAX)
  from stream_frame_fits_batch [OF v _ e] e show ?thesis by (simp add: limits_default_def)
qed

text \<open>
  Both configurations handed to tungstenite keep its documented requirement that
  \<open>max_write_buffer_size\<close> exceeds \<open>write_buffer_size\<close> (tungstenite panics otherwise).
\<close>

lemma configs_respect_write_buffer:
  "(limits_validate 64 l = Inr () \<longrightarrow>
      write_buffer_size (limits_websocket_config 64 l)
        < cfg_max_write_buffer_size (limits_websocket_config 64 l))
   \<and> (websocket_limits_validate t = Inr () \<longrightarrow>
      write_buffer_size (transport_config t) < cfg_max_write_buffer_size (transport_config t))"
  by (auto simp: limits_validate_ok_iff limits_ok_def limits_websocket_config_def Let_def
      usize_saturating_add_def websocket_limits_validate_def transport_config_def split: if_splits)

lemma configs_respect_write_buffer_witness:
  "limits_validate 64 limits_default = Inr ()
   \<and> write_buffer_size (limits_websocket_config 64 limits_default) = 131072
   \<and> write_buffer_size (limits_websocket_config 64 limits_default)
        < cfg_max_write_buffer_size (limits_websocket_config 64 limits_default)
   \<and> write_buffer_size (transport_config websocket_limits_default)
        < cfg_max_write_buffer_size (transport_config websocket_limits_default)"
  using configs_respect_write_buffer [of limits_default websocket_limits_default]
  by (simp add: limits_validate_def limits_default_def usize_saturating_add_def unat_varint_MAX
      websocket_limits_validate_def websocket_limits_default_def limits_websocket_config_def)

end
