(* ===== verification/Send_Flow_Cas.thy ===== *)
theory Send_Flow_Cas
  imports Send_Flow
begin

text \<open>
  The compare-and-swap loops of \<open>SendFlowState\<close> one memory access at a time. Each thread has a
  program counter and the number of bytes it reserved and neither released nor put on the wire;
  \<open>on_wire\<close> counts the bytes of the frames that were enqueued. Memory accesses of one atomic are
  totally ordered, which is what the modification order of the C++/Rust memory model gives for a
  single location; the two locations \<open>sent_data\<close> and \<open>max_data\<close> are read in separate steps.
\<close>

section \<open>Threads\<close>

datatype flow_pc =
    Idle
  | ReserveLoadSent u64
  | ReserveLoadMax u64 u64
  | ReserveCas u64 u64 u64
  | UpdateLoad u64
  | UpdateCas u64 u64
  | CloseWake

record flow_thread =
  pc :: flow_pc
  held :: nat

record flow_sys =
  shared_flow :: send_flow
  on_wire :: nat
  threads :: "flow_thread list"

text \<open>
  One access of one thread: the flow, the bytes on the wire and the thread before and after it.
  \<open>reserve_fail\<close> and \<open>update_retry\<close> are the failing compare-and-swaps, \<open>transmit\<close> is the send of a
  frame whose bytes were reserved before.
\<close>

inductive flow_step :: "send_flow \<times> nat \<times> flow_thread \<Rightarrow> send_flow \<times> nat \<times> flow_thread \<Rightarrow> bool" where
  reserve_start:
    "\<lbrakk>pc t = Idle; n \<noteq> 0; \<not> flow_closed f\<rbrakk>
     \<Longrightarrow> flow_step (f, w, t) (f, w, t\<lparr>pc := ReserveLoadSent n\<rparr>)"
| reserve_load_sent:
    "pc t = ReserveLoadSent n
     \<Longrightarrow> flow_step (f, w, t) (f, w, t\<lparr>pc := ReserveLoadMax n (sent_data f)\<rparr>)"
| reserve_none:
    "\<lbrakk>pc t = ReserveLoadMax n sent; max_data f \<le> sent\<rbrakk>
     \<Longrightarrow> flow_step (f, w, t) (f, w, t\<lparr>pc := Idle\<rparr>)"
| reserve_load_max:
    "\<lbrakk>pc t = ReserveLoadMax n sent; sent < max_data f\<rbrakk>
     \<Longrightarrow> flow_step (f, w, t) (f, w, t\<lparr>pc := ReserveCas n sent (min (max_data f - sent) n)\<rparr>)"
| reserve_ok:
    "\<lbrakk>pc t = ReserveCas n sent grant; sent_data f = sent\<rbrakk>
     \<Longrightarrow> flow_step (f, w, t)
           (f\<lparr>sent_data := sent + grant\<rparr>, w, t\<lparr>pc := Idle, held := held t + unat grant\<rparr>)"
| reserve_fail:
    "\<lbrakk>pc t = ReserveCas n sent grant; sent_data f \<noteq> sent\<rbrakk>
     \<Longrightarrow> flow_step (f, w, t) (f, w, t\<lparr>pc := ReserveLoadSent n\<rparr>)"
| release_step:
    "\<lbrakk>pc t = Idle; n \<le> held t\<rbrakk>
     \<Longrightarrow> flow_step (f, w, t) (release n f, w, t\<lparr>held := held t - n\<rparr>)"
| transmit:
    "\<lbrakk>pc t = Idle; n \<le> held t\<rbrakk>
     \<Longrightarrow> flow_step (f, w, t) (f, w + n, t\<lparr>held := held t - n\<rparr>)"
| update_start:
    "\<lbrakk>pc t = Idle; \<not> flow_closed f\<rbrakk>
     \<Longrightarrow> flow_step (f, w, t) (f, w, t\<lparr>pc := UpdateLoad m\<rparr>)"
| update_load:
    "pc t = UpdateLoad m
     \<Longrightarrow> flow_step (f, w, t)
           (f, w, t\<lparr>pc := (if m > max_data f then UpdateCas m (max_data f) else Idle)\<rparr>)"
| update_ok:
    "\<lbrakk>pc t = UpdateCas m current; max_data f = current\<rbrakk>
     \<Longrightarrow> flow_step (f, w, t) (f\<lparr>max_data := m\<rparr>, w, t\<lparr>pc := CloseWake\<rparr>)"
| update_retry:
    "\<lbrakk>pc t = UpdateCas m current; max_data f \<noteq> current\<rbrakk>
     \<Longrightarrow> flow_step (f, w, t)
           (f, w, t\<lparr>pc := (if m > max_data f then UpdateCas m (max_data f) else Idle)\<rparr>)"
| close_store:
    "pc t = Idle \<Longrightarrow> flow_step (f, w, t) (f\<lparr>flow_closed := True\<rparr>, w, t\<lparr>pc := CloseWake\<rparr>)"
| wake:
    "pc t = CloseWake \<Longrightarrow> flow_step (f, w, t) (waker_wake f, w, t\<lparr>pc := Idle\<rparr>)"
| register:
    "pc t = Idle \<Longrightarrow> flow_step (f, w, t) (waker_register f, w, t)"

inductive_cases flow_stepE: "flow_step (f, w, t) (f', w', t')"

inductive flow_sys_step :: "flow_sys \<Rightarrow> flow_sys \<Rightarrow> bool" where
  thread_step:
    "\<lbrakk>i < length (threads s); flow_step (shared_flow s, on_wire s, threads s ! i) (f', w', t')\<rbrakk>
     \<Longrightarrow> flow_sys_step s \<lparr>shared_flow = f', on_wire = w', threads = (threads s)[i := t']\<rparr>"

definition flow_sys_init :: "flow_sys \<Rightarrow> bool" where
  "flow_sys_init s \<longleftrightarrow>
     (\<exists>m k. s = \<lparr>shared_flow = flow_new m, on_wire = 0, threads = replicate k \<lparr>pc = Idle, held = 0\<rparr>\<rparr>)"

section \<open>The invariant\<close>

definition total_held :: "flow_thread list \<Rightarrow> nat" where
  "total_held ts = sum_list (map held ts)"

fun pc_ok :: "u64 \<Rightarrow> flow_pc \<Rightarrow> bool" where
  "pc_ok mx (ReserveCas n sent grant) \<longleftrightarrow>
     unat sent + unat grant \<le> unat mx \<and> 0 < grant \<and> grant \<le> n"
| "pc_ok mx (ReserveLoadSent n) \<longleftrightarrow> n \<noteq> 0"
| "pc_ok mx (ReserveLoadMax n sent) \<longleftrightarrow> n \<noteq> 0"
| "pc_ok mx (UpdateCas m current) \<longleftrightarrow> current < m"
| "pc_ok mx _ \<longleftrightarrow> True"

definition flow_sys_inv :: "flow_sys \<Rightarrow> bool" where
  "flow_sys_inv s \<longleftrightarrow>
     unat (sent_data (shared_flow s)) = on_wire s + total_held (threads s)
     \<and> sent_data (shared_flow s) \<le> max_data (shared_flow s)
     \<and> (\<forall>t \<in> set (threads s). pc_ok (max_data (shared_flow s)) (pc t))"

lemma pc_ok_mono: "pc_ok m p \<Longrightarrow> m \<le> m' \<Longrightarrow> pc_ok m' p"
  by (cases p) (auto simp: word_le_nat_alt)

lemma total_held_update:
  "i < length ts \<Longrightarrow> total_held (ts[i := t]) + held (ts ! i) = total_held ts + held t"
  unfolding total_held_def
proof (induction ts arbitrary: i)
  case (Cons a ts)
  then show ?case by (cases i) (auto simp: add_ac)
qed simp

lemma held_le_total: "i < length ts \<Longrightarrow> held (ts ! i) \<le> total_held ts"
  unfolding total_held_def by (rule member_le_sum_list) auto

lemma min_pos_u64: "b < a \<Longrightarrow> n \<noteq> 0 \<Longrightarrow> 0 < min (a - b) (n :: u64)"
  by (auto simp: min_def word_gt_0)

text \<open>What one access does to the counters and to the accessing thread.\<close>

lemma flow_step_effect:
  assumes "flow_step (f, w, t) (f', w', t')"
    and "pc_ok (max_data f) (pc t)" and "sent_data f \<le> max_data f"
    and "held t \<le> unat (sent_data f)"
  shows "max_data f \<le> max_data f' \<and> sent_data f' \<le> max_data f' \<and> pc_ok (max_data f') (pc t')
     \<and> unat (sent_data f') + w + held t = unat (sent_data f) + w' + held t'"
  using assms(1)
proof cases
  case (reserve_load_max n sent)
  then have "unat sent + unat (min (max_data f - sent) n) \<le> unat (max_data f)"
    using unat_diff_le [of sent "max_data f"] by (simp add: unat_min word_less_nat_alt word_le_nat_alt)
  moreover have "0 < min (max_data f - sent) n"
    using reserve_load_max assms(2) by (intro min_pos_u64) auto
  ultimately show ?thesis using reserve_load_max assms by simp
next
  case (reserve_ok n sent grant)
  then have b: "unat sent + unat grant \<le> unat (max_data f)" using assms(2) by simp
  then have "unat (sent + grant) = unat sent + unat grant"
    using unat_u64_less [of "max_data f"] by (subst unat_add_no_wrap) linarith+
  with reserve_ok b show ?thesis by (simp add: word_le_nat_alt)
next
  case (release_step n)
  then have n: "unat (of_nat n :: u64) = n"
    using assms(4) unat_u64_less [of "sent_data f"] by (intro unat_of_nat_u64) linarith
  then have "unat (sent_data f - of_nat n) = unat (sent_data f) - n"
    using release_step assms(4) by (subst unat_diff_le) (auto simp: word_le_nat_alt)
  with release_step assms show ?thesis
    by (auto simp: release_def word_le_nat_alt)
qed (use assms in \<open>auto simp: waker_register_def\<close>)

lemma flow_sys_inv_step:
  assumes "flow_sys_inv s" and "flow_sys_step s s'"
  shows "flow_sys_inv s'"
  using assms(2)
proof cases
  case (thread_step i f' w' t')
  let ?t = "threads s ! i" and ?f = "shared_flow s"
  have inv: "unat (sent_data ?f) = on_wire s + total_held (threads s)" "sent_data ?f \<le> max_data ?f"
    "\<forall>t \<in> set (threads s). pc_ok (max_data ?f) (pc t)"
    using assms(1) by (auto simp: flow_sys_inv_def)
  have eff: "max_data ?f \<le> max_data f' \<and> sent_data f' \<le> max_data f' \<and> pc_ok (max_data f') (pc t')
     \<and> unat (sent_data f') + on_wire s + held ?t = unat (sent_data ?f) + w' + held t'"
    using thread_step inv held_le_total [OF thread_step(2)]
    by (intro flow_step_effect) auto
  have "\<forall>t \<in> set ((threads s)[i := t']). pc_ok (max_data f') (pc t)"
    using eff inv(3) set_update_subset_insert [of "threads s" i t'] by (auto intro: pc_ok_mono)
  with eff inv(1) total_held_update [OF thread_step(2), of t'] show ?thesis
    by (simp add: flow_sys_inv_def thread_step(1))
qed

lemma flow_sys_inv_init: "flow_sys_init s \<Longrightarrow> flow_sys_inv s"
  by (auto simp: flow_sys_init_def flow_sys_inv_def flow_new_def total_held_def sum_list_replicate)

interpretation flow_cas: invariant_system flow_sys_init flow_sys_step flow_sys_inv
  by unfold_locales (auto intro: flow_sys_inv_init flow_sys_inv_step)

section \<open>Properties\<close>

text \<open>
  C37: in every interleaving of any number of threads that reserve, release, transmit, raise the
  credit and close the flow, the counter \<open>sent_data\<close> is exactly the number of bytes on the wire plus
  the bytes threads hold, and it never exceeds the peer's credit \<open>max_data\<close>.
\<close>

theorem flow_cas_safe:
  assumes "reachable flow_sys_init flow_sys_step s"
  shows "on_wire s + total_held (threads s) = unat (sent_data (shared_flow s))
     \<and> on_wire s + total_held (threads s) \<le> unat (max_data (shared_flow s))"
  using flow_cas.reachable_inv [OF assms] by (simp add: flow_sys_inv_def word_le_nat_alt)

text \<open>A race: thread 0 reads the counter, thread 1 reserves 6 of 8 bytes, thread 0 must retry.\<close>

definition race_start :: flow_sys where
  "race_start = \<lparr>shared_flow = flow_new 8, on_wire = 0, threads = replicate 2 \<lparr>pc = Idle, held = 0\<rparr>\<rparr>"

definition race_end :: flow_sys where
  "race_end = \<lparr>shared_flow = (flow_new 8)\<lparr>sent_data := 6\<rparr>, on_wire = 0,
     threads = [\<lparr>pc = ReserveLoadSent 5, held = 0\<rparr>, \<lparr>pc = Idle, held = 6\<rparr>]\<rparr>"

lemma thread_stepI:
  assumes "flow_step (shared_flow s, on_wire s, threads s ! i) (shared_flow s', on_wire s', threads s' ! i)"
    and "i < length (threads s)" and "threads s' = (threads s)[i := threads s' ! i]"
  shows "flow_sys_step s s'"
  using thread_step [OF assms(2,1)] assms(3) by (cases s') simp

lemma race_reachable: "reachable flow_sys_init flow_sys_step race_end"
proof -
  let ?R = "reachable flow_sys_init flow_sys_step"
  let ?s = "\<lambda>f a b. \<lparr>shared_flow = f, on_wire = 0, threads = [a, b]\<rparr>"
  let ?t = "\<lambda>p h. \<lparr>pc = p, held = h\<rparr>"
  let ?f = "flow_new 8" and ?g = "(flow_new 8)\<lparr>sent_data := 6\<rparr>"
  note fs = flow_new_def min_def
  have "?R race_start" by (rule reachable_init) (auto simp: flow_sys_init_def race_start_def)
  then have "?R (?s ?f (?t Idle 0) (?t Idle 0))" by (simp add: race_start_def numeral_2_eq_2)
  then have "?R (?s ?f (?t (ReserveLoadSent 5) 0) (?t Idle 0))"
    by (rule reachable_step) (rule thread_stepI [where i = 0], simp_all add: flow_step.simps fs)
  then have "?R (?s ?f (?t (ReserveLoadMax 5 0) 0) (?t Idle 0))"
    by (rule reachable_step) (rule thread_stepI [where i = 0], simp_all add: flow_step.simps fs)
  then have "?R (?s ?f (?t (ReserveCas 5 0 5) 0) (?t Idle 0))"
    by (rule reachable_step) (rule thread_stepI [where i = 0], simp_all add: flow_step.simps fs)
  then have "?R (?s ?f (?t (ReserveCas 5 0 5) 0) (?t (ReserveLoadSent 6) 0))"
    by (rule reachable_step) (rule thread_stepI [where i = 1], simp_all add: flow_step.simps fs)
  then have "?R (?s ?f (?t (ReserveCas 5 0 5) 0) (?t (ReserveLoadMax 6 0) 0))"
    by (rule reachable_step) (rule thread_stepI [where i = 1], simp_all add: flow_step.simps fs)
  then have "?R (?s ?f (?t (ReserveCas 5 0 5) 0) (?t (ReserveCas 6 0 6) 0))"
    by (rule reachable_step) (rule thread_stepI [where i = 1], simp_all add: flow_step.simps fs)
  then have "?R (?s ?g (?t (ReserveCas 5 0 5) 0) (?t Idle 6))"
    by (rule reachable_step) (rule thread_stepI [where i = 1], simp_all add: flow_step.simps fs)
  then have "?R (?s ?g (?t (ReserveLoadSent 5) 0) (?t Idle 6))"
    by (rule reachable_step) (rule thread_stepI [where i = 0], simp_all add: flow_step.simps fs)
  then show ?thesis by (simp add: race_end_def)
qed

theorem flow_cas_safe_witness:
  "reachable flow_sys_init flow_sys_step race_end \<and> on_wire race_end + total_held (threads race_end) = 6
     \<and> unat (sent_data (shared_flow race_end)) = 6"
  using flow_cas_safe [OF race_reachable] race_reachable
  by (simp add: race_end_def total_held_def)

text \<open>
  A thread that runs \<open>try_reserve\<close> without interference reaches exactly the state and the grant
  of the atomic definition: the instruction-level machine refines it.
\<close>

lemma try_reserve_solo:
  assumes "n < 2 ^ 64"
  shows "flow_step\<^sup>*\<^sup>* (f, w, \<lparr>pc = Idle, held = h\<rparr>)
           (snd (try_reserve n f), w, \<lparr>pc = Idle, held = h + fst (try_reserve n f)\<rparr>)"
proof -
  let ?t = "\<lambda>p h. \<lparr>pc = p, held = h\<rparr>" and ?n = "of_nat n :: u64"
  have start: "n \<noteq> 0 \<Longrightarrow> \<not> flow_closed f \<Longrightarrow> flow_step (f, w, ?t Idle h) (f, w, ?t (ReserveLoadSent ?n) h)"
    using reserve_start [of "?t Idle h" ?n f w] assms unat_of_nat_u64 [OF assms] by force
  have load: "flow_step (f, w, ?t (ReserveLoadSent ?n) h) (f, w, ?t (ReserveLoadMax ?n (sent_data f)) h)"
    using reserve_load_sent [of "?t (ReserveLoadSent ?n) h" ?n f w] by simp
  have none: "max_data f \<le> sent_data f \<Longrightarrow>
      flow_step (f, w, ?t (ReserveLoadMax ?n (sent_data f)) h) (f, w, ?t Idle h)"
    using reserve_none [of "?t (ReserveLoadMax ?n (sent_data f)) h" ?n "sent_data f" f w] by simp
  let ?g = "min (max_data f - sent_data f) ?n"
  have some: "\<not> max_data f \<le> sent_data f \<Longrightarrow>
      flow_step (f, w, ?t (ReserveLoadMax ?n (sent_data f)) h) (f, w, ?t (ReserveCas ?n (sent_data f) ?g) h)"
    using reserve_load_max [of "?t (ReserveLoadMax ?n (sent_data f)) h" ?n "sent_data f" f w] by simp
  have cas: "flow_step (f, w, ?t (ReserveCas ?n (sent_data f) ?g) h)
      (f\<lparr>sent_data := sent_data f + ?g\<rparr>, w, ?t Idle (h + unat ?g))"
    using reserve_ok [of "?t (ReserveCas ?n (sent_data f) ?g) h" ?n "sent_data f" ?g f w] by simp
  show ?thesis
    using start load none some cas
    by (auto simp: try_reserve_def Let_def intro: converse_rtranclp_into_rtranclp)
qed

lemma try_reserve_solo_witness:
  "flow_step\<^sup>*\<^sup>* (flow_new 8, 0, \<lparr>pc = Idle, held = 0\<rparr>)
     ((flow_new 8)\<lparr>sent_data := 5\<rparr>, 0, \<lparr>pc = Idle, held = 5\<rparr>)"
  using try_reserve_solo [of 5 "flow_new 8" 0 0]
  by (simp add: try_reserve_def flow_new_def Let_def min_def)

end
