(* ===== verification/Session_State.thy ===== *)
theory Session_State
  imports Send_Flow
begin

text \<open>
  The state of \<open>SessionInner\<close> (\<open>websock-tungstenite-mux/src/session.rs\<close>) and of the objects it
  shares with stream handles, and the primitive operations every handler and API call is built
  from. Objects behind an \<open>Arc\<close> (send flows, receive channels, the shared part of a send handle,
  one-shot acknowledgements) live in memories indexed by a reference; \<open>next_ref\<close> is the next unused
  one. A \<open>HashMap\<close> is an \<open>hmap\<close>; a bounded channel is its queue and whether its receiver lives.

  The code between two suspension points of an asynchronous function is one atomic transition. A
  free slot of a bounded channel belongs to whoever is polled next.
\<close>

section \<open>Objects\<close>

datatype recv_event = RecvEvent (ev_data: bytes) (ev_fin: bool)

text \<open>
  A receive channel with its queue, whether the \<open>RecvStream\<close> still holds the receiver, and the
  advertised limit \<open>max_data\<close> that \<open>RecvState\<close> and \<open>RecvStream\<close> share; the three are created together.
\<close>

record recv_chan =
  items :: "recv_event list"
  rx_open :: bool
  chan_max :: u64

record recv_state =
  stopped :: bool
  sender :: nat
  received :: u64

record recv_stream =
  rv_id :: stream_id
  receiver :: nat
  rv_finished :: bool
  rv_pending :: bytes
  consumed :: u64
  granted :: u64
  initial_window :: u64
  update_threshold :: u64
  stop_sent :: bool

text \<open>What the clones of a \<open>SendStream\<close> share; \<open>handles\<close> is the strong count of \<open>finished\<close>.\<close>

record send_shared =
  ss_finished :: bool
  operation :: bool
  api_mode :: u64
  handles :: nat

record send_stream =
  ss_id :: stream_id
  ss_shared :: nat
  ss_flow :: nat
  flush_waiter :: "nat option"
  fin_queued :: bool

text \<open>A one-shot acknowledgement channel seen from its receiver.\<close>

datatype ack = AckPending | AckSent "error + unit" | AckDropped

datatype ws_message =
    WsText string | WsBinary bytes | WsPing bytes | WsPong bytes
  | WsClose "(u16 \<times> string) option" | WsRawFrame bytes

datatype outbound_cmd =
    FrameCmd frame
  | WsCmd ws_message
  | FlushCmd nat
  | ShutdownCmd nat

record session =
  is_server :: bool
  limits_of :: limits
  outbound :: "outbound_cmd list"
  outbound_rx :: bool
  pending_credit :: "(stream_id, u64) hmap"
  credit_notify :: bool
  accept_uni_tx :: bool
  accept_bi_tx :: bool
  streams :: "(stream_id, recv_state) hmap"
  send_flows :: "(stream_id, nat) hmap"
  next_uni :: u64
  next_bi :: u64
  next_peer_uni :: u64
  next_peer_bi :: u64
  closed :: bool
  shutdown_started :: bool
  peer_closed :: bool
  peer_close_notify :: bool
  session_handles :: nat
  active_tasks :: nat
  cancelled :: bool
  accept_rx :: bool
  accept_uni_queue :: "recv_stream list"
  accept_bi_queue :: "(send_stream \<times> recv_stream) list"
  flow_mem :: "nat \<Rightarrow> send_flow"
  chan_mem :: "nat \<Rightarrow> recv_chan"
  shared_mem :: "nat \<Rightarrow> send_shared"
  ack_mem :: "nat \<Rightarrow> ack"
  next_ref :: nat

definition session_inner_new :: "bool \<Rightarrow> limits \<Rightarrow> session" where
  "session_inner_new server l = \<lparr>
     is_server = server, limits_of = l, outbound = [], outbound_rx = True,
     pending_credit = [], credit_notify = False, accept_uni_tx = True, accept_bi_tx = True,
     streams = [], send_flows = [],
     next_uni = 0, next_bi = 0, next_peer_uni = 0, next_peer_bi = 0,
     closed = False, shutdown_started = False, peer_closed = False, peer_close_notify = False,
     session_handles = 1, active_tasks = 2, cancelled = False,
     accept_rx = True, accept_uni_queue = [], accept_bi_queue = [],
     flow_mem = (\<lambda>_. flow_new 0),
     chan_mem = (\<lambda>_. \<lparr>items = [], rx_open = False, chan_max = 0\<rparr>),
     shared_mem = (\<lambda>_. \<lparr>ss_finished = False, operation = False, api_mode = 0, handles = 0\<rparr>),
     ack_mem = (\<lambda>_. AckPending), next_ref = 0\<rparr>"

section \<open>Closing\<close>

definition session_is_closed :: "session \<Rightarrow> bool" where
  "session_is_closed s \<longleftrightarrow> closed s \<or> shutdown_started s"

definition request_shutdown :: "session \<Rightarrow> session" where
  "request_shutdown s = s\<lparr>shutdown_started := True, cancelled := True\<rparr>"

definition close_flows :: "(stream_id, nat) hmap \<Rightarrow> (nat \<Rightarrow> send_flow) \<Rightarrow> nat \<Rightarrow> send_flow" where
  "close_flows fs mem = fold (\<lambda>(_, r) m. m(r := flow_close (m r))) fs mem"

definition close_all :: "session \<Rightarrow> session" where
  "close_all s =
     (if closed s then s
      else s\<lparr>closed := True, pending_credit := [], accept_uni_tx := False, accept_bi_tx := False,
             streams := [], flow_mem := close_flows (send_flows s) (flow_mem s), send_flows := []\<rparr>)"

section \<open>Sending\<close>

text \<open>\<open>try_send\<close> of the bounded outbound channel: it fails when the receiver is gone or no slot is free.\<close>

definition outbound_full :: "session \<Rightarrow> bool" where
  "outbound_full s \<longleftrightarrow> outbound_queue_len (limits_of s) \<le> length (outbound s)"

definition outbound_push :: "outbound_cmd \<Rightarrow> session \<Rightarrow> session" where
  "outbound_push c s = s\<lparr>outbound := outbound s @ [c]\<rparr>"

definition outbound_try_send :: "outbound_cmd \<Rightarrow> session \<Rightarrow> (unit + unit) \<times> session" where
  "outbound_try_send c s =
     (if \<not> outbound_rx s \<or> outbound_full s then (Inl (), s) else (Inr (), outbound_push c s))"

definition try_send_frame :: "frame \<Rightarrow> session \<Rightarrow> (error + unit) \<times> session" where
  "try_send_frame f s =
     (if session_is_closed s then (Inl Closed, s)
      else case outbound_try_send (FrameCmd f) s of
        (Inl _, s') \<Rightarrow> (Inl Closed, s') | (Inr _, s') \<Rightarrow> (Inr (), s'))"

text \<open>
  \<open>reserve().await\<close> and what follows it in \<open>send_frame\<close>: the part that a suspended call repeats when
  it is polled again.
\<close>

definition send_frame_resume :: "frame \<Rightarrow> session \<Rightarrow> (error + unit) poll \<times> session" where
  "send_frame_resume f s =
     (if \<not> outbound_rx s then (Ready (Inl Closed), s)
      else if outbound_full s then (Pending, s)
      else case f of
        Stream i _ _ \<Rightarrow>
          (if \<not> hm_contains i (send_flows s) then (Ready (Inl Closed), s)
           else (Ready (Inr ()), outbound_push (FrameCmd f) s))
      | _ \<Rightarrow> (Ready (Inr ()), outbound_push (FrameCmd f) s))"

definition send_frame :: "frame \<Rightarrow> session \<Rightarrow> (error + unit) poll \<times> session" where
  "send_frame f s =
     (if session_is_closed s then (Ready (Inl Closed), s) else send_frame_resume f s)"

text \<open>An \<open>await\<close> on a send: suspend at \<open>k\<close>, or go on with the outcome.\<close>

definition await_at :: "'k \<Rightarrow> 'a poll \<times> session \<Rightarrow> ('k, 'a) async \<times> session" where
  "await_at k r = (case r of (Pending, s) \<Rightarrow> (Awaiting k, s) | (Ready x, s) \<Rightarrow> (Finished x, s))"

definition protocol_error :: "u64 \<Rightarrow> string \<Rightarrow> session \<Rightarrow> (error + unit) \<times> session" where
  "protocol_error code reason s =
     (Inl (Protocol reason), close_all (snd (try_send_frame (ConnectionClose code reason) s)))"

section \<open>Stream identifiers\<close>

definition peer_is_server :: "session \<Rightarrow> bool" where
  "peer_is_server s \<longleftrightarrow> \<not> is_server s"

text \<open>\<open>fetch_add\<close> returns the old counter and wraps around at \<open>2 ^ 64\<close>.\<close>

definition next_stream_id :: "stream_dir \<Rightarrow> session \<Rightarrow> (error + stream_id) \<times> session" where
  "next_stream_id dir s =
     (let (counter, s') = (case dir of
            Uni \<Rightarrow> (next_uni s, s\<lparr>next_uni := next_uni s + 1\<rparr>)
          | Bi \<Rightarrow> (next_bi s, s\<lparr>next_bi := next_bi s + 1\<rparr>))
      in case stream_id_new counter (is_server s) dir of
           Inl VarIntBoundsExceeded \<Rightarrow> (Inl (StreamIdError ''value too large for varint encoding''), s')
         | Inr i \<Rightarrow> (Inr i, s'))"

definition validate_peer_stream_id :: "stream_id \<Rightarrow> session \<Rightarrow> bool \<times> session" where
  "validate_peer_stream_id i s = (case stream_id_dir i of
     Uni \<Rightarrow> (if stream_id_counter i < next_peer_uni s then (False, s)
             else (True, s\<lparr>next_peer_uni := saturating_add (stream_id_counter i) 1\<rparr>))
   | Bi \<Rightarrow> (if stream_id_counter i < next_peer_bi s then (False, s)
            else (True, s\<lparr>next_peer_bi := saturating_add (stream_id_counter i) 1\<rparr>)))"

definition is_retired_direction :: "stream_id \<Rightarrow> bool \<Rightarrow> session \<Rightarrow> bool" where
  "is_retired_direction i receiving s =
     (let local = (initiator_is_server i = is_server s) in
      if stream_id_dir i = Uni \<and> local = receiving then False
      else let next = (case (local, stream_id_dir i) of
                  (True, Uni) \<Rightarrow> next_uni s | (True, Bi) \<Rightarrow> next_bi s
                | (False, Uni) \<Rightarrow> next_peer_uni s | (False, Bi) \<Rightarrow> next_peer_bi s)
           in stream_id_counter i < next)"

section \<open>Send directions\<close>

definition flow_update :: "nat \<Rightarrow> (send_flow \<Rightarrow> send_flow) \<Rightarrow> session \<Rightarrow> session" where
  "flow_update r g s = s\<lparr>flow_mem := (flow_mem s)(r := g (flow_mem s r))\<rparr>"

definition register_send_flow :: "stream_id \<Rightarrow> u64 \<Rightarrow> session \<Rightarrow> (error + nat) \<times> session" where
  "register_send_flow i initial_max s =
     (if max_open_streams (limits_of s) \<le> length (send_flows s) then
        (Inl (Protocol ''too many open send streams''), s)
      else if hm_contains i (send_flows s) then (Inl (Protocol ''duplicate send stream''), s)
      else let r = next_ref s in
        (Inr r, s\<lparr>flow_mem := (flow_mem s)(r := flow_new initial_max), next_ref := Suc r,
                  send_flows := hm_insert i r (send_flows s)\<rparr>))"

definition remove_send_flow :: "stream_id \<Rightarrow> session \<Rightarrow> bool \<times> session" where
  "remove_send_flow i s = (case hm_get (send_flows s) i of
     None \<Rightarrow> (False, s)
   | Some r \<Rightarrow> (True, flow_update r flow_close (s\<lparr>send_flows := hm_remove i (send_flows s)\<rparr>)))"

text \<open>\<open>SendStream::new\<close> allocates the cells its clones share.\<close>

definition send_stream_new :: "stream_id \<Rightarrow> nat \<Rightarrow> session \<Rightarrow> send_stream \<times> session" where
  "send_stream_new i flow s =
     (let r = next_ref s in
      (\<lparr>ss_id = i, ss_shared = r, ss_flow = flow, flush_waiter = None, fin_queued = False\<rparr>,
       s\<lparr>shared_mem := (shared_mem s)
            (r := \<lparr>ss_finished = False, operation = False, api_mode = 0, handles = 1\<rparr>),
         next_ref := Suc r\<rparr>))"

definition shared_update :: "nat \<Rightarrow> (send_shared \<Rightarrow> send_shared) \<Rightarrow> session \<Rightarrow> session" where
  "shared_update r g s = s\<lparr>shared_mem := (shared_mem s)(r := g (shared_mem s r))\<rparr>"

definition send_stream_drop :: "send_stream \<Rightarrow> session \<Rightarrow> session" where
  "send_stream_drop ss s =
     (let sh = shared_mem s (ss_shared ss);
          gone = shared_update (ss_shared ss) (\<lambda>c. c\<lparr>handles := handles c - 1\<rparr>)
      in if handles sh \<noteq> 1 then gone s
         else let s1 = snd (remove_send_flow (ss_id ss) s) in
           gone (if ss_finished sh then s1
                 else case try_send_frame (ResetStream (ss_id ss) 0) s1 of
                   (Inl _, s2) \<Rightarrow> request_shutdown s2 | (Inr _, s2) \<Rightarrow> s2))"

section \<open>Receive directions\<close>

definition chan_update :: "nat \<Rightarrow> (recv_chan \<Rightarrow> recv_chan) \<Rightarrow> session \<Rightarrow> session" where
  "chan_update r g s = s\<lparr>chan_mem := (chan_mem s)(r := g (chan_mem s r))\<rparr>"

definition recv_stream_new :: "stream_id \<Rightarrow> nat \<Rightarrow> u64 \<Rightarrow> u64 \<Rightarrow> recv_stream" where
  "recv_stream_new i chan window threshold =
     \<lparr>rv_id = i, receiver = chan, rv_finished = False, rv_pending = [], consumed = 0,
      granted = window, initial_window = window, update_threshold = threshold, stop_sent = False\<rparr>"

text \<open>
  The channel, the map entry and the handle that both registrations create; the limit starts at the
  initial window.
\<close>

definition register_recv_stream :: "stream_id \<Rightarrow> session \<Rightarrow> recv_stream \<times> session" where
  "register_recv_stream i s =
     (let r = next_ref s; window = of_nat (initial_stream_window (limits_of s)) in
      (recv_stream_new i r window (of_nat (stream_window_update_threshold (limits_of s))),
       s\<lparr>chan_mem := (chan_mem s)(r := \<lparr>items = [], rx_open = True, chan_max = window\<rparr>),
         next_ref := Suc r,
         streams := hm_insert i \<lparr>stopped = False, sender = r, received = 0\<rparr> (streams s)\<rparr>))"

definition remove_recv_stream :: "stream_id \<Rightarrow> session \<Rightarrow> bool \<times> session" where
  "remove_recv_stream i s =
     (hm_contains i (streams s), s\<lparr>streams := hm_remove i (streams s)\<rparr>)"

definition stop_recv_stream :: "stream_id \<Rightarrow> session \<Rightarrow> bool \<times> session" where
  "stop_recv_stream i s = (case hm_get (streams s) i of
     None \<Rightarrow> (False, s)
   | Some st \<Rightarrow> (True, s\<lparr>streams := hm_insert i (st\<lparr>stopped := True\<rparr>) (streams s),
                        pending_credit := hm_remove i (pending_credit s)\<rparr>))"

text \<open>\<open>Drop for RecvStream\<close>, after which its receiver is dropped and the channel drained.\<close>

definition recv_stream_drop :: "recv_stream \<Rightarrow> session \<Rightarrow> session" where
  "recv_stream_drop rv s =
     (let (needs_stop, s1) = stop_recv_stream (rv_id rv) s;
          s2 = (if needs_stop \<and> \<not> rv_finished rv \<and> \<not> stop_sent rv then
                  (case try_send_frame (StopSending (rv_id rv) 0) s1 of
                     (Inl _, s') \<Rightarrow> request_shutdown s' | (Inr _, s') \<Rightarrow> s')
                else s1)
      in chan_update (receiver rv) (\<lambda>c. c\<lparr>items := [], rx_open := False\<rparr>) s2)"

text \<open>The sender of a channel lives in the map entry of its stream.\<close>

definition sender_alive :: "nat \<Rightarrow> session \<Rightarrow> bool" where
  "sender_alive r s \<longleftrightarrow> (\<exists>e \<in> set (streams s). sender (snd e) = r)"

section \<open>Receive credit\<close>

definition queue_credit :: "stream_id \<Rightarrow> u64 \<Rightarrow> session \<Rightarrow> session" where
  "queue_credit i maximum s =
     (if (case hm_get (streams s) i of None \<Rightarrow> True | Some st \<Rightarrow> stopped st) then s
      else let cap = max_open_streams (limits_of s);
               pending = (if cap \<le> length (pending_credit s)
                          then hm_retain (\<lambda>k. hm_contains k (streams s)) (pending_credit s)
                          else pending_credit s)
           in if cap \<le> length pending \<and> \<not> hm_contains i pending
              then request_shutdown (s\<lparr>pending_credit := pending\<rparr>)
              else let m = (case hm_get pending i of None \<Rightarrow> maximum | Some old \<Rightarrow> max old maximum)
                   in s\<lparr>pending_credit := hm_insert i m pending, credit_notify := True\<rparr>)"

text \<open>
  One poll of \<open>next_credit\<close>. Which key \<open>keys().next()\<close> yields is unspecified; \<open>k\<close> stands for that choice
  and is used when it is a key of the map, otherwise the first entry is taken. A poll that finds the
  map empty consumes a stored notification and suspends.
\<close>

definition next_credit :: "stream_id \<Rightarrow> session \<Rightarrow> frame poll \<times> session" where
  "next_credit k s = (case pending_credit s of
     [] \<Rightarrow> (Pending, s\<lparr>credit_notify := False\<rparr>)
   | (k0, m0) # _ \<Rightarrow>
       (let (i, m) = (case hm_get (pending_credit s) k of Some m \<Rightarrow> (k, m) | None \<Rightarrow> (k0, m0))
        in (Ready (MaxStreamData i m), s\<lparr>pending_credit := hm_remove i (pending_credit s)\<rparr>)))"

end
