(* ===== verification/Session_Frames.thy ===== *)
theory Session_Frames
  imports Session_State
begin

text \<open>
  \<open>SessionInner::handle_frame\<close> and the registration of peer-opened streams. A call that must wait for
  a slot of the outbound queue is \<open>Awaiting\<close> the point it resumes from; \<open>handle_frame_resume\<close> polls it
  again and \<open>handle_frame_cancel\<close> drops it, as the inbound task does when the session is cancelled.
\<close>

section \<open>Registration of a peer's stream\<close>

definition initial_credit_frame :: "stream_id \<Rightarrow> session \<Rightarrow> frame" where
  "initial_credit_frame i s = MaxStreamData i (of_nat (initial_stream_window (limits_of s)))"

text \<open>
  What follows the \<open>send_frame\<close> of the initial credit: on an error the new \<open>RecvStream\<close> is dropped
  before the caller sees the failure.
\<close>

definition initial_credit_result ::
  "recv_stream \<Rightarrow> (error + unit) poll \<times> session
     \<Rightarrow> (recv_stream, (u64 \<times> string) + recv_stream) async \<times> session" where
  "initial_credit_result recv r = (case r of
     (Pending, s) \<Rightarrow> (Awaiting recv, s)
   | (Ready (Inl _), s) \<Rightarrow>
       (Finished (Inl (2, ''failed to send initial stream credit'')), recv_stream_drop recv s)
   | (Ready (Inr _), s) \<Rightarrow> (Finished (Inr recv), s))"

definition try_register_inbound_recv_stream ::
  "stream_id \<Rightarrow> session \<Rightarrow> (recv_stream, (u64 \<times> string) + recv_stream) async \<times> session" where
  "try_register_inbound_recv_stream i s =
     (if max_open_streams (limits_of s) \<le> length (streams s) then
        (Finished (Inl (3, ''too many open streams'')), s)
      else if hm_contains i (streams s) then (Finished (Inl (1, ''duplicate stream open'')), s)
      else let (recv, s1) = register_recv_stream i s
           in initial_credit_result recv (send_frame (initial_credit_frame i s1) s1))"

section \<open>Accept queues\<close>

definition deliver_uni :: "recv_stream \<Rightarrow> session \<Rightarrow> (error + unit) \<times> session" where
  "deliver_uni recv s =
     (if \<not> accept_uni_tx s \<or> \<not> accept_rx s then (Inl Closed, recv_stream_drop recv s)
      else if accept_uni_queue_len (limits_of s) \<le> length (accept_uni_queue s) then
        (let (r, s1) = protocol_error 3 ''accept queue full'' s in (r, recv_stream_drop recv s1))
      else (Inr (), s\<lparr>accept_uni_queue := accept_uni_queue s @ [recv]\<rparr>))"

text \<open>Dropping the pair drops the send half first.\<close>

definition drop_pair :: "send_stream \<Rightarrow> recv_stream \<Rightarrow> session \<Rightarrow> session" where
  "drop_pair ss recv s = recv_stream_drop recv (send_stream_drop ss s)"

definition deliver_bi :: "send_stream \<Rightarrow> recv_stream \<Rightarrow> session \<Rightarrow> (error + unit) \<times> session" where
  "deliver_bi ss recv s =
     (if \<not> accept_bi_tx s \<or> \<not> accept_rx s then (Inl Closed, drop_pair ss recv s)
      else if accept_bi_queue_len (limits_of s) \<le> length (accept_bi_queue s) then
        (let (r, s1) = protocol_error 3 ''accept queue full'' s in (r, drop_pair ss recv s1))
      else (Inr (), s\<lparr>accept_bi_queue := accept_bi_queue s @ [(ss, recv)]\<rparr>))"

section \<open>The frames\<close>

datatype hf_await =
    AwaitUniCredit recv_stream
  | AwaitBiCredit recv_stream
  | AwaitStopReset stream_id u64

text \<open>The rest of the \<open>OpenUni\<close> and \<open>OpenBi\<close> branches once registration has an outcome.\<close>

definition open_uni_registered ::
  "(recv_stream, (u64 \<times> string) + recv_stream) async \<times> session
     \<Rightarrow> (hf_await, error + unit) async \<times> session" where
  "open_uni_registered r = (case r of
     (Awaiting recv, s) \<Rightarrow> (Awaiting (AwaitUniCredit recv), s)
   | (Finished (Inl (code, reason)), s) \<Rightarrow> apfst Finished (protocol_error code reason s)
   | (Finished (Inr recv), s) \<Rightarrow> apfst Finished (deliver_uni recv s))"

definition open_bi_registered ::
  "(recv_stream, (u64 \<times> string) + recv_stream) async \<times> session
     \<Rightarrow> (hf_await, error + unit) async \<times> session" where
  "open_bi_registered r = (case r of
     (Awaiting recv, s) \<Rightarrow> (Awaiting (AwaitBiCredit recv), s)
   | (Finished (Inl (code, reason)), s) \<Rightarrow> apfst Finished (protocol_error code reason s)
   | (Finished (Inr recv), s) \<Rightarrow>
       (case register_send_flow (rv_id recv) 0 s of
          (Inl err, s1) \<Rightarrow>
            (let (e, s2) = protocol_error 3 (error_to_string err) s1
             in (Finished e, recv_stream_drop recv s2))
        | (Inr flow, s1) \<Rightarrow>
            (let (ss, s2) = send_stream_new (rv_id recv) flow s1
             in apfst Finished (deliver_bi ss recv s2))))"

definition handle_open_uni :: "stream_id \<Rightarrow> session \<Rightarrow> (hf_await, error + unit) async \<times> session" where
  "handle_open_uni i s =
     (if stream_id_dir i \<noteq> Uni then
        apfst Finished (protocol_error 1 ''OpenUni with non-uni StreamId'' s)
      else if initiator_is_server i \<noteq> peer_is_server s then
        apfst Finished (protocol_error 1 ''OpenUni with wrong initiator'' s)
      else case validate_peer_stream_id i s of
        (False, s1) \<Rightarrow> apfst Finished (protocol_error 1 ''OpenUni with non-monotonic StreamId'' s1)
      | (True, s1) \<Rightarrow> open_uni_registered (try_register_inbound_recv_stream i s1))"

definition handle_open_bi :: "stream_id \<Rightarrow> session \<Rightarrow> (hf_await, error + unit) async \<times> session" where
  "handle_open_bi i s =
     (if stream_id_dir i \<noteq> Bi then
        apfst Finished (protocol_error 1 ''OpenBi with non-bi StreamId'' s)
      else if initiator_is_server i \<noteq> peer_is_server s then
        apfst Finished (protocol_error 1 ''OpenBi with wrong initiator'' s)
      else case validate_peer_stream_id i s of
        (False, s1) \<Rightarrow> apfst Finished (protocol_error 1 ''OpenBi with non-monotonic StreamId'' s1)
      | (True, s1) \<Rightarrow> open_bi_registered (try_register_inbound_recv_stream i s1))"

definition handle_stream :: "stream_id \<Rightarrow> bytes \<Rightarrow> bool \<Rightarrow> session \<Rightarrow> (error + unit) \<times> session" where
  "handle_stream i d fin s =
     (if max_stream_data_per_frame (limits_of s) < length d then
        protocol_error 2 ''stream data too large'' s
      else case hm_get (streams s) i of
        None \<Rightarrow> protocol_error 2 ''Stream data on unknown stream'' s
      | Some st \<Rightarrow>
          (case checked_add (received st) (of_nat (length d)) of
             None \<Rightarrow> protocol_error 2 ''stream data overflow'' s
           | Some rcvd \<Rightarrow>
               if chan_max (chan_mem s (sender st)) < rcvd then
                 protocol_error 2 ''stream flow-control limit exceeded'' s
               else
                 let s1 = s\<lparr>streams := hm_insert i (st\<lparr>received := rcvd\<rparr>) (streams s)\<rparr>;
                     retire = (\<lambda>s'. if fin then snd (remove_recv_stream i s') else s');
                     chan = chan_mem s (sender st)
                 in if stopped st \<or> \<not> rx_open chan then (Inr (), retire s1)
                    else if recv_event_queue_len (limits_of s) \<le> length (items chan) then
                      protocol_error 3 ''receive queue full'' s1
                    else (Inr (), retire (chan_update (sender st)
                            (\<lambda>c. c\<lparr>items := items c @ [RecvEvent d fin]\<rparr>) s1))))"

definition handle_reset :: "stream_id \<Rightarrow> session \<Rightarrow> (error + unit) \<times> session" where
  "handle_reset i s =
     (let (removed, s1) = remove_recv_stream i s in
      if \<not> removed \<and> \<not> is_retired_direction i True s1
      then protocol_error 1 ''reset on unknown stream'' s1 else (Inr (), s1))"

definition handle_stop :: "stream_id \<Rightarrow> u64 \<Rightarrow> session \<Rightarrow> (hf_await, error + unit) async \<times> session" where
  "handle_stop i code s = (case remove_send_flow i s of
     (True, s1) \<Rightarrow> await_at (AwaitStopReset i code) (send_frame (ResetStream i code) s1)
   | (False, s1) \<Rightarrow>
       if \<not> is_retired_direction i False s1
       then apfst Finished (protocol_error 1 ''stop on unknown stream'' s1)
       else (Finished (Inr ()), s1))"

definition handle_max_data :: "stream_id \<Rightarrow> u64 \<Rightarrow> session \<Rightarrow> session" where
  "handle_max_data i m s = (case hm_get (send_flows s) i of
     None \<Rightarrow> s | Some r \<Rightarrow> flow_update r (update_max m) s)"

fun handle_frame :: "frame \<Rightarrow> session \<Rightarrow> (hf_await, error + unit) async \<times> session" where
  "handle_frame (OpenUni i) s = handle_open_uni i s"
| "handle_frame (OpenBi i) s = handle_open_bi i s"
| "handle_frame (Stream i d fin) s = apfst Finished (handle_stream i d fin s)"
| "handle_frame (ResetStream i _) s = apfst Finished (handle_reset i s)"
| "handle_frame (StopSending i code) s = handle_stop i code s"
| "handle_frame (MaxStreamData i m) s = (Finished (Inr ()), handle_max_data i m s)"
| "handle_frame (ConnectionClose _ _) s = (Finished (Inl Closed), close_all s)"

fun handle_frame_resume :: "hf_await \<Rightarrow> session \<Rightarrow> (hf_await, error + unit) async \<times> session" where
  "handle_frame_resume (AwaitUniCredit recv) s =
     open_uni_registered (initial_credit_result recv
       (send_frame_resume (initial_credit_frame (rv_id recv) s) s))"
| "handle_frame_resume (AwaitBiCredit recv) s =
     open_bi_registered (initial_credit_result recv
       (send_frame_resume (initial_credit_frame (rv_id recv) s) s))"
| "handle_frame_resume (AwaitStopReset i code) s =
     await_at (AwaitStopReset i code) (send_frame_resume (ResetStream i code) s)"

fun handle_frame_cancel :: "hf_await \<Rightarrow> session \<Rightarrow> session" where
  "handle_frame_cancel (AwaitUniCredit recv) s = recv_stream_drop recv s"
| "handle_frame_cancel (AwaitBiCredit recv) s = recv_stream_drop recv s"
| "handle_frame_cancel (AwaitStopReset i code) s = s"

end
