(* ===== verification/Recv_Stream.thy ===== *)
theory Recv_Stream
  imports Session_State
begin

text \<open>
  The receive handle: \<open>RecvStream\<close> with its direct and \<open>AsyncRead\<close> interfaces. A read that finds no
  event suspends without having changed the handle, so polling it again is calling it again. Reads
  return the bytes they copied into the caller's buffer; \<open>None\<close> is the end of the stream.
\<close>

section \<open>Consuming\<close>

text \<open>One poll of the event channel: an event, or the end once the sender is dropped.\<close>

definition chan_recv :: "nat \<Rightarrow> session \<Rightarrow> recv_event option poll \<times> session" where
  "chan_recv r s = (case items (chan_mem s r) of
     e # es \<Rightarrow> (Ready (Some e), chan_update r (\<lambda>c. c\<lparr>items := es\<rparr>) s)
   | [] \<Rightarrow> (if sender_alive r s then Pending else Ready None, s))"

definition on_bytes_consumed :: "nat \<Rightarrow> recv_stream \<Rightarrow> session \<Rightarrow> recv_stream \<times> session" where
  "on_bytes_consumed n rv s =
     (if n = 0 then (rv, s)
      else let rv1 = rv\<lparr>consumed := saturating_add (consumed rv) (of_nat n)\<rparr>;
               target = min (saturating_add (consumed rv1) (initial_window rv1))
                            (into_inner varint_MAX)
           in if target \<le> granted rv1 then (rv1, s)
              else if target - granted rv1 < update_threshold rv1 then (rv1, s)
              else if rv_finished rv1 \<or> stop_sent rv1 then (rv1, s)
              else (rv1\<lparr>granted := target\<rparr>,
                    queue_credit (rv_id rv1) target
                      (chan_update (receiver rv1) (\<lambda>c. c\<lparr>chan_max := target\<rparr>) s)))"

definition read_chunk_internal ::
  "recv_stream \<Rightarrow> session \<Rightarrow> (error + bytes option) poll \<times> recv_stream \<times> session" where
  "read_chunk_internal rv s = (case chan_recv (receiver rv) s of
     (Pending, s1) \<Rightarrow> (Pending, rv, s1)
   | (Ready None, s1) \<Rightarrow> (Ready (Inr None), rv\<lparr>rv_finished := True\<rparr>, s1)
   | (Ready (Some e), s1) \<Rightarrow>
       (let rv1 = (if ev_fin e then rv\<lparr>rv_finished := True\<rparr> else rv) in
        if ev_data e = [] \<and> ev_fin e then (Ready (Inr None), rv1, s1)
        else (Ready (Inr (Some (ev_data e))), rv1, s1)))"

text \<open>The copy out of \<open>pending\<close> that ends every successful read.\<close>

definition take_pending ::
  "nat \<Rightarrow> recv_stream \<Rightarrow> session \<Rightarrow> bytes \<times> recv_stream \<times> session" where
  "take_pending n rv s =
     (let amt = min n (length (rv_pending rv)); out = take amt (rv_pending rv);
          (rv1, s1) = on_bytes_consumed amt (rv\<lparr>rv_pending := drop amt (rv_pending rv)\<rparr>) s
      in (out, rv1, s1))"

definition recv_read ::
  "nat \<Rightarrow> recv_stream \<Rightarrow> session \<Rightarrow> (error + bytes option) poll \<times> recv_stream \<times> session" where
  "recv_read n rv s =
     (if n = 0 then (Ready (Inr (Some [])), rv, s)
      else if rv_pending rv \<noteq> [] then
        (let (out, r) = take_pending n rv s in (Ready (Inr (Some out)), r))
      else if rv_finished rv then (Ready (Inr None), rv, s)
      else case read_chunk_internal rv s of
        (Ready (Inr (Some chunk)), rv1, s1) \<Rightarrow>
          (let (out, r) = take_pending n (rv1\<lparr>rv_pending := chunk\<rparr>) s1 in (Ready (Inr (Some out)), r))
      | other \<Rightarrow> other)"

text \<open>\<open>read_buf\<close> differs from \<open>read\<close> in the kind of buffer only; \<open>n\<close> is \<open>remaining_mut()\<close>.\<close>

definition recv_read_buf ::
  "nat \<Rightarrow> recv_stream \<Rightarrow> session \<Rightarrow> (error + bytes option) poll \<times> recv_stream \<times> session" where
  "recv_read_buf n rv s =
     (if n = 0 then (Ready (Inr (Some [])), rv, s)
      else if rv_pending rv = [] \<and> rv_finished rv then (Ready (Inr None), rv, s)
      else if rv_pending rv = [] then
        (case read_chunk_internal rv s of
           (Ready (Inr (Some chunk)), rv1, s1) \<Rightarrow>
             apfst (\<lambda>out. Ready (Inr (Some out))) (take_pending n (rv1\<lparr>rv_pending := chunk\<rparr>) s1)
         | other \<Rightarrow> other)
      else apfst (\<lambda>out. Ready (Inr (Some out))) (take_pending n rv s))"

definition recv_read_chunk ::
  "nat \<Rightarrow> recv_stream \<Rightarrow> session \<Rightarrow> (error + bytes option) poll \<times> recv_stream \<times> session" where
  "recv_read_chunk mx rv s =
     (if mx = 0 then (Ready (Inl (Protocol ''read_chunk max must be greater than zero'')), rv, s)
      else if rv_pending rv \<noteq> [] then
        (let amount = min (length (rv_pending rv)) mx; chunk = take amount (rv_pending rv);
             (rv1, s1) = on_bytes_consumed (length chunk)
                           (rv\<lparr>rv_pending := drop amount (rv_pending rv)\<rparr>) s
         in (Ready (Inr (Some chunk)), rv1, s1))
      else if rv_finished rv then (Ready (Inr None), rv, s)
      else case chan_recv (receiver rv) s of
        (Pending, s1) \<Rightarrow> (Pending, rv, s1)
      | (Ready None, s1) \<Rightarrow> (Ready (Inr None), rv\<lparr>rv_finished := True\<rparr>, s1)
      | (Ready (Some e), s1) \<Rightarrow>
          (let rv1 = (if ev_fin e then rv\<lparr>rv_finished := True\<rparr> else rv) in
           if ev_data e = [] \<and> ev_fin e then (Ready (Inr None), rv1, s1)
           else if mx < length (ev_data e) then
             (let chunk = take mx (ev_data e);
                  (rv2, s2) = on_bytes_consumed (length chunk)
                                (rv1\<lparr>rv_pending := drop mx (ev_data e)\<rparr>) s1
              in (Ready (Inr (Some chunk)), rv2, s2))
           else
             (let (rv2, s2) = on_bytes_consumed (length (ev_data e)) rv1 s1
              in (Ready (Inr (Some (ev_data e))), rv2, s2))))"

section \<open>The AsyncRead interface\<close>

text \<open>The receive loop of \<open>poll_read\<close>, which skips empty events that do not carry FIN.\<close>

function poll_read_loop ::
  "nat \<Rightarrow> recv_stream \<Rightarrow> session \<Rightarrow> bytes poll \<times> recv_stream \<times> session" where
  "poll_read_loop n rv s = (case chan_recv (receiver rv) s of
     (Pending, s1) \<Rightarrow> (Pending, rv, s1)
   | (Ready None, s1) \<Rightarrow> (Ready [], rv\<lparr>rv_finished := True\<rparr>, s1)
   | (Ready (Some e), s1) \<Rightarrow>
       (let rv1 = (if ev_fin e then rv\<lparr>rv_finished := True\<rparr> else rv) in
        if ev_data e = [] then
          (if ev_fin e then (Ready [], rv1, s1) else poll_read_loop n rv1 s1)
        else
          (let amt = min (length (ev_data e)) n;
               rv2 = (if amt < length (ev_data e) then rv1\<lparr>rv_pending := drop amt (ev_data e)\<rparr> else rv1);
               (rv3, s3) = on_bytes_consumed amt rv2 s1
           in (Ready (take amt (ev_data e)), rv3, s3))))"
  by pat_completeness auto
termination
  by (relation "measure (\<lambda>(n, rv, s). length (items (chan_mem s (receiver rv))))")
    (auto simp: chan_recv_def chan_update_def split: list.splits if_splits)

declare poll_read_loop.simps [simp del]

definition poll_read :: "nat \<Rightarrow> recv_stream \<Rightarrow> session \<Rightarrow> bytes poll \<times> recv_stream \<times> session" where
  "poll_read n rv s =
     (if n = 0 then (Ready [], rv, s)
      else if rv_pending rv \<noteq> [] then
        (let (out, r) = take_pending n rv s in (Ready out, r))
      else if rv_finished rv then (Ready [], rv, s)
      else poll_read_loop n rv s)"

section \<open>Stopping\<close>

text \<open>
  \<open>RecvStream::stop\<close> inside \<open>complete_or_abort\<close>: it suspends at the send of \<open>StopSending\<close>; dropping the
  suspended call requests shutdown.
\<close>

definition recv_stop ::
  "u64 \<Rightarrow> recv_stream \<Rightarrow> session \<Rightarrow> (u64, error + unit) async \<times> recv_stream \<times> session" where
  "recv_stop code rv s = (case from_u64 code of
     Inl _ \<Rightarrow> (Finished (Inl (Protocol ''stop code exceeds mux varint range'')), rv, s)
   | Inr _ \<Rightarrow>
       if stop_sent rv then (Finished (Inr ()), rv, s)
       else let rv1 = rv\<lparr>stop_sent := True\<rparr>; (live, s1) = stop_recv_stream (rv_id rv) s
            in if \<not> live then (Finished (Inr ()), rv1, s1)
               else let (r, s2) = await_at code (send_frame (StopSending (rv_id rv) code) s1)
                    in (r, rv1, s2))"

definition recv_stop_resume ::
  "u64 \<Rightarrow> recv_stream \<Rightarrow> session \<Rightarrow> (u64, error + unit) async \<times> session" where
  "recv_stop_resume code rv s =
     await_at code (send_frame_resume (StopSending (rv_id rv) code) s)"

definition recv_stop_cancel :: "session \<Rightarrow> session" where
  "recv_stop_cancel s = request_shutdown s"

definition recv_closed :: "recv_stream \<Rightarrow> bool" where
  "recv_closed rv = rv_finished rv"

end
