(* ===== verification/Send_Stream.thy ===== *)
theory Send_Stream
  imports Session_State
begin

text \<open>
  The send handle: \<open>SendStream\<close> with its direct interface (\<open>write_buf\<close>, \<open>finish\<close>, \<open>reset\<close>) and its
  \<open>AsyncWrite\<close> interface (\<open>poll_write\<close>, \<open>poll_flush\<close>, \<open>poll_shutdown\<close>). Direct operations run inside
  \<open>complete_or_abort\<close>: they may suspend, are resumed by a further poll, and abort the session when
  they are dropped before completion.
\<close>

definition MAX_WRITE_CHUNK :: nat where
  "MAX_WRITE_CHUNK = 16 * 1024"

section \<open>Operation guards\<close>

definition select_api :: "u64 \<Rightarrow> send_stream \<Rightarrow> session \<Rightarrow> (error + unit) \<times> session" where
  "select_api mode ss s =
     (if mode = 0 then (Inr (), s)
      else let old = api_mode (shared_mem s (ss_shared ss)) in
        if old = 0 then (Inr (), shared_update (ss_shared ss) (\<lambda>c. c\<lparr>api_mode := mode\<rparr>) s)
        else if old = mode then (Inr (), s)
        else (Inl (Protocol ''cannot mix direct and AsyncWrite APIs on a send stream''), s))"

definition begin_operation :: "u64 \<Rightarrow> send_stream \<Rightarrow> session \<Rightarrow> (error + unit) \<times> session" where
  "begin_operation mode ss s = (case select_api mode ss s of
     (Inl e, s1) \<Rightarrow> (Inl e, s1)
   | (Inr _, s1) \<Rightarrow>
       (if operation (shared_mem s1 (ss_shared ss))
        then (Inl (Protocol ''concurrent send operations are unsupported''), s1)
        else (Inr (), shared_update (ss_shared ss) (\<lambda>c. c\<lparr>operation := True\<rparr>) s1)))"

text \<open>\<open>Drop for SendOperation\<close>.\<close>

definition end_operation :: "send_stream \<Rightarrow> session \<Rightarrow> session" where
  "end_operation ss s = shared_update (ss_shared ss) (\<lambda>c. c\<lparr>operation := False\<rparr>) s"

text \<open>
  \<open>let _operation = self.begin_operation(mode)?; self.session.complete_or_abort(body).await\<close>: the guard
  is released when the body completes. Dropping a suspended call releases it and requests shutdown.
\<close>

definition end_guarded :: "send_stream \<Rightarrow> ('k, 'a) async \<times> session \<Rightarrow> ('k, 'a) async \<times> session" where
  "end_guarded ss r = (case r of
     (Awaiting k, s) \<Rightarrow> (Awaiting k, s) | (Finished x, s) \<Rightarrow> (Finished x, end_operation ss s))"

definition guarded ::
  "u64 \<Rightarrow> send_stream \<Rightarrow> (session \<Rightarrow> ('k, error + 'a) async \<times> session) \<Rightarrow> session
     \<Rightarrow> ('k, error + 'a) async \<times> session" where
  "guarded mode ss body s = (case begin_operation mode ss s of
     (Inl e, s1) \<Rightarrow> (Finished (Inl e), s1) | (Inr _, s1) \<Rightarrow> end_guarded ss (body s1))"

definition send_operation_cancel :: "send_stream \<Rightarrow> session \<Rightarrow> session" where
  "send_operation_cancel ss s = end_operation ss (request_shutdown s)"

section \<open>write\<close>

datatype wb_await = WbCredit bytes | WbSend bytes nat

text \<open>The closure of \<open>poll_fn\<close>: register, reserve, and decide whether to wait.\<close>

definition reserve_poll :: "nat \<Rightarrow> send_stream \<Rightarrow> session \<Rightarrow> (error + nat) poll \<times> session" where
  "reserve_poll wanted ss s =
     (let s1 = flow_update (ss_flow ss) waker_register s;
          (n, flow) = try_reserve wanted (flow_mem s1 (ss_flow ss));
          s2 = flow_update (ss_flow ss) (\<lambda>_. flow) s1
      in if n = 0 then
           (if ss_finished (shared_mem s2 (ss_shared ss)) \<or> flow_closed (flow_mem s2 (ss_flow ss))
               \<or> session_is_closed s2
            then (Ready (Inl Closed), s2) else (Pending, s2))
         else (Ready (Inr n), s2))"

definition write_wanted :: "bytes \<Rightarrow> session \<Rightarrow> nat" where
  "write_wanted rest s =
     min (min (length rest) MAX_WRITE_CHUNK) (max_stream_data_per_frame (limits_of s))"

text \<open>The loop of \<open>write_buf\<close>; \<open>rest\<close> is \<open>data[offset..]\<close>.\<close>

function write_loop :: "send_stream \<Rightarrow> bytes \<Rightarrow> session \<Rightarrow> (wb_await, error + unit) async \<times> session" where
  "write_loop ss rest s =
     (if rest = [] then (Finished (Inr ()), s)
      else if write_wanted rest s = 0 then
        (Finished (Inl (Protocol ''stream frame payload limit is zero'')), s)
      else case reserve_poll (write_wanted rest s) ss s of
        (Pending, s1) \<Rightarrow> (Awaiting (WbCredit rest), s1)
      | (Ready (Inl e), s1) \<Rightarrow> (Finished (Inl e), s1)
      | (Ready (Inr n), s1) \<Rightarrow>
          (case send_frame (Stream (ss_id ss) (take n rest) False) s1 of
             (Pending, s2) \<Rightarrow> (Awaiting (WbSend rest n), s2)
           | (Ready (Inl e), s2) \<Rightarrow> (Finished (Inl e), flow_update (ss_flow ss) (release n) s2)
           | (Ready (Inr _), s2) \<Rightarrow> write_loop ss (drop n rest) s2))"
  by pat_completeness auto
termination
  by (relation "measure (\<lambda>(ss, rest, s). length rest)")
    (auto simp: reserve_poll_def Let_def split: if_splits prod.splits)

declare write_loop.simps [simp del]

definition write_buf :: "send_stream \<Rightarrow> bytes \<Rightarrow> session \<Rightarrow> (wb_await, error + unit) async \<times> session" where
  "write_buf ss d = guarded 1 ss (\<lambda>s.
     if ss_finished (shared_mem s (ss_shared ss)) \<or> session_is_closed s
     then (Finished (Inl Closed), s) else write_loop ss d s)"

fun write_buf_resume ::
  "send_stream \<Rightarrow> wb_await \<Rightarrow> session \<Rightarrow> (wb_await, error + unit) async \<times> session" where
  "write_buf_resume ss (WbCredit rest) s = end_guarded ss (write_loop ss rest s)"
| "write_buf_resume ss (WbSend rest n) s =
     end_guarded ss (case send_frame_resume (Stream (ss_id ss) (take n rest) False) s of
       (Pending, s1) \<Rightarrow> (Awaiting (WbSend rest n), s1)
     | (Ready (Inl e), s1) \<Rightarrow> (Finished (Inl e), flow_update (ss_flow ss) (release n) s1)
     | (Ready (Inr _), s1) \<Rightarrow> write_loop ss (drop n rest) s1)"

section \<open>finish and reset\<close>

definition fin_frame :: "stream_id \<Rightarrow> frame" where
  "fin_frame i = Stream i [] True"

definition finish_result ::
  "send_stream \<Rightarrow> (error + unit) poll \<times> session \<Rightarrow> (unit, error + unit) async \<times> session" where
  "finish_result ss r = (case r of
     (Pending, s) \<Rightarrow> (Awaiting (), s)
   | (Ready (Inl e), s) \<Rightarrow> (Finished (Inl e), s)
   | (Ready (Inr _), s) \<Rightarrow> (Finished (Inr ()), snd (remove_send_flow (ss_id ss) s)))"

definition send_finish :: "send_stream \<Rightarrow> session \<Rightarrow> (unit, error + unit) async \<times> session" where
  "send_finish ss = guarded 1 ss (\<lambda>s.
     if ss_finished (shared_mem s (ss_shared ss)) then (Finished (Inr ()), s)
     else if flow_closed (flow_mem s (ss_flow ss)) \<or> session_is_closed s then
       (Finished (Inl Closed), s)
     else finish_result ss (send_frame (fin_frame (ss_id ss))
            (shared_update (ss_shared ss) (\<lambda>c. c\<lparr>ss_finished := True\<rparr>) s)))"

definition send_finish_resume :: "send_stream \<Rightarrow> session \<Rightarrow> (unit, error + unit) async \<times> session" where
  "send_finish_resume ss s =
     end_guarded ss (finish_result ss (send_frame_resume (fin_frame (ss_id ss)) s))"

definition send_reset :: "u64 \<Rightarrow> send_stream \<Rightarrow> session \<Rightarrow> (u64, error + unit) async \<times> session" where
  "send_reset code ss = guarded 0 ss (\<lambda>s. case from_u64 code of
     Inl _ \<Rightarrow> (Finished (Inl (Protocol ''reset code exceeds mux varint range'')), s)
   | Inr _ \<Rightarrow> await_at code (send_frame (ResetStream (ss_id ss) code)
        (snd (remove_send_flow (ss_id ss)
          (shared_update (ss_shared ss) (\<lambda>c. c\<lparr>ss_finished := True\<rparr>) s)))))"

definition send_reset_resume ::
  "u64 \<Rightarrow> send_stream \<Rightarrow> session \<Rightarrow> (u64, error + unit) async \<times> session" where
  "send_reset_resume code ss s =
     end_guarded ss (await_at code (send_frame_resume (ResetStream (ss_id ss) code) s))"

definition send_closed :: "send_stream \<Rightarrow> session \<Rightarrow> bool" where
  "send_closed ss s \<longleftrightarrow> ss_finished (shared_mem s (ss_shared ss))
     \<or> flow_closed (flow_mem s (ss_flow ss)) \<or> session_is_closed s"

definition send_stream_clone :: "send_stream \<Rightarrow> session \<Rightarrow> send_stream \<times> session" where
  "send_stream_clone ss s =
     (ss\<lparr>flush_waiter := None, fin_queued := False\<rparr>,
      shared_update (ss_shared ss) (\<lambda>c. c\<lparr>handles := Suc (handles c)\<rparr>) s)"

section \<open>The AsyncWrite interface\<close>

definition io_closed :: io_error where
  "io_closed = IoError BrokenPipe ''stream is closed''"

definition io_other :: "error \<Rightarrow> io_error" where
  "io_other e = IoError KindOther (error_to_string e)"

fun io_from_error :: "error \<Rightarrow> io_error" where
  "io_from_error Closed = io_closed"
| "io_from_error (Io e) = e"
| "io_from_error (Tls m) = IoError KindOther m"
| "io_from_error (Transport m) = IoError KindOther m"
| "io_from_error (Protocol m) = IoError KindOther m"
| "io_from_error (InvalidUrl m) = IoError KindOther m"
| "io_from_error (StreamIdError m) = IoError KindOther m"
| "io_from_error (Unsupported m) = IoError KindOther m"
| "io_from_error (FrameDecode m) = IoError KindOther m"
| "io_from_error (Other m) = IoError KindOther m"

text \<open>
  \<open>PollSender::poll_reserve\<close>: an error when the receiver is gone, \<open>Pending\<close> when no slot is free. The
  \<open>send_item\<close> that follows a successful reservation uses the reserved slot and cannot fail.
\<close>

definition poll_reserve :: "session \<Rightarrow> (unit + unit) poll" where
  "poll_reserve s =
     (if \<not> outbound_rx s then Ready (Inl ()) else if outbound_full s then Pending else Ready (Inr ()))"

text \<open>The body of \<open>poll_write\<close> between taking and releasing the operation guard.\<close>

definition poll_write_body ::
  "send_stream \<Rightarrow> bytes \<Rightarrow> session \<Rightarrow> (io_error + nat) poll \<times> send_stream \<times> session" where
  "poll_write_body ss buf s =
     (if buf = [] then (Ready (Inr 0), ss, s)
      else if send_closed ss s then (Ready (Inl io_closed), ss, s)
      else let s1 = flow_update (ss_flow ss) waker_register s; wanted = write_wanted buf s1 in
        if wanted = 0 then
          (Ready (Inl (IoError InvalidInput ''stream frame payload limit is zero'')), ss, s1)
        else let (n, flow) = try_reserve wanted (flow_mem s1 (ss_flow ss));
                 s2 = flow_update (ss_flow ss) (\<lambda>_. flow) s1;
                 undo = flow_update (ss_flow ss) (release n)
             in if n = 0 then
                  (if flow_closed (flow_mem s2 (ss_flow ss)) \<or> session_is_closed s2
                   then (Ready (Inl io_closed), ss, s2) else (Pending, ss, s2))
                else case poll_reserve s2 of
                  Pending \<Rightarrow> (Pending, ss, undo s2)
                | Ready (Inl _) \<Rightarrow> (Ready (Inl io_closed), ss, undo s2)
                | Ready (Inr _) \<Rightarrow>
                    (if \<not> hm_contains (ss_id ss) (send_flows s2)
                     then (Ready (Inl io_closed), ss, undo s2)
                     else (Ready (Inr n), ss\<lparr>flush_waiter := None\<rparr>,
                           outbound_push (FrameCmd (Stream (ss_id ss) (take n buf) False)) s2)))"

definition poll_write ::
  "send_stream \<Rightarrow> bytes \<Rightarrow> session \<Rightarrow> (io_error + nat) poll \<times> send_stream \<times> session" where
  "poll_write ss buf s = (case select_api 2 ss s of
     (Inl e, s1) \<Rightarrow> (Ready (Inl (io_other e)), ss, s1)
   | (Inr _, s1) \<Rightarrow>
       (case begin_operation 2 ss s1 of
          (Inl e, s2) \<Rightarrow> (Ready (Inl (io_other e)), ss, s2)
        | (Inr _, s2) \<Rightarrow>
            (let (r, ss', s3) = poll_write_body ss buf s2 in (r, ss', end_operation ss s3))))"

text \<open>One poll of a pending flush acknowledgement.\<close>

definition poll_flush_waiter ::
  "nat \<Rightarrow> send_stream \<Rightarrow> session \<Rightarrow> (io_error + unit) poll \<times> send_stream \<times> session" where
  "poll_flush_waiter a ss s = (case ack_mem s a of
     AckPending \<Rightarrow> (Pending, ss, s)
   | AckSent (Inr _) \<Rightarrow> (Ready (Inr ()), ss\<lparr>flush_waiter := None\<rparr>, s)
   | AckSent (Inl e) \<Rightarrow> (Ready (Inl (io_from_error e)), ss\<lparr>flush_waiter := None\<rparr>, s)
   | AckDropped \<Rightarrow> (Ready (Inl io_closed), ss\<lparr>flush_waiter := None\<rparr>, s))"

definition ack_new :: "session \<Rightarrow> nat \<times> session" where
  "ack_new s = (next_ref s,
     s\<lparr>ack_mem := (ack_mem s)(next_ref s := AckPending), next_ref := Suc (next_ref s)\<rparr>)"

text \<open>The loop runs twice at most: the second turn polls the acknowledgement it has just queued.\<close>

definition poll_flush_loop ::
  "send_stream \<Rightarrow> session \<Rightarrow> (io_error + unit) poll \<times> send_stream \<times> session" where
  "poll_flush_loop ss s = (case flush_waiter ss of
     Some a \<Rightarrow> poll_flush_waiter a ss s
   | None \<Rightarrow>
       (let (a, s1) = ack_new s in
        case poll_reserve s1 of
          Pending \<Rightarrow> (Pending, ss, s1)
        | Ready (Inl _) \<Rightarrow> (Ready (Inl io_closed), ss, s1)
        | Ready (Inr _) \<Rightarrow>
            poll_flush_waiter a (ss\<lparr>flush_waiter := Some a\<rparr>) (outbound_push (FlushCmd a) s1)))"

definition poll_flush ::
  "send_stream \<Rightarrow> session \<Rightarrow> (io_error + unit) poll \<times> send_stream \<times> session" where
  "poll_flush ss s = (case select_api 2 ss s of
     (Inl e, s1) \<Rightarrow> (Ready (Inl (io_other e)), ss, s1)
   | (Inr _, s1) \<Rightarrow> poll_flush_loop ss s1)"

definition poll_shutdown ::
  "send_stream \<Rightarrow> session \<Rightarrow> (io_error + unit) poll \<times> send_stream \<times> session" where
  "poll_shutdown ss s = (case select_api 2 ss s of
     (Inl e, s1) \<Rightarrow> (Ready (Inl (io_other e)), ss, s1)
   | (Inr _, s1) \<Rightarrow>
       (let fin = ss_finished (shared_mem s1 (ss_shared ss)) in
        if \<not> fin \<and> (flow_closed (flow_mem s1 (ss_flow ss)) \<or> session_is_closed s1)
        then (Ready (Inl io_closed), ss, s1)
        else if \<not> fin \<and> \<not> fin_queued ss then
          (case poll_reserve s1 of
             Pending \<Rightarrow> (Pending, ss, s1)
           | Ready (Inl _) \<Rightarrow> (Ready (Inl io_closed), ss, s1)
           | Ready (Inr _) \<Rightarrow>
               (if \<not> hm_contains (ss_id ss) (send_flows s1) then (Ready (Inl io_closed), ss, s1)
                else let s2 = outbound_push (FrameCmd (fin_frame (ss_id ss))) s1;
                         s3 = shared_update (ss_shared ss) (\<lambda>c. c\<lparr>ss_finished := True\<rparr>) s2;
                         s4 = snd (remove_send_flow (ss_id ss) s3)
                     in poll_flush (ss\<lparr>fin_queued := True\<rparr>) s4))
        else poll_flush ss s1))"

end
