(* ===== verification/Session_Api.thy ===== *)
theory Session_Api
  imports Session_Frames Recv_Stream Send_Stream
begin

text \<open>
  The public \<open>Session\<close> handle: construction, opening and accepting streams, graceful shutdown, and
  the counting of handles. Opening runs inside \<open>complete_or_abort\<close>; a suspended call is resumed by a
  further poll and, when it is dropped, drops the handles it holds and requests shutdown.
\<close>

section \<open>Construction\<close>

definition session_new :: "bool \<Rightarrow> limits \<Rightarrow> error + session" where
  "session_new server l =
     try_bind (limits_validate 64 l) (\<lambda>_. Inr (session_inner_new server l))"

section \<open>Opening\<close>

datatype open_uni_await = AwaitOpenUni stream_id nat

definition open_uni_result ::
  "stream_id \<Rightarrow> nat \<Rightarrow> (error + unit) poll \<times> session
     \<Rightarrow> (open_uni_await, error + send_stream) async \<times> session" where
  "open_uni_result i flow r = (case r of
     (Pending, s) \<Rightarrow> (Awaiting (AwaitOpenUni i flow), s)
   | (Ready (Inl e), s) \<Rightarrow> (Finished (Inl e), snd (remove_send_flow i s))
   | (Ready (Inr _), s) \<Rightarrow> (let (ss, s1) = send_stream_new i flow s in (Finished (Inr ss), s1)))"

definition open_uni :: "session \<Rightarrow> (open_uni_await, error + send_stream) async \<times> session" where
  "open_uni s = (case next_stream_id Uni s of
     (Inl e, s1) \<Rightarrow> (Finished (Inl e), s1)
   | (Inr i, s1) \<Rightarrow>
       (case register_send_flow i 0 s1 of
          (Inl e, s2) \<Rightarrow> (Finished (Inl e), s2)
        | (Inr flow, s2) \<Rightarrow> open_uni_result i flow (send_frame (OpenUni i) s2)))"

fun open_uni_resume ::
  "open_uni_await \<Rightarrow> session \<Rightarrow> (open_uni_await, error + send_stream) async \<times> session" where
  "open_uni_resume (AwaitOpenUni i flow) s =
     open_uni_result i flow (send_frame_resume (OpenUni i) s)"

fun open_uni_cancel :: "open_uni_await \<Rightarrow> session \<Rightarrow> session" where
  "open_uni_cancel (AwaitOpenUni i flow) s = request_shutdown s"

datatype open_bi_await =
    AwaitOpenBi stream_id nat recv_stream
  | AwaitOpenBiCredit stream_id nat recv_stream

text \<open>\<open>remove_stream(id)\<close>, \<open>remove_send_flow(id)\<close> and the drop of the receive handle.\<close>

definition open_bi_abandon :: "stream_id \<Rightarrow> recv_stream \<Rightarrow> session \<Rightarrow> session" where
  "open_bi_abandon i recv s =
     recv_stream_drop recv (snd (remove_send_flow i (snd (remove_recv_stream i s))))"

definition open_bi_credit_result ::
  "stream_id \<Rightarrow> nat \<Rightarrow> recv_stream \<Rightarrow> (error + unit) poll \<times> session
     \<Rightarrow> (open_bi_await, error + (send_stream \<times> recv_stream)) async \<times> session" where
  "open_bi_credit_result i flow recv r = (case r of
     (Pending, s) \<Rightarrow> (Awaiting (AwaitOpenBiCredit i flow recv), s)
   | (Ready (Inl e), s) \<Rightarrow> (Finished (Inl e), open_bi_abandon i recv s)
   | (Ready (Inr _), s) \<Rightarrow>
       (let (ss, s1) = send_stream_new i flow s in (Finished (Inr (ss, recv)), s1)))"

definition open_bi_result ::
  "stream_id \<Rightarrow> nat \<Rightarrow> recv_stream \<Rightarrow> (error + unit) poll \<times> session
     \<Rightarrow> (open_bi_await, error + (send_stream \<times> recv_stream)) async \<times> session" where
  "open_bi_result i flow recv r = (case r of
     (Pending, s) \<Rightarrow> (Awaiting (AwaitOpenBi i flow recv), s)
   | (Ready (Inl e), s) \<Rightarrow> (Finished (Inl e), open_bi_abandon i recv s)
   | (Ready (Inr _), s) \<Rightarrow>
       open_bi_credit_result i flow recv (send_frame (initial_credit_frame i s) s))"

definition open_bi ::
  "session \<Rightarrow> (open_bi_await, error + (send_stream \<times> recv_stream)) async \<times> session" where
  "open_bi s = (case next_stream_id Bi s of
     (Inl e, s1) \<Rightarrow> (Finished (Inl e), s1)
   | (Inr i, s1) \<Rightarrow>
       (case register_send_flow i 0 s1 of
          (Inl e, s2) \<Rightarrow> (Finished (Inl e), s2)
        | (Inr flow, s2) \<Rightarrow>
            (let (recv, s3) = register_recv_stream i s2
             in open_bi_result i flow recv (send_frame (OpenBi i) s3))))"

fun open_bi_resume ::
  "open_bi_await \<Rightarrow> session
     \<Rightarrow> (open_bi_await, error + (send_stream \<times> recv_stream)) async \<times> session" where
  "open_bi_resume (AwaitOpenBi i flow recv) s =
     open_bi_result i flow recv (send_frame_resume (OpenBi i) s)"
| "open_bi_resume (AwaitOpenBiCredit i flow recv) s =
     open_bi_credit_result i flow recv (send_frame_resume (initial_credit_frame i s) s)"

fun open_bi_cancel :: "open_bi_await \<Rightarrow> session \<Rightarrow> session" where
  "open_bi_cancel (AwaitOpenBi i flow recv) s = request_shutdown (recv_stream_drop recv s)"
| "open_bi_cancel (AwaitOpenBiCredit i flow recv) s = request_shutdown (recv_stream_drop recv s)"

section \<open>Accepting\<close>

text \<open>One poll of \<open>rx.recv()\<close>: queued streams are delivered even after the senders are gone.\<close>

definition accept_uni :: "session \<Rightarrow> (error + recv_stream) poll \<times> session" where
  "accept_uni s = (case accept_uni_queue s of
     rv # q \<Rightarrow> (Ready (Inr rv), s\<lparr>accept_uni_queue := q\<rparr>)
   | [] \<Rightarrow> (if accept_uni_tx s then Pending else Ready (Inl Closed), s))"

definition accept_bi :: "session \<Rightarrow> (error + (send_stream \<times> recv_stream)) poll \<times> session" where
  "accept_bi s = (case accept_bi_queue s of
     p # q \<Rightarrow> (Ready (Inr p), s\<lparr>accept_bi_queue := q\<rparr>)
   | [] \<Rightarrow> (if accept_bi_tx s then Pending else Ready (Inl Closed), s))"

section \<open>Shutdown\<close>

datatype shutdown_await =
    SdQueue
  | SdAck nat
  | SdTasks
  | SdFinal "error + unit"

text \<open>The end of \<open>shutdown\<close>: wait until both tasks have finished, then return the result.\<close>

definition shutdown_final ::
  "error + unit \<Rightarrow> session \<Rightarrow> (shutdown_await, error + unit) async \<times> session" where
  "shutdown_final r s = (if active_tasks s = 0 then Finished r else Awaiting (SdFinal r), s)"

text \<open>The first caller cancels the session once its bounded part is over.\<close>

definition shutdown_bounded_done ::
  "error + unit \<Rightarrow> session \<Rightarrow> (shutdown_await, error + unit) async \<times> session" where
  "shutdown_bounded_done r s = shutdown_final r (s\<lparr>cancelled := True\<rparr>)"

definition shutdown_tasks :: "session \<Rightarrow> (shutdown_await, error + unit) async \<times> session" where
  "shutdown_tasks s =
     (if active_tasks s = 0 then shutdown_bounded_done (Inr ()) s else (Awaiting SdTasks, s))"

definition shutdown_ack :: "nat \<Rightarrow> session \<Rightarrow> (shutdown_await, error + unit) async \<times> session" where
  "shutdown_ack a s = (case ack_mem s a of
     AckPending \<Rightarrow> (Awaiting (SdAck a), s)
   | AckSent (Inr _) \<Rightarrow> shutdown_tasks s
   | AckSent (Inl e) \<Rightarrow> shutdown_bounded_done (Inl e) s
   | AckDropped \<Rightarrow>
       if peer_closed s then shutdown_tasks s else shutdown_bounded_done (Inl Closed) s)"

definition shutdown_send :: "session \<Rightarrow> (shutdown_await, error + unit) async \<times> session" where
  "shutdown_send s =
     (if \<not> outbound_rx s then shutdown_bounded_done (Inr ()) s
      else if outbound_full s then (Awaiting SdQueue, s)
      else let (a, s1) = ack_new s in shutdown_ack a (outbound_push (ShutdownCmd a) s1))"

definition shutdown :: "session \<Rightarrow> (shutdown_await, error + unit) async \<times> session" where
  "shutdown s =
     (if closed s then shutdown_final (Inr ()) s
      else if shutdown_started s then shutdown_final (Inr ()) s
      else shutdown_send (s\<lparr>shutdown_started := True\<rparr>))"

fun shutdown_resume ::
  "shutdown_await \<Rightarrow> session \<Rightarrow> (shutdown_await, error + unit) async \<times> session" where
  "shutdown_resume SdQueue s = shutdown_send s"
| "shutdown_resume (SdAck a) s = shutdown_ack a s"
| "shutdown_resume SdTasks s = shutdown_tasks s"
| "shutdown_resume (SdFinal r) s = shutdown_final r s"

text \<open>
  The five-second deadline of the bounded part: the result becomes an error and the session is
  cancelled. Waiting for the tasks afterwards has no deadline.
\<close>

fun shutdown_timeout ::
  "shutdown_await \<Rightarrow> session \<Rightarrow> (shutdown_await, error + unit) async \<times> session" where
  "shutdown_timeout (SdFinal r) s = (Awaiting (SdFinal r), s)"
| "shutdown_timeout _ s = shutdown_bounded_done (Inl Closed) s"

definition shutdown_cancel :: "shutdown_await \<Rightarrow> session \<Rightarrow> session" where
  "shutdown_cancel k s = request_shutdown s"

section \<open>Handles\<close>

definition session_clone :: "session \<Rightarrow> session" where
  "session_clone s = s\<lparr>session_handles := Suc (session_handles s)\<rparr>"

text \<open>
  Dropping the last handle requests shutdown; then the accept receivers are dropped with the streams
  still queued in them.
\<close>

definition drop_accept_queues :: "session \<Rightarrow> session" where
  "drop_accept_queues s =
     (let s1 = s\<lparr>accept_rx := False, accept_uni_queue := [], accept_bi_queue := []\<rparr>;
          s2 = fold recv_stream_drop (accept_uni_queue s) s1
      in fold (\<lambda>(ss, rv). drop_pair ss rv) (accept_bi_queue s) s2)"

definition session_drop :: "session \<Rightarrow> session" where
  "session_drop s =
     (let s1 = s\<lparr>session_handles := session_handles s - 1\<rparr> in
      if session_handles s = 1 then drop_accept_queues (request_shutdown s1) else s1)"

end
