(* ===== verification/Session_Tasks.thy ===== *)
theory Session_Tasks
  imports Session_Frames
begin

text \<open>
  The two tasks of a session (\<open>SessionInner::spawn_tasks\<close>): the inbound loop that decodes WebSocket
  messages and handles their frames, and the outbound writer that batches queued frames and pending
  credit into binary messages. The WebSocket sink is third-party code: \<open>tx\<close> gives the outcome of an
  operation after the operations that succeeded before it.
\<close>

section \<open>Task completion\<close>

definition task_finished :: "session \<Rightarrow> session" where
  "task_finished s =
     (let s1 = (close_all s)\<lparr>cancelled := True\<rparr> in s1\<lparr>active_tasks := active_tasks s1 - 1\<rparr>)"

section \<open>Inbound\<close>

text \<open>
  Where the inbound task is: waiting for a message, suspended in \<open>handle_frame\<close> with the rest of the
  message, waiting after the peer's close frame, past its loop, or finished.
\<close>

datatype inbound_task = InLoop | InFrames hf_await bytes | InPeerClosed | InBreak | InDone

text \<open>The \<open>while cursor.has_remaining()\<close> loop of a binary message.\<close>

function inbound_frames :: "bytes \<Rightarrow> session \<Rightarrow> inbound_task \<times> session" where
  "inbound_frames cursor s =
     (if cursor = [] then (InLoop, s)
      else case frame_decode 64 cursor of
        Inl _ \<Rightarrow> (InBreak, snd (protocol_error 1 ''invalid frame'' s))
      | Inr (f, r) \<Rightarrow>
          (case handle_frame f s of
             (Awaiting k, s1) \<Rightarrow> (InFrames k r, s1)
           | (Finished (Inl _), s1) \<Rightarrow> (InBreak, s1)
           | (Finished (Inr _), s1) \<Rightarrow> inbound_frames r s1))"
  by pat_completeness auto
termination
  by (relation "measure (\<lambda>(cursor, s). length cursor)") (auto dest: frame_codec.dec_shorter)

declare inbound_frames.simps [simp del]

definition inbound_message :: "ws_message \<Rightarrow> session \<Rightarrow> inbound_task \<times> session" where
  "inbound_message m s = (case m of
     WsBinary d \<Rightarrow>
       (if max_ws_message_size (limits_of s) < length d
        then (InBreak, snd (protocol_error 2 ''ws message too large'' s))
        else inbound_frames d s)
   | WsPing p \<Rightarrow> (InLoop, snd (outbound_try_send (WsCmd (WsPong p)) s))
   | WsText _ \<Rightarrow> (InBreak, snd (protocol_error 1 ''text message not supported'' s))
   | WsClose _ \<Rightarrow>
       (InPeerClosed, s\<lparr>peer_closed := True, shutdown_started := True, peer_close_notify := True\<rparr>)
   | _ \<Rightarrow> (InLoop, s))"

text \<open>An item of the WebSocket stream: the end, a read error, or a message.\<close>

fun inbound_item :: "(unit + ws_message) option \<Rightarrow> session \<Rightarrow> inbound_task \<times> session" where
  "inbound_item None s = (InBreak, s)"
| "inbound_item (Some (Inl _)) s = (InBreak, s)"
| "inbound_item (Some (Inr m)) s = inbound_message m s"

text \<open>A further poll of a suspended \<open>handle_frame\<close>, going on with the rest of the message.\<close>

definition inbound_resume :: "hf_await \<Rightarrow> bytes \<Rightarrow> session \<Rightarrow> inbound_task \<times> session" where
  "inbound_resume k r s = (case handle_frame_resume k s of
     (Awaiting k', s1) \<Rightarrow> (InFrames k' r, s1)
   | (Finished (Inl _), s1) \<Rightarrow> (InBreak, s1)
   | (Finished (Inr _), s1) \<Rightarrow> inbound_frames r s1)"

text \<open>Cancellation drops the work of the task where it stands.\<close>

fun inbound_cancel :: "inbound_task \<Rightarrow> session \<Rightarrow> inbound_task \<times> session" where
  "inbound_cancel (InFrames k r) s = (InBreak, handle_frame_cancel k s)"
| "inbound_cancel InDone s = (InDone, s)"
| "inbound_cancel _ s = (InBreak, s)"

section \<open>Outbound\<close>

datatype tungstenite_error =
    ConnectionClosed | AlreadyClosed | TIo io_error | TTls string | TOther string

fun map_tungstenite_err :: "tungstenite_error \<Rightarrow> error" where
  "map_tungstenite_err ConnectionClosed = Closed"
| "map_tungstenite_err AlreadyClosed = Closed"
| "map_tungstenite_err (TIo e) = Io e"
| "map_tungstenite_err (TTls m) = Tls m"
| "map_tungstenite_err (TOther m) = Transport m"

datatype sink_op = SinkSend ws_message | SinkFlush | SinkClose

type_synonym ws_sink = "sink_op list \<Rightarrow> sink_op \<Rightarrow> tungstenite_error + unit"

text \<open>The locals of the writer loop; \<open>sunk\<close> lists the sink operations that succeeded.\<close>

record writer =
  batch :: bytes
  batch_frames :: nat
  close_sent :: bool
  sunk :: "sink_op list"

definition writer_new :: writer where
  "writer_new = \<lparr>batch = [], batch_frames = 0, close_sent = False, sunk = []\<rparr>"

definition sink_do :: "ws_sink \<Rightarrow> sink_op \<Rightarrow> writer \<Rightarrow> (tungstenite_error + unit) \<times> writer" where
  "sink_do tx a w = (case tx (sunk w) a of
     Inl e \<Rightarrow> (Inl e, w) | Inr _ \<Rightarrow> (Inr (), w\<lparr>sunk := sunk w @ [a]\<rparr>))"

definition flush_batch :: "ws_sink \<Rightarrow> writer \<Rightarrow> (tungstenite_error + unit) \<times> writer" where
  "flush_batch tx w =
     (if batch w = [] then (Inr (), w)
      else sink_do tx (SinkSend (WsBinary (batch w))) (w\<lparr>batch := []\<rparr>))"

text \<open>\<open>flush_batch\<close> followed by \<open>batch_frames = 0\<close> unless it fails.\<close>

definition flush_reset :: "ws_sink \<Rightarrow> writer \<Rightarrow> (tungstenite_error + unit) \<times> writer" where
  "flush_reset tx w = (case flush_batch tx w of
     (Inl e, w1) \<Rightarrow> (Inl e, w1) | (Inr _, w1) \<Rightarrow> (Inr (), w1\<lparr>batch_frames := 0\<rparr>))"

definition max_bytes :: "limits \<Rightarrow> nat" where
  "max_bytes l = min (max_batch_bytes l) (max_ws_message_size l)"

text \<open>
  A frame command: \<open>idle\<close> is the answer of \<open>outbound_rx.is_empty()\<close>. The first component tells whether
  the loop goes on; \<open>None\<close> is the panic of \<open>Frame::encode\<close>.
\<close>

definition write_frame :: "ws_sink \<Rightarrow> limits \<Rightarrow> bool \<Rightarrow> frame \<Rightarrow> writer \<Rightarrow> (bool \<times> writer) option" where
  "write_frame tx l idle f w = do {
     encoded \<leftarrow> frame_encode f;
     Some (
       let (r1, w1) =
         (if batch w \<noteq> [] \<and> max_bytes l < length (batch w) + length encoded
          then flush_reset tx w else (Inr (), w))
       in case r1 of
         Inl _ \<Rightarrow> (False, w1)
       | Inr _ \<Rightarrow>
           (let w2 = w1\<lparr>batch := batch w1 @ encoded, batch_frames := Suc (batch_frames w1)\<rparr> in
            if max_batch_frames l \<le> batch_frames w2 \<or> max_bytes l \<le> length (batch w2) \<or> idle
            then (case flush_reset tx w2 of
                    (Inl _, w3) \<Rightarrow> (False, w3) | (Inr _, w3) \<Rightarrow> (True, w3))
            else (True, w2)))
   }"

definition ack_send :: "nat \<Rightarrow> error + unit \<Rightarrow> session \<Rightarrow> session" where
  "ack_send a r s = s\<lparr>ack_mem := (ack_mem s)(a := AckSent r)\<rparr>"

fun map_result :: "(tungstenite_error + unit) \<Rightarrow> error + unit" where
  "map_result (Inl e) = Inl (map_tungstenite_err e)"
| "map_result (Inr _) = Inr ()"

text \<open>One turn of the writer loop on a command.\<close>

definition write_cmd ::
  "ws_sink \<Rightarrow> bool \<Rightarrow> outbound_cmd \<Rightarrow> writer \<Rightarrow> session \<Rightarrow> (bool \<times> writer \<times> session) option" where
  "write_cmd tx idle cmd w s = (case cmd of
     FrameCmd f \<Rightarrow>
       (if close_sent w then Some (True, w, s)
        else map_option (\<lambda>(b, w'). (b, w', s)) (write_frame tx (limits_of s) idle f w))
   | WsCmd m \<Rightarrow>
       (if close_sent w then Some (True, w, s)
        else Some (case flush_reset tx w of
          (Inl _, w1) \<Rightarrow> (False, w1, s)
        | (Inr _, w1) \<Rightarrow>
            (case sink_do tx (SinkSend m) w1 of
               (Inl _, w2) \<Rightarrow> (False, w2, s) | (Inr _, w2) \<Rightarrow> (True, w2, s))))
   | FlushCmd a \<Rightarrow>
       Some (case flush_reset tx w of
          (Inl _, w1) \<Rightarrow> (False, w1, ack_send a (Inl Closed) s)
        | (Inr _, w1) \<Rightarrow>
            (let (r, w2) = sink_do tx SinkFlush w1 in (True, w2, ack_send a (map_result r) s)))
   | ShutdownCmd a \<Rightarrow>
       Some (case flush_batch tx w of
          (Inl e, w1) \<Rightarrow> (False, w1, ack_send a (Inl (map_tungstenite_err e)) s)
        | (Inr _, w1) \<Rightarrow>
            (case sink_do tx SinkClose w1 of
               (Inl e, w2) \<Rightarrow> (False, w2, ack_send a (Inl (map_tungstenite_err e)) s)
             | (Inr _, w2) \<Rightarrow> (True, w2\<lparr>close_sent := True\<rparr>, ack_send a (Inr ()) s))))"

text \<open>
  The branches of the writer's \<open>select!\<close>: a queued command, a pending credit, the peer's close, and
  cancellation seen inside the loop. Cancellation seen outside drops the work as it stands.
\<close>

datatype outbound_task = OutLoop | OutBreak | OutDone | OutPanic

fun out_result :: "session \<Rightarrow> (bool \<times> writer \<times> session) option \<Rightarrow> writer \<Rightarrow> outbound_task \<times> writer \<times> session" where
  "out_result s None w = (OutPanic, w, s)"
| "out_result s (Some (b, w', s')) w = (if b then OutLoop else OutBreak, w', s')"

definition outbound_recv :: "ws_sink \<Rightarrow> writer \<Rightarrow> session \<Rightarrow> (outbound_task \<times> writer \<times> session) option" where
  "outbound_recv tx w s = (case outbound s of
     [] \<Rightarrow> None
   | c # q \<Rightarrow> (let s1 = s\<lparr>outbound := q\<rparr> in Some (out_result s1 (write_cmd tx (q = []) c w s1) w)))"

definition outbound_credit ::
  "ws_sink \<Rightarrow> stream_id \<Rightarrow> writer \<Rightarrow> session \<Rightarrow> (outbound_task \<times> writer \<times> session) option" where
  "outbound_credit tx k w s =
     (if close_sent w then None
      else case next_credit k s of
        (Pending, _) \<Rightarrow> None
      | (Ready f, s1) \<Rightarrow>
          Some (out_result s1 (write_cmd tx (outbound s1 = []) (FrameCmd f) w s1) w))"

definition outbound_peer_close ::
  "ws_sink \<Rightarrow> writer \<Rightarrow> session \<Rightarrow> (outbound_task \<times> writer \<times> session) option" where
  "outbound_peer_close tx w s =
     (if peer_close_notify s
      then Some (OutBreak, snd (sink_do tx SinkClose w), s\<lparr>peer_close_notify := False\<rparr>) else None)"

definition outbound_cancel_inner ::
  "ws_sink \<Rightarrow> writer \<Rightarrow> session \<Rightarrow> (outbound_task \<times> writer \<times> session) option" where
  "outbound_cancel_inner tx w s =
     (if cancelled s \<and> \<not> peer_close_notify s
      then Some (OutBreak, snd (sink_do tx SinkClose (snd (flush_batch tx w))), s) else None)"

text \<open>\<open>drop(outbound_rx)\<close>: queued commands are dropped and their acknowledgements with them.\<close>

fun drop_ack :: "outbound_cmd \<Rightarrow> (nat \<Rightarrow> ack) \<Rightarrow> nat \<Rightarrow> ack" where
  "drop_ack (FlushCmd a) m = m(a := AckDropped)"
| "drop_ack (ShutdownCmd a) m = m(a := AckDropped)"
| "drop_ack _ m = m"

definition outbound_finish :: "session \<Rightarrow> session" where
  "outbound_finish s =
     task_finished (s\<lparr>outbound_rx := False, outbound := [],
                      ack_mem := fold drop_ack (outbound s) (ack_mem s)\<rparr>)"

end
