(* ===== verification/Session_Inv.thy ===== *)
theory Session_Inv
  imports Session_Api Session_Tasks
begin

text \<open>
  The invariant of a session: its maps have distinct keys and respect the configured limits, its
  queues stay within their capacities, every queued frame can be encoded, the flows of the map are
  open and within their credit, received bytes are within the advertised limit, and the identifiers
  of the peer's streams are below the allocation frontier. Every operation preserves it.
\<close>

section \<open>The invariant\<close>

named_theorems inv_intros \<open>preservation by an operation that returns the new state\<close>
named_theorems inv_steps \<open>preservation by an operation that returns a result and the new state\<close>

fun cmd_ok :: "outbound_cmd \<Rightarrow> bool" where
  "cmd_ok (FrameCmd f) = frame_wf 64 f"
| "cmd_ok _ = True"

definition rv_ok :: "recv_stream \<Rightarrow> bool" where
  "rv_ok rv \<longleftrightarrow> in_varint (sid (rv_id rv))"

definition ss_ok :: "send_stream \<Rightarrow> bool" where
  "ss_ok ss \<longleftrightarrow> in_varint (sid (ss_id ss))"

definition queues_inv :: "session \<Rightarrow> bool" where
  "queues_inv s \<longleftrightarrow>
     length (outbound s) \<le> outbound_queue_len (limits_of s) \<and> list_all cmd_ok (outbound s)
     \<and> length (accept_uni_queue s) \<le> accept_uni_queue_len (limits_of s)
     \<and> length (accept_bi_queue s) \<le> accept_bi_queue_len (limits_of s)
     \<and> list_all rv_ok (accept_uni_queue s)
     \<and> list_all (\<lambda>(ss, rv). ss_ok ss \<and> rv_ok rv) (accept_bi_queue s)"

definition flows_inv :: "session \<Rightarrow> bool" where
  "flows_inv s \<longleftrightarrow>
     hm_ok (send_flows s) \<and> length (send_flows s) \<le> max_open_streams (limits_of s)
     \<and> (\<forall>i r. hm_get (send_flows s) i = Some r \<longrightarrow>
          in_varint (sid i) \<and> r < next_ref s \<and> \<not> flow_closed (flow_mem s r))
     \<and> (\<forall>i j r. hm_get (send_flows s) i = Some r \<longrightarrow> hm_get (send_flows s) j = Some r \<longrightarrow> i = j)
     \<and> (\<forall>r. flow_ok (flow_mem s r))"

definition streams_inv :: "session \<Rightarrow> bool" where
  "streams_inv s \<longleftrightarrow>
     hm_ok (streams s)
     \<and> (\<forall>i st. hm_get (streams s) i = Some st \<longrightarrow> in_varint (sid i) \<and> sender st < next_ref s
          \<and> received st \<le> chan_max (chan_mem s (sender st)))
     \<and> (\<forall>i j st st'. hm_get (streams s) i = Some st \<longrightarrow> hm_get (streams s) j = Some st'
          \<longrightarrow> sender st = sender st' \<longrightarrow> i = j)
     \<and> (\<forall>r. length (items (chan_mem s r)) \<le> recv_event_queue_len (limits_of s))"

definition credit_inv :: "session \<Rightarrow> bool" where
  "credit_inv s \<longleftrightarrow>
     hm_ok (pending_credit s) \<and> length (pending_credit s) \<le> max_open_streams (limits_of s)
     \<and> (\<forall>i m. hm_get (pending_credit s) i = Some m \<longrightarrow> in_varint (sid i) \<and> in_varint m)"

text \<open>The frontier that bounds the counters of the peer's streams of a direction.\<close>

definition peer_frontier :: "stream_dir \<Rightarrow> session \<Rightarrow> u64" where
  "peer_frontier d s = (case d of Uni \<Rightarrow> next_peer_uni s | Bi \<Rightarrow> next_peer_bi s)"

definition below_frontier :: "session \<Rightarrow> stream_id \<Rightarrow> bool" where
  "below_frontier s i \<longleftrightarrow>
     initiator_is_server i = peer_is_server s \<longrightarrow> stream_id_counter i < peer_frontier (stream_id_dir i) s"

definition ids_inv :: "session \<Rightarrow> bool" where
  "ids_inv s \<longleftrightarrow>
     (\<forall>i. hm_contains i (streams s) \<or> hm_contains i (send_flows s) \<longrightarrow> below_frontier s i)"

definition session_inv :: "session \<Rightarrow> bool" where
  "session_inv s \<longleftrightarrow>
     limits_ok 64 (limits_of s) \<and> queues_inv s \<and> flows_inv s \<and> streams_inv s \<and> credit_inv s
     \<and> ids_inv s \<and> (closed s \<longrightarrow> \<not> accept_uni_tx s \<and> \<not> accept_bi_tx s)"

lemmas ids_inv_defs = ids_inv_def below_frontier_def peer_frontier_def peer_is_server_def
lemmas session_inv_parts = queues_inv_def flows_inv_def streams_inv_def credit_inv_def ids_inv_defs

section \<open>Frame rules\<close>

text \<open>Each part of the invariant depends on a few fields only.\<close>

lemma queues_inv_frame [simp]:
  "queues_inv (s\<lparr>outbound_rx := x_outbound_rx\<rparr>) = queues_inv s"
  "queues_inv (s\<lparr>pending_credit := x_pending_credit\<rparr>) = queues_inv s"
  "queues_inv (s\<lparr>credit_notify := x_credit_notify\<rparr>) = queues_inv s"
  "queues_inv (s\<lparr>accept_uni_tx := x_accept_uni_tx\<rparr>) = queues_inv s"
  "queues_inv (s\<lparr>accept_bi_tx := x_accept_bi_tx\<rparr>) = queues_inv s"
  "queues_inv (s\<lparr>streams := x_streams\<rparr>) = queues_inv s"
  "queues_inv (s\<lparr>send_flows := x_send_flows\<rparr>) = queues_inv s"
  "queues_inv (s\<lparr>next_uni := x_next_uni\<rparr>) = queues_inv s"
  "queues_inv (s\<lparr>next_bi := x_next_bi\<rparr>) = queues_inv s"
  "queues_inv (s\<lparr>next_peer_uni := x_next_peer_uni\<rparr>) = queues_inv s"
  "queues_inv (s\<lparr>next_peer_bi := x_next_peer_bi\<rparr>) = queues_inv s"
  "queues_inv (s\<lparr>closed := x_closed\<rparr>) = queues_inv s"
  "queues_inv (s\<lparr>shutdown_started := x_shutdown_started\<rparr>) = queues_inv s"
  "queues_inv (s\<lparr>peer_closed := x_peer_closed\<rparr>) = queues_inv s"
  "queues_inv (s\<lparr>peer_close_notify := x_peer_close_notify\<rparr>) = queues_inv s"
  "queues_inv (s\<lparr>session_handles := x_session_handles\<rparr>) = queues_inv s"
  "queues_inv (s\<lparr>active_tasks := x_active_tasks\<rparr>) = queues_inv s"
  "queues_inv (s\<lparr>cancelled := x_cancelled\<rparr>) = queues_inv s"
  "queues_inv (s\<lparr>accept_rx := x_accept_rx\<rparr>) = queues_inv s"
  "queues_inv (s\<lparr>flow_mem := x_flow_mem\<rparr>) = queues_inv s"
  "queues_inv (s\<lparr>chan_mem := x_chan_mem\<rparr>) = queues_inv s"
  "queues_inv (s\<lparr>shared_mem := x_shared_mem\<rparr>) = queues_inv s"
  "queues_inv (s\<lparr>ack_mem := x_ack_mem\<rparr>) = queues_inv s"
  "queues_inv (s\<lparr>next_ref := x_next_ref\<rparr>) = queues_inv s"
  by (simp_all add: queues_inv_def)

lemma flows_inv_frame [simp]:
  "flows_inv (s\<lparr>outbound := x_outbound\<rparr>) = flows_inv s"
  "flows_inv (s\<lparr>outbound_rx := x_outbound_rx\<rparr>) = flows_inv s"
  "flows_inv (s\<lparr>pending_credit := x_pending_credit\<rparr>) = flows_inv s"
  "flows_inv (s\<lparr>credit_notify := x_credit_notify\<rparr>) = flows_inv s"
  "flows_inv (s\<lparr>accept_uni_tx := x_accept_uni_tx\<rparr>) = flows_inv s"
  "flows_inv (s\<lparr>accept_bi_tx := x_accept_bi_tx\<rparr>) = flows_inv s"
  "flows_inv (s\<lparr>streams := x_streams\<rparr>) = flows_inv s"
  "flows_inv (s\<lparr>next_uni := x_next_uni\<rparr>) = flows_inv s"
  "flows_inv (s\<lparr>next_bi := x_next_bi\<rparr>) = flows_inv s"
  "flows_inv (s\<lparr>next_peer_uni := x_next_peer_uni\<rparr>) = flows_inv s"
  "flows_inv (s\<lparr>next_peer_bi := x_next_peer_bi\<rparr>) = flows_inv s"
  "flows_inv (s\<lparr>closed := x_closed\<rparr>) = flows_inv s"
  "flows_inv (s\<lparr>shutdown_started := x_shutdown_started\<rparr>) = flows_inv s"
  "flows_inv (s\<lparr>peer_closed := x_peer_closed\<rparr>) = flows_inv s"
  "flows_inv (s\<lparr>peer_close_notify := x_peer_close_notify\<rparr>) = flows_inv s"
  "flows_inv (s\<lparr>session_handles := x_session_handles\<rparr>) = flows_inv s"
  "flows_inv (s\<lparr>active_tasks := x_active_tasks\<rparr>) = flows_inv s"
  "flows_inv (s\<lparr>cancelled := x_cancelled\<rparr>) = flows_inv s"
  "flows_inv (s\<lparr>accept_rx := x_accept_rx\<rparr>) = flows_inv s"
  "flows_inv (s\<lparr>accept_uni_queue := x_accept_uni_queue\<rparr>) = flows_inv s"
  "flows_inv (s\<lparr>accept_bi_queue := x_accept_bi_queue\<rparr>) = flows_inv s"
  "flows_inv (s\<lparr>chan_mem := x_chan_mem\<rparr>) = flows_inv s"
  "flows_inv (s\<lparr>shared_mem := x_shared_mem\<rparr>) = flows_inv s"
  "flows_inv (s\<lparr>ack_mem := x_ack_mem\<rparr>) = flows_inv s"
  by (simp_all add: flows_inv_def)

lemma streams_inv_frame [simp]:
  "streams_inv (s\<lparr>outbound := x_outbound\<rparr>) = streams_inv s"
  "streams_inv (s\<lparr>outbound_rx := x_outbound_rx\<rparr>) = streams_inv s"
  "streams_inv (s\<lparr>pending_credit := x_pending_credit\<rparr>) = streams_inv s"
  "streams_inv (s\<lparr>credit_notify := x_credit_notify\<rparr>) = streams_inv s"
  "streams_inv (s\<lparr>accept_uni_tx := x_accept_uni_tx\<rparr>) = streams_inv s"
  "streams_inv (s\<lparr>accept_bi_tx := x_accept_bi_tx\<rparr>) = streams_inv s"
  "streams_inv (s\<lparr>send_flows := x_send_flows\<rparr>) = streams_inv s"
  "streams_inv (s\<lparr>next_uni := x_next_uni\<rparr>) = streams_inv s"
  "streams_inv (s\<lparr>next_bi := x_next_bi\<rparr>) = streams_inv s"
  "streams_inv (s\<lparr>next_peer_uni := x_next_peer_uni\<rparr>) = streams_inv s"
  "streams_inv (s\<lparr>next_peer_bi := x_next_peer_bi\<rparr>) = streams_inv s"
  "streams_inv (s\<lparr>closed := x_closed\<rparr>) = streams_inv s"
  "streams_inv (s\<lparr>shutdown_started := x_shutdown_started\<rparr>) = streams_inv s"
  "streams_inv (s\<lparr>peer_closed := x_peer_closed\<rparr>) = streams_inv s"
  "streams_inv (s\<lparr>peer_close_notify := x_peer_close_notify\<rparr>) = streams_inv s"
  "streams_inv (s\<lparr>session_handles := x_session_handles\<rparr>) = streams_inv s"
  "streams_inv (s\<lparr>active_tasks := x_active_tasks\<rparr>) = streams_inv s"
  "streams_inv (s\<lparr>cancelled := x_cancelled\<rparr>) = streams_inv s"
  "streams_inv (s\<lparr>accept_rx := x_accept_rx\<rparr>) = streams_inv s"
  "streams_inv (s\<lparr>accept_uni_queue := x_accept_uni_queue\<rparr>) = streams_inv s"
  "streams_inv (s\<lparr>accept_bi_queue := x_accept_bi_queue\<rparr>) = streams_inv s"
  "streams_inv (s\<lparr>flow_mem := x_flow_mem\<rparr>) = streams_inv s"
  "streams_inv (s\<lparr>shared_mem := x_shared_mem\<rparr>) = streams_inv s"
  "streams_inv (s\<lparr>ack_mem := x_ack_mem\<rparr>) = streams_inv s"
  by (simp_all add: streams_inv_def)

lemma credit_inv_frame [simp]:
  "credit_inv (s\<lparr>outbound := x_outbound\<rparr>) = credit_inv s"
  "credit_inv (s\<lparr>outbound_rx := x_outbound_rx\<rparr>) = credit_inv s"
  "credit_inv (s\<lparr>credit_notify := x_credit_notify\<rparr>) = credit_inv s"
  "credit_inv (s\<lparr>accept_uni_tx := x_accept_uni_tx\<rparr>) = credit_inv s"
  "credit_inv (s\<lparr>accept_bi_tx := x_accept_bi_tx\<rparr>) = credit_inv s"
  "credit_inv (s\<lparr>streams := x_streams\<rparr>) = credit_inv s"
  "credit_inv (s\<lparr>send_flows := x_send_flows\<rparr>) = credit_inv s"
  "credit_inv (s\<lparr>next_uni := x_next_uni\<rparr>) = credit_inv s"
  "credit_inv (s\<lparr>next_bi := x_next_bi\<rparr>) = credit_inv s"
  "credit_inv (s\<lparr>next_peer_uni := x_next_peer_uni\<rparr>) = credit_inv s"
  "credit_inv (s\<lparr>next_peer_bi := x_next_peer_bi\<rparr>) = credit_inv s"
  "credit_inv (s\<lparr>closed := x_closed\<rparr>) = credit_inv s"
  "credit_inv (s\<lparr>shutdown_started := x_shutdown_started\<rparr>) = credit_inv s"
  "credit_inv (s\<lparr>peer_closed := x_peer_closed\<rparr>) = credit_inv s"
  "credit_inv (s\<lparr>peer_close_notify := x_peer_close_notify\<rparr>) = credit_inv s"
  "credit_inv (s\<lparr>session_handles := x_session_handles\<rparr>) = credit_inv s"
  "credit_inv (s\<lparr>active_tasks := x_active_tasks\<rparr>) = credit_inv s"
  "credit_inv (s\<lparr>cancelled := x_cancelled\<rparr>) = credit_inv s"
  "credit_inv (s\<lparr>accept_rx := x_accept_rx\<rparr>) = credit_inv s"
  "credit_inv (s\<lparr>accept_uni_queue := x_accept_uni_queue\<rparr>) = credit_inv s"
  "credit_inv (s\<lparr>accept_bi_queue := x_accept_bi_queue\<rparr>) = credit_inv s"
  "credit_inv (s\<lparr>flow_mem := x_flow_mem\<rparr>) = credit_inv s"
  "credit_inv (s\<lparr>chan_mem := x_chan_mem\<rparr>) = credit_inv s"
  "credit_inv (s\<lparr>shared_mem := x_shared_mem\<rparr>) = credit_inv s"
  "credit_inv (s\<lparr>ack_mem := x_ack_mem\<rparr>) = credit_inv s"
  "credit_inv (s\<lparr>next_ref := x_next_ref\<rparr>) = credit_inv s"
  by (simp_all add: credit_inv_def)

lemma ids_inv_frame [simp]:
  "ids_inv (s\<lparr>outbound := x_outbound\<rparr>) = ids_inv s"
  "ids_inv (s\<lparr>outbound_rx := x_outbound_rx\<rparr>) = ids_inv s"
  "ids_inv (s\<lparr>pending_credit := x_pending_credit\<rparr>) = ids_inv s"
  "ids_inv (s\<lparr>credit_notify := x_credit_notify\<rparr>) = ids_inv s"
  "ids_inv (s\<lparr>accept_uni_tx := x_accept_uni_tx\<rparr>) = ids_inv s"
  "ids_inv (s\<lparr>accept_bi_tx := x_accept_bi_tx\<rparr>) = ids_inv s"
  "ids_inv (s\<lparr>next_uni := x_next_uni\<rparr>) = ids_inv s"
  "ids_inv (s\<lparr>next_bi := x_next_bi\<rparr>) = ids_inv s"
  "ids_inv (s\<lparr>closed := x_closed\<rparr>) = ids_inv s"
  "ids_inv (s\<lparr>shutdown_started := x_shutdown_started\<rparr>) = ids_inv s"
  "ids_inv (s\<lparr>peer_closed := x_peer_closed\<rparr>) = ids_inv s"
  "ids_inv (s\<lparr>peer_close_notify := x_peer_close_notify\<rparr>) = ids_inv s"
  "ids_inv (s\<lparr>session_handles := x_session_handles\<rparr>) = ids_inv s"
  "ids_inv (s\<lparr>active_tasks := x_active_tasks\<rparr>) = ids_inv s"
  "ids_inv (s\<lparr>cancelled := x_cancelled\<rparr>) = ids_inv s"
  "ids_inv (s\<lparr>accept_rx := x_accept_rx\<rparr>) = ids_inv s"
  "ids_inv (s\<lparr>accept_uni_queue := x_accept_uni_queue\<rparr>) = ids_inv s"
  "ids_inv (s\<lparr>accept_bi_queue := x_accept_bi_queue\<rparr>) = ids_inv s"
  "ids_inv (s\<lparr>flow_mem := x_flow_mem\<rparr>) = ids_inv s"
  "ids_inv (s\<lparr>chan_mem := x_chan_mem\<rparr>) = ids_inv s"
  "ids_inv (s\<lparr>shared_mem := x_shared_mem\<rparr>) = ids_inv s"
  "ids_inv (s\<lparr>ack_mem := x_ack_mem\<rparr>) = ids_inv s"
  "ids_inv (s\<lparr>next_ref := x_next_ref\<rparr>) = ids_inv s"
  by (simp_all add: ids_inv_defs cong: stream_dir.case_cong)

lemma below_frontier_frame [simp]:
  "below_frontier (s\<lparr>outbound := x_outbound\<rparr>) = below_frontier s"
  "below_frontier (s\<lparr>outbound_rx := x_outbound_rx\<rparr>) = below_frontier s"
  "below_frontier (s\<lparr>pending_credit := x_pending_credit\<rparr>) = below_frontier s"
  "below_frontier (s\<lparr>credit_notify := x_credit_notify\<rparr>) = below_frontier s"
  "below_frontier (s\<lparr>accept_uni_tx := x_accept_uni_tx\<rparr>) = below_frontier s"
  "below_frontier (s\<lparr>accept_bi_tx := x_accept_bi_tx\<rparr>) = below_frontier s"
  "below_frontier (s\<lparr>streams := x_streams\<rparr>) = below_frontier s"
  "below_frontier (s\<lparr>send_flows := x_send_flows\<rparr>) = below_frontier s"
  "below_frontier (s\<lparr>next_uni := x_next_uni\<rparr>) = below_frontier s"
  "below_frontier (s\<lparr>next_bi := x_next_bi\<rparr>) = below_frontier s"
  "below_frontier (s\<lparr>closed := x_closed\<rparr>) = below_frontier s"
  "below_frontier (s\<lparr>shutdown_started := x_shutdown_started\<rparr>) = below_frontier s"
  "below_frontier (s\<lparr>peer_closed := x_peer_closed\<rparr>) = below_frontier s"
  "below_frontier (s\<lparr>peer_close_notify := x_peer_close_notify\<rparr>) = below_frontier s"
  "below_frontier (s\<lparr>session_handles := x_session_handles\<rparr>) = below_frontier s"
  "below_frontier (s\<lparr>active_tasks := x_active_tasks\<rparr>) = below_frontier s"
  "below_frontier (s\<lparr>cancelled := x_cancelled\<rparr>) = below_frontier s"
  "below_frontier (s\<lparr>accept_rx := x_accept_rx\<rparr>) = below_frontier s"
  "below_frontier (s\<lparr>accept_uni_queue := x_accept_uni_queue\<rparr>) = below_frontier s"
  "below_frontier (s\<lparr>accept_bi_queue := x_accept_bi_queue\<rparr>) = below_frontier s"
  "below_frontier (s\<lparr>flow_mem := x_flow_mem\<rparr>) = below_frontier s"
  "below_frontier (s\<lparr>chan_mem := x_chan_mem\<rparr>) = below_frontier s"
  "below_frontier (s\<lparr>shared_mem := x_shared_mem\<rparr>) = below_frontier s"
  "below_frontier (s\<lparr>ack_mem := x_ack_mem\<rparr>) = below_frontier s"
  "below_frontier (s\<lparr>next_ref := x_next_ref\<rparr>) = below_frontier s"
  by (simp_all add: fun_eq_iff below_frontier_def peer_frontier_def peer_is_server_def cong: stream_dir.case_cong)

section \<open>Map entries\<close>

lemma hm_contains_remove [hmap_simps]: "hm_contains k (hm_remove i m) \<longleftrightarrow> k \<noteq> i \<and> hm_contains k m"
  by (simp add: hm_contains_def hm_get_remove)

lemma hm_contains_insert [hmap_simps]: "hm_contains k (hm_insert i v m) \<longleftrightarrow> k = i \<or> hm_contains k m"
  by (simp add: hm_contains_def hm_get_insert)

lemma hm_contains_Nil [simp]: "\<not> hm_contains k []"
  by (simp add: hm_contains_def hm_get_Nil)

section \<open>Closing and sending\<close>

lemma close_flows_ok:
  "\<forall>r. flow_ok (mem r) \<Longrightarrow> flow_ok (close_flows fs mem r)"
  unfolding close_flows_def
  by (induction fs arbitrary: mem) (auto simp: flow_ok_def)

lemma session_inv_new: "limits_ok 64 l \<Longrightarrow> session_inv (session_inner_new server l)"
  by (auto simp: session_inv_def session_inv_parts session_inner_new_def hm_get_Nil)

lemma session_inv_request_shutdown [inv_intros]: "session_inv s \<Longrightarrow> session_inv (request_shutdown s)"
  by (simp add: session_inv_def request_shutdown_def)

lemma session_inv_close_all [inv_intros]: "session_inv s \<Longrightarrow> session_inv (close_all s)"
  by (simp add: session_inv_def close_all_def flows_inv_def streams_inv_def credit_inv_def ids_inv_def
      close_flows_ok hm_get_Nil)

lemma session_inv_push [inv_intros]:
  "session_inv s \<Longrightarrow> cmd_ok c \<Longrightarrow> \<not> outbound_full s \<Longrightarrow> session_inv (outbound_push c s)"
  by (simp add: session_inv_def outbound_push_def outbound_full_def queues_inv_def)

lemma session_inv_try_send [inv_steps]:
  "session_inv s \<Longrightarrow> cmd_ok c \<Longrightarrow> outbound_try_send c s = (r, s') \<Longrightarrow> session_inv s'"
  by (auto simp: outbound_try_send_def intro: inv_intros split: if_splits)

lemma session_inv_try_send_frame [inv_steps]:
  "session_inv s \<Longrightarrow> frame_wf 64 f \<Longrightarrow> try_send_frame f s = (r, s') \<Longrightarrow> session_inv s'"
  by (auto simp: try_send_frame_def dest: session_inv_try_send [rotated 2] split: if_splits prod.splits sum.splits)

lemma session_inv_send_frame_resume [inv_steps]:
  "session_inv s \<Longrightarrow> frame_wf 64 f \<Longrightarrow> send_frame_resume f s = (r, s') \<Longrightarrow> session_inv s'"
  by (auto simp: send_frame_resume_def intro: inv_intros split: if_splits frame.splits)

lemma session_inv_send_frame [inv_steps]:
  "session_inv s \<Longrightarrow> frame_wf 64 f \<Longrightarrow> send_frame f s = (r, s') \<Longrightarrow> session_inv s'"
  by (auto simp: send_frame_def intro: session_inv_send_frame_resume split: if_splits)

lemma session_inv_protocol_error [inv_steps]:
  assumes "session_inv s" and "frame_wf 64 (ConnectionClose code reason)"
    and "protocol_error code reason s = (r, s')"
  shows "session_inv s'"
  using assms session_inv_try_send_frame [of s "ConnectionClose code reason"]
  by (cases "try_send_frame (ConnectionClose code reason) s")
    (auto simp: protocol_error_def intro: session_inv_close_all)

section \<open>Identifiers\<close>

lemma counter_less: "unat (stream_id_counter i) < 2 ^ 62"
  unfolding stream_id_counter_def
  by (rule unat_less_of_bits) (auto simp: bit_drop_bit_eq dest: bit_imp_le_length)

lemma unat_counter_succ: "unat (saturating_add (stream_id_counter i) 1) = Suc (unat (stream_id_counter i))"
  using counter_less [of i] by (simp add: unat_saturating_add)

lemma next_stream_id_result:
  assumes "next_stream_id d s = (Inr i, s')"
  shows "in_varint (sid i)" "initiator_is_server i = is_server s" "stream_id_dir i = d"
    "stream_id_counter i = (case d of Uni \<Rightarrow> next_uni s | Bi \<Rightarrow> next_bi s)"
  using assms stream_id_fields
  by (auto simp: next_stream_id_def stream_id_new_eq Let_def
      split: stream_dir.splits sum.splits if_splits varint_bounds_exceeded.splits prod.splits)

lemma session_inv_next_stream_id [inv_steps]:
  "session_inv s \<Longrightarrow> next_stream_id d s = (r, s') \<Longrightarrow> session_inv s'"
  by (auto simp: next_stream_id_def session_inv_def
      split: stream_dir.splits sum.splits varint_bounds_exceeded.splits)

lemma next_stream_id_fields:
  assumes "next_stream_id d s = (r, s')"
  shows "is_server s' = is_server s" "streams s' = streams s" "send_flows s' = send_flows s"
    "limits_of s' = limits_of s"
  using assms by (auto simp: next_stream_id_def split: stream_dir.splits sum.splits varint_bounds_exceeded.splits)

lemma validate_peer_result:
  assumes "validate_peer_stream_id i s = (True, s')"
  shows "below_frontier s' i" "peer_frontier (stream_id_dir i) s \<le> stream_id_counter i"
    "is_server s' = is_server s" "streams s' = streams s" "send_flows s' = send_flows s"
    "limits_of s' = limits_of s" "\<And>j. below_frontier s j \<Longrightarrow> below_frontier s' j"
  using assms
  by (auto simp: validate_peer_stream_id_def below_frontier_def peer_frontier_def peer_is_server_def
      word_less_nat_alt word_le_nat_alt unat_counter_succ split: stream_dir.splits if_splits)

lemma session_inv_validate_peer [inv_steps]:
  assumes "session_inv s" and "validate_peer_stream_id i s = (b, s')"
  shows "session_inv s'"
proof (cases b)
  case True
  have "ids_inv s'"
    using assms True validate_peer_result [of i s s'] by (auto simp: session_inv_def ids_inv_def)
  with assms True show ?thesis
    by (auto simp: validate_peer_stream_id_def session_inv_def split: stream_dir.splits if_splits)
next
  case False
  with assms show ?thesis
    by (auto simp: validate_peer_stream_id_def split: stream_dir.splits if_splits)
qed

section \<open>Send directions\<close>

lemma flows_inv_next_ref [simp]: "flows_inv s \<Longrightarrow> next_ref s \<le> n \<Longrightarrow> flows_inv (s\<lparr>next_ref := n\<rparr>)"
  by (fastforce simp: flows_inv_def)

lemma streams_inv_next_ref [simp]: "streams_inv s \<Longrightarrow> next_ref s \<le> n \<Longrightarrow> streams_inv (s\<lparr>next_ref := n\<rparr>)"
  by (fastforce simp: streams_inv_def)

lemma flows_inv_register:
  assumes "flows_inv s" "in_varint (sid i)" "\<not> hm_contains i (send_flows s)"
    and "length (send_flows s) < max_open_streams (limits_of s)"
  shows "flows_inv (s\<lparr>flow_mem := (flow_mem s)(next_ref s := flow_new m), next_ref := Suc (next_ref s),
           send_flows := hm_insert i (next_ref s) (send_flows s)\<rparr>)"
proof -
  have "hm_get (send_flows s) j \<noteq> Some (next_ref s)" for j
    using assms(1) by (auto simp: flows_inv_def)
  then show ?thesis
    using assms
    by (auto simp: flows_inv_def length_hm_insert hmap_simps hm_contains_def flow_new_def less_SucI
        flow_ok_def)
qed

lemma session_inv_register_send_flow [inv_steps]:
  assumes "session_inv s" "in_varint (sid i)" "below_frontier s i"
    and "register_send_flow i m s = (r, s')"
  shows "session_inv s'"
proof -
  have "ids_inv s'"
    using assms by (auto simp: register_send_flow_def session_inv_def ids_inv_def hmap_simps Let_def
        split: if_splits)
  then show ?thesis
    using assms flows_inv_register [of s i m]
    by (auto simp: register_send_flow_def session_inv_def Let_def split: if_splits)
qed

lemma flows_inv_flow_update:
  assumes "flows_inv s" and "flow_ok (flow_mem s r) \<Longrightarrow> flow_ok (g (flow_mem s r))"
    and "\<And>i. hm_get (send_flows s) i = Some r \<Longrightarrow> \<not> flow_closed (flow_mem s r) \<Longrightarrow>
      \<not> flow_closed (g (flow_mem s r))"
  shows "flows_inv (flow_update r g s)"
  using assms by (auto simp: flows_inv_def flow_update_def)

lemma session_inv_flow_update [inv_intros]:
  assumes "session_inv s" and "flow_ok (flow_mem s r) \<Longrightarrow> flow_ok (g (flow_mem s r))"
    and "\<And>i. hm_get (send_flows s) i = Some r \<Longrightarrow> \<not> flow_closed (flow_mem s r) \<Longrightarrow>
      \<not> flow_closed (g (flow_mem s r))"
  shows "session_inv (flow_update r g s)"
proof -
  have "flows_inv (flow_update r g s)"
    using assms by (intro flows_inv_flow_update) (auto simp: session_inv_def)
  then show ?thesis using assms(1) by (simp add: session_inv_def) (simp add: flow_update_def)
qed

lemma session_inv_remove_send_flow [inv_steps]:
  assumes "session_inv s" and "remove_send_flow i s = (b, s')"
  shows "session_inv s'"
proof (cases "hm_get (send_flows s) i")
  case None
  then show ?thesis using assms by (simp add: remove_send_flow_def)
next
  case (Some r)
  let ?s = "s\<lparr>send_flows := hm_remove i (send_flows s)\<rparr>"
  have "ids_inv ?s" using assms(1) by (auto simp: session_inv_def ids_inv_def hmap_simps)
  moreover have "flows_inv ?s"
    using assms(1) by (simp add: session_inv_def flows_inv_def hmap_simps hm.remove_bounded) 
  ultimately have "session_inv ?s" using assms(1) by (simp add: session_inv_def)
  moreover have "hm_get (send_flows ?s) j \<noteq> Some r" for j
    using assms(1) Some by (auto simp: session_inv_def flows_inv_def hmap_simps)
  ultimately have "session_inv (flow_update r flow_close ?s)"
    by (intro session_inv_flow_update) (auto simp: flow_ok_def)
  with assms(2) Some show ?thesis by (simp add: remove_send_flow_def)
qed

lemma session_inv_shared_update [inv_intros]: "session_inv s \<Longrightarrow> session_inv (shared_update r g s)"
  by (simp add: session_inv_def shared_update_def)

lemma session_inv_send_stream_new [inv_steps]:
  "session_inv s \<Longrightarrow> send_stream_new i flow s = (ss, s') \<Longrightarrow> session_inv s'"
  by (auto simp: send_stream_new_def session_inv_def Let_def)

lemma frame_wf_control:
  "in_varint (sid i) \<Longrightarrow> frame_wf 64 (OpenUni i)" "in_varint (sid i) \<Longrightarrow> frame_wf 64 (OpenBi i)"
  "in_varint (sid i) \<Longrightarrow> in_varint c \<Longrightarrow> frame_wf 64 (ResetStream i c)"
  "in_varint (sid i) \<Longrightarrow> in_varint c \<Longrightarrow> frame_wf 64 (StopSending i c)"
  "in_varint (sid i) \<Longrightarrow> in_varint c \<Longrightarrow> frame_wf 64 (MaxStreamData i c)"
  by (simp_all add: frame_wf_def)

lemma in_varint_0 [simp]: "in_varint 0"
  by (simp add: in_varint_def)

lemma session_inv_send_stream_drop [inv_intros]:
  assumes "session_inv s" and "ss_ok ss"
  shows "session_inv (send_stream_drop ss s)"
proof -
  have wf: "frame_wf 64 (ResetStream (ss_id ss) 0)"
    using assms(2) by (simp add: frame_wf_control ss_ok_def)
  obtain b s1 where s1: "remove_send_flow (ss_id ss) s = (b, s1)" by fastforce
  have inv1: "session_inv s1" by (rule session_inv_remove_send_flow [OF assms(1) s1])
  obtain r s2 where s2: "try_send_frame (ResetStream (ss_id ss) 0) s1 = (r, s2)" by fastforce
  have "session_inv s2" by (rule session_inv_try_send_frame [OF inv1 wf s2])
  with assms(1) inv1 s1 s2 show ?thesis
    by (auto simp: send_stream_drop_def Let_def intro!: inv_intros split: sum.splits)
qed

section \<open>Receive directions\<close>

lemma register_recv_fields:
  assumes "register_recv_stream i s = (rv, s')"
  shows "rv_id rv = i" "limits_of s' = limits_of s" "send_flows s' = send_flows s"
    "below_frontier s' j = below_frontier s j" "is_server s' = is_server s"
  using assms by (auto simp: register_recv_stream_def recv_stream_new_def Let_def)

lemma streams_inv_remove: "streams_inv s \<Longrightarrow> streams_inv (s\<lparr>streams := hm_remove i (streams s)\<rparr>)"
  by (simp add: streams_inv_def hmap_simps)

lemma ids_inv_remove: "ids_inv s \<Longrightarrow> ids_inv (s\<lparr>streams := hm_remove i (streams s)\<rparr>)"
  by (auto simp: ids_inv_def hmap_simps)

lemma streams_inv_insert:
  assumes "streams_inv s" "hm_get (streams s) i = Some st"
    and "sender st' = sender st" "received st' \<le> chan_max (chan_mem s (sender st))"
  shows "streams_inv (s\<lparr>streams := hm_insert i st' (streams s)\<rparr>)"
proof -
  have "hm_get (streams s) j = Some q \<Longrightarrow> sender q = sender st \<Longrightarrow> j = i" for j q
    using assms(1,2) by (auto simp: streams_inv_def)
  then show ?thesis
    using assms unfolding streams_inv_def by (auto simp: hmap_simps split: if_splits)
qed

lemma ids_inv_insert:
  "ids_inv s \<Longrightarrow> below_frontier s i \<Longrightarrow> ids_inv (s\<lparr>streams := hm_insert i st (streams s)\<rparr>)"
  by (auto simp: ids_inv_def hmap_simps)

lemma streams_inv_register:
  assumes "streams_inv s" "in_varint (sid i)"
  shows "streams_inv (s\<lparr>chan_mem := (chan_mem s)(next_ref s := \<lparr>items = [], rx_open = True, chan_max = m\<rparr>),
    next_ref := Suc (next_ref s),
    streams := hm_insert i \<lparr>stopped = False, sender = next_ref s, received = 0\<rparr> (streams s)\<rparr>)"
proof -
  have "\<forall>j st. hm_get (streams s) j = Some st \<longrightarrow> sender st < next_ref s"
    using assms(1) by (auto simp: streams_inv_def)
  then have "\<forall>j st. hm_get (streams s) j = Some st \<longrightarrow> sender st \<noteq> next_ref s \<and> sender st < Suc (next_ref s)"
    by fastforce
  then show ?thesis
    using assms unfolding streams_inv_def by (auto simp: hmap_simps split: if_splits) blast
qed

lemma session_inv_register_recv_stream [inv_steps]:
  assumes "session_inv s" "in_varint (sid i)" "below_frontier s i"
    and "register_recv_stream i s = (rv, s')"
  shows "session_inv s'"
proof -
  have "ids_inv s'"
    using assms by (auto simp: register_recv_stream_def session_inv_def ids_inv_def hmap_simps Let_def)
  then show ?thesis
    using assms streams_inv_register [of s i]
    by (auto simp: register_recv_stream_def session_inv_def Let_def)
qed

lemma session_inv_remove_recv_stream [inv_steps]:
  assumes "session_inv s" and "remove_recv_stream i s = (b, s')"
  shows "session_inv s'"
  using assms by (auto simp: remove_recv_stream_def session_inv_def streams_inv_remove ids_inv_remove)

lemma credit_inv_remove: "credit_inv s \<Longrightarrow> credit_inv (s\<lparr>pending_credit := hm_remove i (pending_credit s)\<rparr>)"
  by (simp add: credit_inv_def hmap_simps hm.remove_bounded)

lemma session_inv_stop_recv_stream [inv_steps]:
  assumes "session_inv s" and "stop_recv_stream i s = (b, s')"
  shows "session_inv s'"
proof (cases "hm_get (streams s) i")
  case (Some st)
  let ?s = "s\<lparr>streams := hm_insert i (st\<lparr>stopped := True\<rparr>) (streams s)\<rparr>"
  have "streams_inv ?s"
    using assms(1) Some by (intro streams_inv_insert) (auto simp: session_inv_def streams_inv_def)
  moreover have "ids_inv ?s"
    using assms(1) Some by (intro ids_inv_insert) (auto simp: session_inv_def ids_inv_def hm_contains_def)
  moreover have "credit_inv (?s\<lparr>pending_credit := hm_remove i (pending_credit s)\<rparr>)"
    using assms(1) credit_inv_remove [of ?s i] by (simp add: session_inv_def)
  ultimately show ?thesis
    using assms Some by (auto simp: stop_recv_stream_def session_inv_def)
qed (use assms in \<open>simp add: stop_recv_stream_def\<close>)

lemma session_inv_chan_update [inv_intros]:
  assumes "session_inv s"
    and "length (items (g (chan_mem s r)))
      \<le> max (length (items (chan_mem s r))) (recv_event_queue_len (limits_of s))"
    and "chan_max (chan_mem s r) \<le> chan_max (g (chan_mem s r))"
  shows "session_inv (chan_update r g s)"
proof -
  have inv: "streams_inv s" using assms(1) by (simp add: session_inv_def)
  then have "length (items (g (chan_mem s r))) \<le> recv_event_queue_len (limits_of s)"
    using assms(2) by (simp add: streams_inv_def)
  moreover have "received st \<le> chan_max (g (chan_mem s (sender st)))"
    if "hm_get (streams s) i = Some st" "sender st = r" for i st
    using that inv assms(3) by (fastforce simp: streams_inv_def intro: order_trans)
  ultimately have "streams_inv (chan_update r g s)"
    using inv by (simp add: streams_inv_def chan_update_def)
  then show ?thesis using assms(1) by (simp add: session_inv_def) (simp add: chan_update_def)
qed

lemma session_inv_recv_stream_drop [inv_intros]:
  assumes "session_inv s" and "rv_ok rv"
  shows "session_inv (recv_stream_drop rv s)"
proof -
  have wf: "frame_wf 64 (StopSending (rv_id rv) 0)"
    using assms(2) by (simp add: frame_wf_control rv_ok_def)
  obtain b s1 where s1: "stop_recv_stream (rv_id rv) s = (b, s1)" by fastforce
  have inv1: "session_inv s1" by (rule session_inv_stop_recv_stream [OF assms(1) s1])
  obtain r s2 where s2: "try_send_frame (StopSending (rv_id rv) 0) s1 = (r, s2)" by fastforce
  have "session_inv s2" by (rule session_inv_try_send_frame [OF inv1 wf s2])
  with inv1 s1 s2 show ?thesis
    by (auto simp: recv_stream_drop_def Let_def intro!: inv_intros split: sum.splits)
qed

section \<open>Receive credit\<close>

lemma session_inv_queue_credit [inv_intros]:
  assumes "session_inv s" and "in_varint m"
  shows "session_inv (queue_credit i m s)"
proof -
  define pend where "pend = (if max_open_streams (limits_of s) \<le> length (pending_credit s)
    then hm_retain (\<lambda>k. hm_contains k (streams s)) (pending_credit s) else pending_credit s)"
  have pend: "hm_ok pend" "length pend \<le> max_open_streams (limits_of s)"
      "\<And>j x. hm_get pend j = Some x \<Longrightarrow> in_varint (sid j) \<and> in_varint x"
    using assms(1) le_trans [OF length_retain_le]
    by (auto simp: pend_def session_inv_def credit_inv_def hmap_simps split: if_splits)
  have i: "hm_get (streams s) i \<noteq> None \<Longrightarrow> in_varint (sid i)"
    using assms(1) by (auto simp: session_inv_def streams_inv_def)
  have "credit_inv (s\<lparr>pending_credit := pend\<rparr>)"
    using pend by (auto simp: credit_inv_def)
  moreover have "credit_inv (s\<lparr>pending_credit := hm_insert i (case hm_get pend i of None \<Rightarrow> m | Some old \<Rightarrow> max old m) pend\<rparr>)"
    if "hm_get (streams s) i \<noteq> None" "length pend < max_open_streams (limits_of s) \<or> hm_contains i pend"
    using that pend i assms(2) hm.insert_bounded [of pend "max_open_streams (limits_of s)" i]
    by (auto simp: credit_inv_def hmap_simps hm_contains_def max_def split: option.splits)
  ultimately show ?thesis
    using assms(1)
    by (auto simp: queue_credit_def pend_def [symmetric] Let_def session_inv_def request_shutdown_def
        split: option.splits)
qed

lemma session_inv_next_credit [inv_steps]:
  assumes "session_inv s" and "next_credit k s = (r, s')"
  shows "session_inv s'"
proof (cases "pending_credit s")
  case (Cons e q)
  obtain i where "s' = s\<lparr>pending_credit := hm_remove i (pending_credit s)\<rparr>"
    using assms(2) Cons by (cases e) (auto simp: next_credit_def Let_def split: option.splits)
  then show ?thesis using assms(1) credit_inv_remove [of s i] by (simp add: session_inv_def)
qed (use assms in \<open>auto simp: next_credit_def session_inv_def\<close>)

lemma next_credit_frame_wf:
  assumes "session_inv s" and "next_credit k s = (Ready f, s')"
  shows "frame_wf 64 f"
proof -
  have wf: "in_varint (sid i) \<and> in_varint m" if "hm_get (pending_credit s) i = Some m" for i m
    using assms(1) that by (auto simp: session_inv_def credit_inv_def)
  obtain i m where "f = MaxStreamData i m" "hm_get (pending_credit s) i = Some m"
    using assms(2) by (auto simp: next_credit_def Let_def hm_get_Cons split: list.splits option.splits)
  with wf show ?thesis by (simp add: frame_wf_control)
qed

end
