(* ===== verification/Session_Safety.thy ===== *)
theory Session_Safety
  imports Session_Inv
begin

text \<open>
  Preservation of the session invariant by the frame handler, the two tasks and every public
  operation, on every branch: completed, suspended, resumed and cancelled.
\<close>

section \<open>Close reasons\<close>

definition ascii :: "string \<Rightarrow> bool" where
  "ascii r \<longleftrightarrow> list_all (\<lambda>c. \<not> digit7 c) r"

lemma of_char_ascii: "\<not> digit7 c \<Longrightarrow> (of_char c :: nat) \<le> 127"
  by (cases c) (auto simp: of_char_Char)

lemma ascii_reason_wf:
  assumes "ascii reason" "length reason < 2 ^ 62" "in_varint code"
  shows "frame_wf 64 (ConnectionClose code reason)"
proof -
  have "(of_nat (of_char c) :: u8) \<le> 127" if "\<not> digit7 c" for c
    using of_char_ascii [OF that] by (simp add: word_le_nat_alt unat_of_char)
  then have "list_all (\<lambda>b. b \<le> 127) (as_bytes reason)"
    using assms(1) by (induction reason) (auto simp: as_bytes_def ascii_def)
  then show ?thesis
    using assms by (simp add: frame_wf_def ascii_utf8_valid in_varint_of_nat)
qed

lemma in_varint_small [simp]: "in_varint 1" "in_varint 2" "in_varint 3"
  by (simp_all add: in_varint_def)

lemma close_reasons:
  "frame_wf 64 (ConnectionClose 1 ''OpenUni with non-uni StreamId'')"
  "frame_wf 64 (ConnectionClose 1 ''OpenUni with wrong initiator'')"
  "frame_wf 64 (ConnectionClose 1 ''OpenUni with non-monotonic StreamId'')"
  "frame_wf 64 (ConnectionClose 1 ''OpenBi with non-bi StreamId'')"
  "frame_wf 64 (ConnectionClose 1 ''OpenBi with wrong initiator'')"
  "frame_wf 64 (ConnectionClose 1 ''OpenBi with non-monotonic StreamId'')"
  "frame_wf 64 (ConnectionClose 3 ''too many open streams'')"
  "frame_wf 64 (ConnectionClose 1 ''duplicate stream open'')"
  "frame_wf 64 (ConnectionClose 2 ''failed to send initial stream credit'')"
  "frame_wf 64 (ConnectionClose 3 ''accept queue full'')"
  "frame_wf 64 (ConnectionClose 3 ''protocol error: too many open send streams'')"
  "frame_wf 64 (ConnectionClose 3 ''protocol error: duplicate send stream'')"
  "frame_wf 64 (ConnectionClose 2 ''stream data too large'')"
  "frame_wf 64 (ConnectionClose 2 ''Stream data on unknown stream'')"
  "frame_wf 64 (ConnectionClose 2 ''stream data overflow'')"
  "frame_wf 64 (ConnectionClose 2 ''stream flow-control limit exceeded'')"
  "frame_wf 64 (ConnectionClose 3 ''receive queue full'')"
  "frame_wf 64 (ConnectionClose 1 ''reset on unknown stream'')"
  "frame_wf 64 (ConnectionClose 1 ''stop on unknown stream'')"
  "frame_wf 64 (ConnectionClose 1 ''invalid frame'')"
  "frame_wf 64 (ConnectionClose 2 ''ws message too large'')"
  "frame_wf 64 (ConnectionClose 1 ''text message not supported'')"
  by (intro ascii_reason_wf; simp add: ascii_def)+

section \<open>Peer-opened streams\<close>

text \<open>A suspended handler may go on when its stream is still below the frontier.\<close>

fun hf_await_ok :: "hf_await \<Rightarrow> session \<Rightarrow> bool" where
  "hf_await_ok (AwaitUniCredit recv) s = (rv_ok recv \<and> below_frontier s (rv_id recv))"
| "hf_await_ok (AwaitBiCredit recv) s = (rv_ok recv \<and> below_frontier s (rv_id recv))"
| "hf_await_ok (AwaitStopReset i code) s = (in_varint (sid i) \<and> in_varint code)"

fun hf_outcome_ok :: "(hf_await, error + unit) async \<Rightarrow> session \<Rightarrow> bool" where
  "hf_outcome_ok (Awaiting k) s = (session_inv s \<and> hf_await_ok k s)"
| "hf_outcome_ok (Finished _) s = session_inv s"

lemma hf_outcome_protocol_error:
  assumes "session_inv s" "frame_wf 64 (ConnectionClose code reason)"
    and "apfst Finished (protocol_error code reason s) = (r, s')"
  shows "hf_outcome_ok r s'"
  using assms session_inv_protocol_error [OF assms(1,2)]
  by (cases "protocol_error code reason s") auto

lemma below_frontier_ops [simp]:
  "below_frontier (outbound_push c s) = below_frontier s"
  "below_frontier (request_shutdown s) = below_frontier s"
  "below_frontier (close_all s) = below_frontier s"
  by (simp_all add: outbound_push_def request_shutdown_def close_all_def)

lemma send_frame_resume_fields:
  assumes "send_frame_resume f s = (r, s')"
  shows "below_frontier s' = below_frontier s" "limits_of s' = limits_of s"
  using assms
  by (auto simp: send_frame_resume_def outbound_push_def split: if_splits frame.splits)

lemma send_frame_fields:
  assumes "send_frame f s = (r, s')"
  shows "below_frontier s' = below_frontier s" "limits_of s' = limits_of s"
  using assms send_frame_resume_fields by (auto simp: send_frame_def split: if_splits)

lemma initial_credit_wf:
  assumes "session_inv s" "in_varint (sid i)"
  shows "frame_wf 64 (initial_credit_frame i s)"
proof -
  have "limits_ok 64 (limits_of s)" using assms(1) by (simp add: session_inv_def)
  then have "initial_stream_window (limits_of s) < 2 ^ 62" unfolding limits_ok_def by linarith
  then have "in_varint (of_nat (initial_stream_window (limits_of s)))" by (rule in_varint_of_nat)
  with assms(2) show ?thesis by (simp add: initial_credit_frame_def frame_wf_control)
qed

fun reg_outcome_ok :: "(recv_stream, (u64 \<times> string) + recv_stream) async \<Rightarrow> session \<Rightarrow> bool" where
  "reg_outcome_ok (Awaiting recv) s = (session_inv s \<and> rv_ok recv \<and> below_frontier s (rv_id recv))"
| "reg_outcome_ok (Finished (Inr recv)) s = (session_inv s \<and> rv_ok recv \<and> below_frontier s (rv_id recv))"
| "reg_outcome_ok (Finished (Inl (code, reason))) s =
     (session_inv s \<and> frame_wf 64 (ConnectionClose code reason))"

lemma initial_credit_result_ok:
  assumes "session_inv s" "rv_ok recv" "below_frontier s (rv_id recv)"
    and "initial_credit_result recv (p, s) = (r, s')"
  shows "reg_outcome_ok r s'"
  using assms close_reasons
  by (auto simp: initial_credit_result_def intro: session_inv_recv_stream_drop split: poll.splits sum.splits)

lemma try_register_ok:
  assumes "session_inv s" "in_varint (sid i)" "below_frontier s i"
    and "try_register_inbound_recv_stream i s = (r, s')"
  shows "reg_outcome_ok r s'"
proof -
  obtain recv s1 where reg: "register_recv_stream i s = (recv, s1)" by fastforce
  have inv1: "session_inv s1" by (rule session_inv_register_recv_stream [OF assms(1-3) reg])
  have rv: "rv_id recv = i" "below_frontier s1 i"
    using register_recv_fields [OF reg] assms(3) by simp_all
  obtain p s2 where snd: "send_frame (initial_credit_frame i s1) s1 = (p, s2)" by fastforce
  have "session_inv s2"
    using session_inv_send_frame [OF inv1 initial_credit_wf [OF inv1 assms(2)] snd] .
  moreover have "below_frontier s2 i" using send_frame_fields [OF snd] rv by simp
  ultimately show ?thesis
    using assms reg snd rv close_reasons initial_credit_result_ok [of s2 recv p r s']
    by (auto simp: try_register_inbound_recv_stream_def rv_ok_def split: if_splits)
qed

lemma session_inv_deliver_uni [inv_steps]:
  assumes "session_inv s" "rv_ok recv" and "deliver_uni recv s = (r, s')"
  shows "session_inv s'"
proof -
  obtain e s1 where pe: "protocol_error 3 ''accept queue full'' s = (e, s1)" by fastforce
  have "session_inv s1" by (rule session_inv_protocol_error [OF assms(1) close_reasons(10) pe])
  moreover have "length (accept_uni_queue s) < accept_uni_queue_len (limits_of s) \<Longrightarrow>
      session_inv (s\<lparr>accept_uni_queue := accept_uni_queue s @ [recv]\<rparr>)"
    using assms(1,2) by (simp add: session_inv_def queues_inv_def)
  ultimately show ?thesis
    using assms pe
    by (auto simp: deliver_uni_def intro: session_inv_recv_stream_drop split: if_splits)
qed

lemma session_inv_drop_pair [inv_intros]:
  "session_inv s \<Longrightarrow> ss_ok ss \<Longrightarrow> rv_ok recv \<Longrightarrow> session_inv (drop_pair ss recv s)"
  by (simp add: drop_pair_def session_inv_recv_stream_drop session_inv_send_stream_drop)

lemma session_inv_deliver_bi [inv_steps]:
  assumes "session_inv s" "ss_ok ss" "rv_ok recv" and "deliver_bi ss recv s = (r, s')"
  shows "session_inv s'"
proof -
  obtain e s1 where pe: "protocol_error 3 ''accept queue full'' s = (e, s1)" by fastforce
  have "session_inv s1" by (rule session_inv_protocol_error [OF assms(1) close_reasons(10) pe])
  moreover have "length (accept_bi_queue s) < accept_bi_queue_len (limits_of s) \<Longrightarrow>
      session_inv (s\<lparr>accept_bi_queue := accept_bi_queue s @ [(ss, recv)]\<rparr>)"
    using assms(1-3) by (simp add: session_inv_def queues_inv_def)
  ultimately show ?thesis
    using assms pe by (auto simp: deliver_bi_def intro: session_inv_drop_pair split: if_splits)
qed

lemma open_uni_registered_ok:
  assumes "reg_outcome_ok q s" and "open_uni_registered (q, s) = (r, s')"
  shows "hf_outcome_ok r s'"
proof (cases q)
  case (Awaiting recv)
  then show ?thesis using assms by (auto simp: open_uni_registered_def)
next
  case (Finished x)
  show ?thesis
  proof (cases x)
    case (Inl e)
    then show ?thesis
      using assms Finished hf_outcome_protocol_error
      by (cases e) (auto simp: open_uni_registered_def)
  next
    case (Inr recv)
    then show ?thesis
      using assms Finished session_inv_deliver_uni [of s recv]
      by (cases "deliver_uni recv s") (auto simp: open_uni_registered_def)
  qed
qed

lemma register_send_flow_error:
  assumes "register_send_flow i m s = (Inl e, s')"
  shows "frame_wf 64 (ConnectionClose 3 (error_to_string e))" "s' = s"
  using assms close_reasons(11,12)
  by (auto simp: register_send_flow_def Let_def split: if_splits)

lemma open_bi_flow_ok:
  assumes "session_inv s" "rv_ok recv" "below_frontier s (rv_id recv)"
    and "open_bi_registered (Finished (Inr recv), s) = (r, s')"
  shows "session_inv s' \<and> (\<exists>x. r = Finished x)"
proof -
  obtain q s1 where reg: "register_send_flow (rv_id recv) 0 s = (q, s1)" by fastforce
  have inv1: "session_inv s1"
    using session_inv_register_send_flow [OF assms(1) _ assms(3) reg] assms(2) by (simp add: rv_ok_def)
  show ?thesis
  proof (cases q)
    case (Inl e)
    obtain x s2 where pe: "protocol_error 3 (error_to_string e) s1 = (x, s2)" by fastforce
    have "session_inv s2"
      using session_inv_protocol_error [OF inv1 _ pe] register_send_flow_error reg Inl by blast
    then show ?thesis
      using assms reg Inl pe by (auto simp: open_bi_registered_def intro: session_inv_recv_stream_drop)
  next
    case (Inr flow)
    obtain ss s2 where new: "send_stream_new (rv_id recv) flow s1 = (ss, s2)" by fastforce
    then have ss: "ss_ok ss" using assms(2) by (auto simp: send_stream_new_def ss_ok_def rv_ok_def Let_def)
    obtain x s3 where del: "deliver_bi ss recv s2 = (x, s3)" by fastforce
    have "session_inv s3"
      by (rule session_inv_deliver_bi [OF session_inv_send_stream_new [OF inv1 new] ss assms(2) del])
    then show ?thesis using assms reg Inr new del by (auto simp: open_bi_registered_def)
  qed
qed

lemma open_bi_registered_ok:
  assumes "reg_outcome_ok q s" and "open_bi_registered (q, s) = (r, s')"
  shows "hf_outcome_ok r s'"
proof (cases q)
  case (Awaiting recv)
  then show ?thesis using assms by (auto simp: open_bi_registered_def)
next
  case (Finished x)
  show ?thesis
  proof (cases x)
    case (Inl e)
    then show ?thesis
      using assms Finished hf_outcome_protocol_error
      by (cases e) (auto simp: open_bi_registered_def)
  next
    case (Inr recv)
    then show ?thesis using assms Finished open_bi_flow_ok [of s recv r s'] by auto
  qed
qed

section \<open>The frame handler\<close>

lemma handle_open_uni_ok:
  assumes "session_inv s" "in_varint (sid i)" and "handle_open_uni i s = (r, s')"
  shows "hf_outcome_ok r s'"
proof -
  obtain b s1 where v: "validate_peer_stream_id i s = (b, s1)" by fastforce
  have inv1: "session_inv s1" by (rule session_inv_validate_peer [OF assms(1) v])
  obtain q s2 where reg: "try_register_inbound_recv_stream i s1 = (q, s2)" by fastforce
  have "b \<Longrightarrow> reg_outcome_ok q s2"
    using try_register_ok [OF inv1 assms(2) _ reg] validate_peer_result(1) v by auto
  then show ?thesis
    using assms v inv1 reg open_uni_registered_ok [of q s2 r s'] close_reasons
      hf_outcome_protocol_error [of s] hf_outcome_protocol_error [of s1]
    by (auto simp: handle_open_uni_def split: if_splits bool.splits)
qed

lemma handle_open_bi_ok:
  assumes "session_inv s" "in_varint (sid i)" and "handle_open_bi i s = (r, s')"
  shows "hf_outcome_ok r s'"
proof -
  obtain b s1 where v: "validate_peer_stream_id i s = (b, s1)" by fastforce
  have inv1: "session_inv s1" by (rule session_inv_validate_peer [OF assms(1) v])
  obtain q s2 where reg: "try_register_inbound_recv_stream i s1 = (q, s2)" by fastforce
  have "b \<Longrightarrow> reg_outcome_ok q s2"
    using try_register_ok [OF inv1 assms(2) _ reg] validate_peer_result(1) v by auto
  then show ?thesis
    using assms v inv1 reg open_bi_registered_ok [of q s2 r s'] close_reasons
      hf_outcome_protocol_error [of s] hf_outcome_protocol_error [of s1]
    by (auto simp: handle_open_bi_def split: if_splits bool.splits)
qed

text \<open>The accepting branches of \<open>handle_stream\<close>: the byte count grows within the limit.\<close>

lemma session_inv_count_bytes:
  assumes "session_inv s" "hm_get (streams s) i = Some st"
    and "n \<le> chan_max (chan_mem s (sender st))"
  shows "session_inv (s\<lparr>streams := hm_insert i (st\<lparr>received := n\<rparr>) (streams s)\<rparr>)"
proof -
  have "streams_inv (s\<lparr>streams := hm_insert i (st\<lparr>received := n\<rparr>) (streams s)\<rparr>)"
    using assms by (intro streams_inv_insert) (auto simp: session_inv_def)
  moreover have "ids_inv (s\<lparr>streams := hm_insert i (st\<lparr>received := n\<rparr>) (streams s)\<rparr>)"
    using assms(1,2) by (intro ids_inv_insert) (auto simp: session_inv_def ids_inv_def hm_contains_def)
  ultimately show ?thesis using assms(1) by (simp add: session_inv_def)
qed

lemma session_inv_remove_recv: "session_inv s \<Longrightarrow> session_inv (snd (remove_recv_stream i s))"
  using session_inv_remove_recv_stream by (metis prod.collapse)

lemma session_inv_handle_stream [inv_steps]:
  assumes "session_inv s" and "handle_stream i d fin s = (r, s')"
  shows "session_inv s'"
proof -
  have pe: "session_inv s''" if "session_inv t" "protocol_error code reason t = (r, s'')"
    "frame_wf 64 (ConnectionClose code reason)" for t s'' code reason
    using session_inv_protocol_error that by blast
  show ?thesis
  proof (cases "hm_get (streams s) i")
    case None
    then show ?thesis
      using assms close_reasons by (auto simp: handle_stream_def intro: pe split: if_splits)
  next
    case (Some st)
    define n where "n = received st + of_nat (length d)"
    let ?s1 = "s\<lparr>streams := hm_insert i (st\<lparr>received := n\<rparr>) (streams s)\<rparr>"
    have inv1: "session_inv ?s1" if "n \<le> chan_max (chan_mem s (sender st))"
      using session_inv_count_bytes [OF assms(1) Some that] .
    have inv2: "session_inv (chan_update (sender st) (\<lambda>c. c\<lparr>items := items c @ [RecvEvent d fin]\<rparr>) ?s1)"
      if "n \<le> chan_max (chan_mem s (sender st))"
        "length (items (chan_mem s (sender st))) < recv_event_queue_len (limits_of s)"
      using inv1 that by (intro session_inv_chan_update) auto
    show ?thesis
      using assms Some close_reasons inv1 inv2 session_inv_remove_recv
      by (auto simp: handle_stream_def checked_add_def n_def [symmetric] Let_def not_less not_le
          intro: pe split: if_splits)
  qed
qed

lemma session_inv_handle_reset [inv_steps]:
  assumes "session_inv s" and "handle_reset i s = (r, s')"
  shows "session_inv s'"
proof -
  obtain b s1 where rm: "remove_recv_stream i s = (b, s1)" by fastforce
  have "session_inv s1" by (rule session_inv_remove_recv_stream [OF assms(1) rm])
  with assms(2) rm session_inv_protocol_error [OF _ close_reasons(18)] show ?thesis
    by (auto simp: handle_reset_def split: if_splits)
qed

lemma handle_stop_ok:
  assumes "session_inv s" "in_varint (sid i)" "in_varint code" and "handle_stop i code s = (r, s')"
  shows "hf_outcome_ok r s'"
proof -
  obtain b s1 where rm: "remove_send_flow i s = (b, s1)" by fastforce
  have inv1: "session_inv s1" by (rule session_inv_remove_send_flow [OF assms(1) rm])
  obtain p s2 where snd: "send_frame (ResetStream i code) s1 = (p, s2)" by fastforce
  have "session_inv s2"
    by (rule session_inv_send_frame [OF inv1 _ snd]) (simp add: assms frame_wf_control)
  with assms rm inv1 snd show ?thesis
    using hf_outcome_protocol_error [OF inv1 close_reasons(19), of r s']
    by (auto simp: handle_stop_def await_at_def split: bool.splits poll.splits if_splits)
qed

lemma flow_closed_update_max [simp]: "flow_closed (update_max m f) = flow_closed f"
  by (simp add: update_max_def)

lemma session_inv_handle_max_data [inv_intros]:
  "session_inv s \<Longrightarrow> session_inv (handle_max_data i m s)"
  by (auto simp: handle_max_data_def update_max_ok intro!: session_inv_flow_update split: option.splits)

lemma frame_wf_ids:
  "frame_wf w (OpenUni i) \<Longrightarrow> in_varint (sid i)" "frame_wf w (OpenBi i) \<Longrightarrow> in_varint (sid i)"
  "frame_wf w (StopSending i c) \<Longrightarrow> in_varint (sid i) \<and> in_varint c"
  by (simp_all add: frame_wf_def)

lemma handle_frame_ok:
  assumes "session_inv s" "frame_wf 64 f" and "handle_frame f s = (r, s')"
  shows "hf_outcome_ok r s'"
proof (cases f)
  case (Stream i d fin)
  then show ?thesis
    using assms by (cases "handle_stream i d fin s") (auto dest: session_inv_handle_stream)
next
  case (ResetStream i c)
  then show ?thesis
    using assms by (cases "handle_reset i s") (auto dest: session_inv_handle_reset)
qed (use assms in \<open>auto dest!: frame_wf_ids intro: handle_open_uni_ok handle_open_bi_ok handle_stop_ok
      session_inv_handle_max_data session_inv_close_all\<close>)

lemma handle_frame_resume_ok:
  assumes "session_inv s" "hf_await_ok k s" and "handle_frame_resume k s = (r, s')"
  shows "hf_outcome_ok r s'"
proof -
  have credit: "reg_outcome_ok q s1"
    if "rv_ok recv" "below_frontier s (rv_id recv)"
      and "initial_credit_result recv (send_frame_resume (initial_credit_frame (rv_id recv) s) s) = (q, s1)"
    for recv q s1
  proof -
    obtain p s2 where snd: "send_frame_resume (initial_credit_frame (rv_id recv) s) s = (p, s2)" by fastforce
    have "session_inv s2"
      by (rule session_inv_send_frame_resume [OF assms(1) _ snd])
        (use assms(1) that(1) in \<open>simp add: initial_credit_wf rv_ok_def\<close>)
    then show ?thesis
      using initial_credit_result_ok [of s2 recv p q s1] that snd send_frame_resume_fields [OF snd] by simp
  qed
  show ?thesis
  proof (cases k)
    case (AwaitUniCredit recv)
    then show ?thesis
      using assms credit [of recv] open_uni_registered_ok [of _ _ r s']
      by (cases "initial_credit_result recv (send_frame_resume (initial_credit_frame (rv_id recv) s) s)") simp
  next
    case (AwaitBiCredit recv)
    then show ?thesis
      using assms credit [of recv] open_bi_registered_ok [of _ _ r s']
      by (cases "initial_credit_result recv (send_frame_resume (initial_credit_frame (rv_id recv) s) s)") simp
  next
    case (AwaitStopReset i code)
    then show ?thesis
      using assms session_inv_send_frame_resume [OF assms(1), of "ResetStream i code"]
      by (cases "send_frame_resume (ResetStream i code) s")
        (auto simp: await_at_def frame_wf_control split: poll.splits)
  qed
qed

lemma handle_frame_cancel_ok:
  "session_inv s \<Longrightarrow> hf_await_ok k s \<Longrightarrow> session_inv (handle_frame_cancel k s)"
  by (cases k) (auto intro: session_inv_recv_stream_drop)

end
