(* ===== verification/Session_Evolve.thy ===== *)
theory Session_Evolve
  imports Session_Safety
begin

text \<open>
  What the holders of handles may rely on while others use the session. \<open>grows s s'\<close> says that the
  configuration is fixed, that frontiers, references, reservations and the closing flags only grow;
  \<open>evolves X s s'\<close> adds that no receive channel outside \<open>X\<close> and no accept queue changed. Both are
  reflexive and transitive, and every primitive operation is an instance.
\<close>

section \<open>The relations\<close>

text \<open>The channels of the stream map and the flows of queued send handles are allocated.\<close>

definition sends_below :: "(send_stream \<times> recv_stream) list \<Rightarrow> nat \<Rightarrow> bool" where
  "sends_below q n \<longleftrightarrow> (\<forall>p \<in> set q. ss_flow (fst p) < n)"

lemma sends_below_mono: "sends_below q m \<Longrightarrow> m \<le> n \<Longrightarrow> sends_below q n"
  by (fastforce simp: sends_below_def)

lemma sends_below_Suc [simp]: "sends_below q n \<Longrightarrow> sends_below q (Suc n)"
  by (erule sends_below_mono) simp

lemma sends_below_simps [simp]:
  "sends_below [] n" "sends_below (p # q) n \<longleftrightarrow> ss_flow (fst p) < n \<and> sends_below q n"
  "sends_below (q @ q') n \<longleftrightarrow> sends_below q n \<and> sends_below q' n"
  by (auto simp: sends_below_def)

definition refs_ok :: "session \<Rightarrow> bool" where
  "refs_ok s \<longleftrightarrow> (\<forall>i st. hm_get (streams s) i = Some st \<longrightarrow> sender st < next_ref s)
     \<and> sends_below (accept_bi_queue s) (next_ref s)"

definition grows :: "session \<Rightarrow> session \<Rightarrow> bool" where
  "grows s s' \<longleftrightarrow>
     is_server s' = is_server s \<and> limits_of s' = limits_of s \<and> next_ref s \<le> next_ref s'
     \<and> next_peer_uni s \<le> next_peer_uni s' \<and> next_peer_bi s \<le> next_peer_bi s'
     \<and> (closed s \<longrightarrow> closed s') \<and> (shutdown_started s \<longrightarrow> shutdown_started s')
     \<and> (cancelled s \<longrightarrow> cancelled s')
     \<and> (\<forall>r < next_ref s. sent_data (flow_mem s r) \<le> sent_data (flow_mem s' r))
     \<and> (refs_ok s \<longrightarrow> refs_ok s')"

text \<open>
  Channel \<open>r\<close> keeps its queue and limit, and a map entry that feeds it was there before with the same
  byte count; the entry may have been stopped or removed in between.
\<close>

definition quiet :: "nat \<Rightarrow> session \<Rightarrow> session \<Rightarrow> bool" where
  "quiet r s s' \<longleftrightarrow> chan_mem s' r = chan_mem s r
     \<and> (\<forall>i st'. hm_get (streams s') i = Some st' \<and> sender st' = r \<longrightarrow>
          (\<exists>st. hm_get (streams s) i = Some st \<and> sender st = r \<and> received st' = received st
             \<and> (stopped st \<longrightarrow> stopped st')))"

definition evolves :: "nat set \<Rightarrow> session \<Rightarrow> session \<Rightarrow> bool" where
  "evolves X s s' \<longleftrightarrow> grows s s'
     \<and> accept_uni_queue s' = accept_uni_queue s \<and> accept_bi_queue s' = accept_bi_queue s
     \<and> (\<forall>r < next_ref s. r \<notin> X \<longrightarrow> quiet r s s')"

lemmas evolves_defs = evolves_def grows_def quiet_def refs_ok_def

lemma grows_refl [simp, intro]: "grows s s"
  by (simp add: grows_def)

lemma grows_trans [trans]:
  assumes "grows s t" "grows t u"
  shows "grows s u"
proof -
  have "sent_data (flow_mem s r) \<le> sent_data (flow_mem u r)" if "r < next_ref s" for r
    using assms that order_trans [of "sent_data (flow_mem s r)" "sent_data (flow_mem t r)"]
    by (auto simp: grows_def)
  then show ?thesis
    using assms order_trans [of "next_peer_uni s" "next_peer_uni t"]
      order_trans [of "next_peer_bi s" "next_peer_bi t"] order_trans [of "next_ref s" "next_ref t"]
    by (simp add: grows_def)
qed

lemma quiet_refl [simp]: "quiet r s s"
  by (simp add: quiet_def)

lemma quiet_trans: "quiet r s t \<Longrightarrow> quiet r t u \<Longrightarrow> quiet r s u"
  unfolding quiet_def by fastforce

lemma evolves_refl [simp, intro]: "evolves X s s"
  by (simp add: evolves_def)

lemma evolves_grows: "evolves X s t \<Longrightarrow> grows s t"
  by (simp add: evolves_def)

lemma evolves_trans [trans]:
  assumes "evolves X s t" "evolves Y t u"
  shows "evolves (X \<union> Y) s u"
proof -
  have "quiet r s u" if "r < next_ref s" "r \<notin> X \<union> Y" for r
    using assms that quiet_trans [of r s t u] by (auto simp: evolves_def grows_def)
  then show ?thesis
    using assms grows_trans [of s t u] by (simp add: evolves_def)
qed

lemma evolves_then: "evolves X s t \<Longrightarrow> evolves X t u \<Longrightarrow> evolves X s u"
  using evolves_trans by fastforce

lemma grows_below_frontier: "grows s t \<Longrightarrow> below_frontier s i \<Longrightarrow> below_frontier t i"
  by (auto simp: grows_def below_frontier_def peer_frontier_def peer_is_server_def
      split: stream_dir.splits intro: less_le_trans)

section \<open>Primitive operations\<close>

named_theorems evolve_intros \<open>operations that return the new state\<close>
named_theorems evolve_steps \<open>operations that return a result and the new state\<close>

lemma evolves_request_shutdown [evolve_intros]: "evolves X s (request_shutdown s)"
  by (simp add: evolves_defs request_shutdown_def)

lemma close_flows_sent: "sent_data (close_flows fs mem r) = sent_data (mem r)"
  unfolding close_flows_def by (induction fs arbitrary: mem) auto

lemma evolves_close_all [evolve_intros]: "evolves X s (close_all s)"
  by (simp add: evolves_defs close_all_def close_flows_sent hm_get_Nil)

lemma evolves_push [evolve_intros]: "evolves X s (outbound_push c s)"
  by (simp add: evolves_defs outbound_push_def)

lemma evolves_try_send [evolve_steps]: "outbound_try_send c s = (r, s') \<Longrightarrow> evolves X s s'"
  by (auto simp: outbound_try_send_def intro: evolve_intros split: if_splits)

lemma evolves_try_send_frame [evolve_steps]: "try_send_frame f s = (r, s') \<Longrightarrow> evolves X s s'"
  by (auto simp: try_send_frame_def dest: evolves_try_send split: if_splits prod.splits sum.splits)

lemma evolves_send_frame_resume [evolve_steps]: "send_frame_resume f s = (r, s') \<Longrightarrow> evolves X s s'"
  by (auto simp: send_frame_resume_def intro: evolve_intros split: if_splits frame.splits)

lemma evolves_send_frame [evolve_steps]: "send_frame f s = (r, s') \<Longrightarrow> evolves X s s'"
  by (auto simp: send_frame_def dest: evolves_send_frame_resume split: if_splits)

lemma evolves_protocol_error [evolve_steps]:
  assumes "protocol_error code reason s = (r, s')"
  shows "evolves X s s'"
proof -
  obtain q s1 where t: "try_send_frame (ConnectionClose code reason) s = (q, s1)" by fastforce
  have "evolves X s (close_all s1)"
    by (rule evolves_then [OF evolves_try_send_frame [OF t] evolves_close_all])
  with assms t show ?thesis by (simp add: protocol_error_def)
qed

lemma evolves_next_stream_id [evolve_steps]: "next_stream_id d s = (r, s') \<Longrightarrow> evolves X s s'"
  by (auto simp: next_stream_id_def evolves_defs
      split: stream_dir.splits sum.splits varint_bounds_exceeded.splits)

lemma evolves_validate_peer [evolve_steps]: "validate_peer_stream_id i s = (b, s') \<Longrightarrow> evolves X s s'"
  by (auto simp: validate_peer_stream_id_def evolves_defs word_le_nat_alt unat_counter_succ
      word_less_nat_alt split: stream_dir.splits if_splits)

lemma evolves_flow_update [evolve_intros]:
  "sent_data (flow_mem s r) \<le> sent_data (g (flow_mem s r)) \<Longrightarrow> evolves X s (flow_update r g s)"
  by (simp add: evolves_defs flow_update_def)

lemma evolves_register_send_flow [evolve_steps]:
  "register_send_flow i m s = (r, s') \<Longrightarrow> evolves X s s'"
  by (auto simp: register_send_flow_def evolves_defs Let_def less_Suc_eq split: if_splits)

lemma evolves_remove_send_flow [evolve_steps]: "remove_send_flow i s = (b, s') \<Longrightarrow> evolves X s s'"
  by (auto simp: remove_send_flow_def flow_update_def evolves_defs split: option.splits)

lemma evolves_shared_update [evolve_intros]: "evolves X s (shared_update r g s)"
  by (simp add: evolves_defs shared_update_def)

lemma evolves_send_stream_new [evolve_steps]: "send_stream_new i f s = (ss, s') \<Longrightarrow> evolves X s s'"
  by (auto simp: send_stream_new_def evolves_defs Let_def less_Suc_eq)

lemma evolves_send_stream_drop [evolve_intros]: "evolves X s (send_stream_drop ss s)"
proof -
  obtain b s1 where s1: "remove_send_flow (ss_id ss) s = (b, s1)" by fastforce
  obtain r s2 where s2: "try_send_frame (ResetStream (ss_id ss) 0) s1 = (r, s2)" by fastforce
  note e1 = evolves_remove_send_flow [OF s1, of X]
  note e2 = evolves_then [OF e1 evolves_try_send_frame [OF s2]]
  show ?thesis
    using s1 s2 e1 e2 evolves_shared_update evolves_then [OF _ evolves_shared_update]
      evolves_then [OF e2 evolves_request_shutdown]
    by (auto simp: send_stream_drop_def Let_def split: sum.splits)
qed

lemma evolves_register_recv_stream [evolve_steps]:
  "register_recv_stream i s = (rv, s') \<Longrightarrow> evolves X s s'"
  by (auto simp: register_recv_stream_def evolves_defs Let_def hmap_simps less_Suc_eq split: if_splits)

lemma evolves_remove_recv_stream [evolve_steps]: "remove_recv_stream i s = (b, s') \<Longrightarrow> evolves X s s'"
  by (auto simp: remove_recv_stream_def evolves_defs hmap_simps split: if_splits)

lemma evolves_stop_recv_stream [evolve_steps]: "stop_recv_stream i s = (b, s') \<Longrightarrow> evolves X s s'"
  by (auto simp: stop_recv_stream_def evolves_defs hmap_simps split: if_splits option.splits)

lemma evolves_chan_update [evolve_intros]: "evolves {r} s (chan_update r g s)"
  by (auto simp: evolves_defs chan_update_def)

lemma evolves_recv_stream_drop [evolve_intros]: "evolves {receiver rv} s (recv_stream_drop rv s)"
proof -
  let ?X = "{receiver rv}"
  obtain b s1 where s1: "stop_recv_stream (rv_id rv) s = (b, s1)" by fastforce
  obtain r s2 where s2: "try_send_frame (StopSending (rv_id rv) 0) s1 = (r, s2)" by fastforce
  note e1 = evolves_stop_recv_stream [OF s1, of ?X]
  note e2 = evolves_then [OF e1 evolves_try_send_frame [OF s2]]
  show ?thesis
    using s1 s2 evolves_then [OF e1 evolves_chan_update] evolves_then [OF e2 evolves_chan_update]
      evolves_then [OF evolves_then [OF e2 evolves_request_shutdown] evolves_chan_update]
    by (auto simp: recv_stream_drop_def Let_def split: sum.splits)
qed

lemma evolves_queue_credit [evolve_intros]: "evolves X s (queue_credit i m s)"
  by (auto simp: queue_credit_def request_shutdown_def evolves_defs Let_def split: option.splits)

lemma evolves_next_credit [evolve_steps]: "next_credit k s = (r, s') \<Longrightarrow> evolves X s s'"
  by (auto simp: next_credit_def evolves_defs Let_def split: list.splits option.splits)

section \<open>Receive handles\<close>

text \<open>The bytes that wait in a channel and in the handle's partly read chunk.\<close>

definition queued_bytes :: "recv_chan \<Rightarrow> nat" where
  "queued_bytes c = sum_list (map (length \<circ> ev_data) (items c))"

definition unread :: "recv_stream \<Rightarrow> session \<Rightarrow> nat" where
  "unread rv s = length (rv_pending rv) + queued_bytes (chan_mem s (receiver rv))"

text \<open>
  What ties a live receive handle to the session: the advertised limit is the granted credit, consumed
  and unread bytes stay within it, it exceeds the consumed bytes by the window at most, and a map entry
  that feeds the channel belongs to the handle's stream and has counted these bytes.
\<close>

definition recv_link :: "recv_stream \<Rightarrow> session \<Rightarrow> bool" where
  "recv_link rv s \<longleftrightarrow>
     receiver rv < next_ref s \<and> rx_open (chan_mem s (receiver rv))
     \<and> chan_max (chan_mem s (receiver rv)) = granted rv
     \<and> unat (consumed rv) + unread rv s \<le> unat (granted rv)
     \<and> unat (granted rv) \<le> unat (consumed rv) + unat (initial_window rv)
     \<and> initial_window rv = of_nat (initial_stream_window (limits_of s)) \<and> in_varint (granted rv)
     \<and> (\<forall>i st. hm_get (streams s) i = Some st \<and> sender st = receiver rv \<longrightarrow>
          i = rv_id rv \<and> (\<not> stopped st \<longrightarrow> unat (consumed rv) + unread rv s \<le> unat (received st)))"

lemma recv_link_quiet:
  assumes "recv_link rv s" "quiet (receiver rv) s s'" "next_ref s \<le> next_ref s'"
    and "limits_of s' = limits_of s"
  shows "recv_link rv s'"
  using assms unfolding recv_link_def quiet_def unread_def by fastforce

definition queued_recvs :: "session \<Rightarrow> recv_stream list" where
  "queued_recvs s = accept_uni_queue s @ map snd (accept_bi_queue s)"

text \<open>All receive handles: those in \<open>E\<close> and those in the accept queues; no two share a channel.\<close>

definition recvs_ok :: "recv_stream list \<Rightarrow> session \<Rightarrow> bool" where
  "recvs_ok E s \<longleftrightarrow> refs_ok s \<and> distinct (map receiver (E @ queued_recvs s))
     \<and> (\<forall>rv \<in> set (E @ queued_recvs s). recv_link rv s)"

text \<open>A transition of the session together with the handles in circulation.\<close>

definition transits :: "recv_stream list \<Rightarrow> session \<Rightarrow> recv_stream list \<Rightarrow> session \<Rightarrow> bool" where
  "transits E s E' s' \<longleftrightarrow> grows s s' \<and> (recvs_ok E s \<longrightarrow> recvs_ok E' s')"

lemma transits_trans [trans]: "transits E s F t \<Longrightarrow> transits F t G u \<Longrightarrow> transits E s G u"
  by (auto simp: transits_def intro: grows_trans)

lemma transits_evolves:
  assumes "evolves {} s s'"
  shows "transits E s E s'"
proof -
  have "recv_link rv s'" if "recv_link rv s" for rv
    using assms that by (intro recv_link_quiet [of rv s s']) (auto simp: evolves_def grows_def recv_link_def)
  then show ?thesis
    using assms by (auto simp: transits_def recvs_ok_def evolves_def queued_recvs_def grows_def)
qed

lemma transits_register:
  assumes "register_recv_stream i s = (rv, s')" "limits_ok 64 (limits_of s)"
  shows "transits E s (rv # E) s'"
proof -
  have win: "initial_stream_window (limits_of s) < 2 ^ 62"
    using assms(2) unfolding limits_ok_def by linarith
  have ev: "evolves {} s s'" by (rule evolves_register_recv_stream [OF assms(1)])
  have rv: "receiver rv = next_ref s"
    using assms(1) by (auto simp: register_recv_stream_def recv_stream_new_def Let_def)
  have new: "recv_link rv s'" if "refs_ok s"
  proof -
    have "\<forall>j st. hm_get (streams s) j = Some st \<longrightarrow> sender st \<noteq> next_ref s"
      using that by (fastforce simp: refs_ok_def)
    then show ?thesis
      using assms(1) in_varint_of_nat [OF win]
      by (auto simp: register_recv_stream_def recv_stream_new_def recv_link_def unread_def Let_def
          queued_bytes_def hmap_simps split: if_splits)
  qed
  have "recvs_ok (rv # E) s'" if "recvs_ok E s"
  proof -
    have "recvs_ok E s'" using that transits_evolves [OF ev, of E] by (simp add: transits_def)
    moreover have "queued_recvs s' = queued_recvs s" using ev by (simp add: evolves_def queued_recvs_def)
    moreover have "receiver q < next_ref s" if "q \<in> set (E @ queued_recvs s)" for q
      using that \<open>recvs_ok E s\<close> by (auto simp: recvs_ok_def recv_link_def)
    ultimately show ?thesis using that new rv by (fastforce simp: recvs_ok_def)
  qed
  then show ?thesis using ev by (simp add: transits_def evolves_grows)
qed

lemma transits_drop: "transits (rv # E) s E (recv_stream_drop rv s)"
proof -
  note ev = evolves_recv_stream_drop [of rv s]
  have "recvs_ok E (recv_stream_drop rv s)" if ok: "recvs_ok (rv # E) s"
  proof -
    let ?s = "recv_stream_drop rv s"
    have q: "queued_recvs ?s = queued_recvs s" using ev by (simp add: evolves_def queued_recvs_def)
    have other: "receiver rv \<notin> receiver ` set (E @ queued_recvs s)"
      using ok by (simp add: recvs_ok_def image_Un)
    have "recv_link q ?s" if "q \<in> set (E @ queued_recvs s)" for q
    proof (rule recv_link_quiet)
      show l: "recv_link q s" using ok that by (auto simp: recvs_ok_def)
      have "receiver q \<noteq> receiver rv" using other that by (metis image_eqI)
      then show "quiet (receiver q) s ?s" using ev l by (auto simp: evolves_def recv_link_def)
    qed (use ev in \<open>auto simp: evolves_def grows_def\<close>)
    moreover have "refs_ok ?s" using ev ok by (simp add: evolves_def grows_def recvs_ok_def)
    ultimately show ?thesis using ok q by (auto simp: recvs_ok_def)
  qed
  then show ?thesis using ev by (simp add: transits_def evolves_grows)
qed

end
