(* ===== verification/Task_Safety.thy ===== *)
theory Task_Safety
  imports Session_Safety
begin

text \<open>
  Preservation of the session invariant by the inbound loop and the outbound writer, and the absence
  of panics in the writer.
\<close>

section \<open>Inbound\<close>

fun in_task_ok :: "inbound_task \<Rightarrow> session \<Rightarrow> bool" where
  "in_task_ok (InFrames k r) s = hf_await_ok k s"
| "in_task_ok _ s = True"

lemma inbound_frames_ok:
  "session_inv s \<Longrightarrow> inbound_frames c s = (t, s') \<Longrightarrow> session_inv s' \<and> in_task_ok t s'"
proof (induction c s arbitrary: t s' rule: inbound_frames.induct)
  case (1 c s)
  show ?case
  proof (cases "c = []")
    case True
    then show ?thesis using "1.prems" by (simp add: inbound_frames.simps)
  next
    case False
    show ?thesis
    proof (cases "frame_decode 64 c")
      case (Inl e)
      obtain x s1 where pe: "protocol_error 1 ''invalid frame'' s = (x, s1)" by fastforce
      have "session_inv s1" by (rule session_inv_protocol_error [OF "1.prems"(1) close_reasons(20) pe])
      then show ?thesis using "1.prems"(2) False Inl pe by (simp add: inbound_frames.simps)
    next
      case (Inr p)
      then obtain f r where p: "frame_decode 64 c = Inr (f, r)" by (cases p) auto
      obtain x s1 where h: "handle_frame f s = (x, s1)" by fastforce
      have ok: "hf_outcome_ok x s1" by (rule handle_frame_ok [OF "1.prems"(1) frame_decode_wf [OF p] h])
      show ?thesis
      proof (cases "\<exists>u. x = Finished (Inr u)")
        case True
        then show ?thesis
          using "1.IH" [OF False p refl h [symmetric]] "1.prems"(2) False p h ok
          by (auto simp: inbound_frames.simps [of c])
      next
        case no: False
        then show ?thesis
          using "1.prems"(2) False p h ok
          by (auto simp: inbound_frames.simps [of c] split: async.splits sum.splits)
      qed
    qed
  qed
qed

lemma inbound_item_ok:
  assumes "session_inv s" and "inbound_item it s = (t, s')"
  shows "session_inv s' \<and> in_task_ok t s'"
proof -
  have pe: "session_inv (snd (protocol_error code reason s))"
    if "frame_wf 64 (ConnectionClose code reason)" for code reason
    using session_inv_protocol_error [OF assms(1) that] by (metis prod.collapse)
  have pong: "session_inv (snd (outbound_try_send (WsCmd m) s))" for m
    using session_inv_try_send [OF assms(1), of "WsCmd m"] by (cases "outbound_try_send (WsCmd m) s") simp
  have "session_inv (s\<lparr>peer_closed := True, shutdown_started := True, peer_close_notify := True\<rparr>)"
    using assms(1) by (simp add: session_inv_def)
  then show ?thesis
    using assms pe pong close_reasons(21,22) inbound_frames_ok
    by (cases "(it, s)" rule: inbound_item.cases)
      (auto simp: inbound_message_def split: ws_message.splits if_splits)
qed

lemma inbound_resume_ok:
  assumes "session_inv s" "hf_await_ok k s" and "inbound_resume k r s = (t, s')"
  shows "session_inv s' \<and> in_task_ok t s'"
proof -
  obtain x s1 where h: "handle_frame_resume k s = (x, s1)" by fastforce
  have "hf_outcome_ok x s1" by (rule handle_frame_resume_ok [OF assms(1,2) h])
  with assms(3) h show ?thesis
    using inbound_frames_ok by (auto simp: inbound_resume_def split: async.splits sum.splits)
qed

lemma inbound_cancel_ok:
  assumes "session_inv s" "in_task_ok t s" and "inbound_cancel t s = (t', s')"
  shows "session_inv s' \<and> in_task_ok t' s'"
  using assms handle_frame_cancel_ok by (cases t) auto

lemma session_inv_task_finished [inv_intros]: "session_inv s \<Longrightarrow> session_inv (task_finished s)"
  using session_inv_close_all [of s] by (simp add: task_finished_def session_inv_def Let_def)

section \<open>Outbound\<close>

lemma write_frame_total:
  assumes "frame_wf 64 f"
  shows "write_frame tx l idle f w \<noteq> None"
  using frame_codec.enc_total [OF assms] by (auto simp: write_frame_def)

lemma session_inv_ack_send [inv_intros]: "session_inv s \<Longrightarrow> session_inv (ack_send a r s)"
  by (simp add: ack_send_def session_inv_def)

lemma write_cmd_ok:
  assumes "session_inv s" "cmd_ok c"
  shows "\<exists>b w' s'. write_cmd tx idle c w s = Some (b, w', s') \<and> session_inv s'"
proof (cases c)
  case (FrameCmd f)
  then show ?thesis
    using assms write_frame_total [of f tx "limits_of s" idle w] by (auto simp: write_cmd_def)
qed (use assms in \<open>auto simp: write_cmd_def intro: session_inv_ack_send split: prod.splits sum.splits\<close>)

lemma out_result_ok:
  assumes "session_inv s" "cmd_ok c" and "out_result s (write_cmd tx idle c w s) w = (t, w', s')"
  shows "session_inv s' \<and> t \<noteq> OutPanic"
  using assms(3) write_cmd_ok [OF assms(1,2), of tx idle w] by (auto split: if_splits)

lemma session_inv_pop: "session_inv s \<Longrightarrow> outbound s = c # q \<Longrightarrow> session_inv (s\<lparr>outbound := q\<rparr>)"
  by (simp add: session_inv_def queues_inv_def)

lemma outbound_recv_ok:
  assumes "session_inv s" and "outbound_recv tx w s = Some (t, w', s')"
  shows "session_inv s' \<and> t \<noteq> OutPanic"
proof -
  obtain c q where q: "outbound s = c # q"
    using assms(2) by (cases "outbound s") (auto simp: outbound_recv_def)
  then have "cmd_ok c" using assms(1) by (simp add: session_inv_def queues_inv_def)
  then show ?thesis
    using assms(2) q out_result_ok [OF session_inv_pop [OF assms(1) q], of c tx "q = []" w t w' s']
    by (simp add: outbound_recv_def Let_def)
qed

lemma outbound_credit_ok:
  assumes "session_inv s" and "outbound_credit tx k w s = Some (t, w', s')"
  shows "session_inv s' \<and> t \<noteq> OutPanic"
proof -
  obtain f s1 where c: "next_credit k s = (Ready f, s1)"
    using assms(2) by (auto simp: outbound_credit_def split: if_splits poll.splits prod.splits)
  then have "session_inv s1" "cmd_ok (FrameCmd f)"
    using assms(1) session_inv_next_credit next_credit_frame_wf by auto
  with assms(2) c out_result_ok [of s1 "FrameCmd f"] show ?thesis
    by (auto simp: outbound_credit_def split: if_splits)
qed

lemma outbound_stop_ok:
  assumes "session_inv s"
    and "outbound_peer_close tx w s = Some (t, w', s') \<or> outbound_cancel_inner tx w s = Some (t, w', s')"
  shows "session_inv s' \<and> t \<noteq> OutPanic"
  using assms
  by (auto simp: outbound_peer_close_def outbound_cancel_inner_def session_inv_def split: if_splits)

lemma session_inv_outbound_finish [inv_intros]: "session_inv s \<Longrightarrow> session_inv (outbound_finish s)"
  unfolding outbound_finish_def
  by (rule session_inv_task_finished) (simp add: session_inv_def queues_inv_def)

end
