(* ===== verification/Session_Handles.thy ===== *)
theory Session_Handles
  imports Session_Evolve Task_Safety
begin

text \<open>
  How receive handles move: registration creates one, the accept queues hold it, the application
  takes it, and dropping it ends it. Every operation is a transition of the session and the handles
  in circulation that keeps each handle tied to its channel.
\<close>

section \<open>Delivery\<close>

lemma recvs_ok_middle: "recvs_ok (xs @ rv # ys) s \<longleftrightarrow> recvs_ok (rv # xs @ ys) s"
  by (auto simp: recvs_ok_def)

lemma transits_refl [simp, intro]: "transits E s E s"
  by (simp add: transits_def)

lemma transits_evolves_then:
  "evolves {} s t \<Longrightarrow> transits E t F u \<Longrightarrow> transits E s F u"
  using transits_trans transits_evolves by blast

lemma recv_link_queues [simp]:
  "recv_link rv (s\<lparr>accept_uni_queue := a\<rparr>) = recv_link rv s"
  "recv_link rv (s\<lparr>accept_bi_queue := b\<rparr>) = recv_link rv s"
  "recv_link rv (s\<lparr>accept_rx := c\<rparr>) = recv_link rv s"
  by (simp_all add: recv_link_def unread_def)

lemma grows_queues:
  "grows s (s\<lparr>accept_uni_queue := a\<rparr>)"
  "(sends_below (accept_bi_queue s) (next_ref s) \<Longrightarrow> sends_below b (next_ref s)) \<Longrightarrow> grows s (s\<lparr>accept_bi_queue := b\<rparr>)"
  by (auto simp: grows_def refs_ok_def)

lemma transits_enqueue_uni:
  "transits (rv # E) s E (s\<lparr>accept_uni_queue := accept_uni_queue s @ [rv]\<rparr>)"
  by (simp add: transits_def grows_queues recvs_ok_def queued_recvs_def) (auto simp: refs_ok_def)

lemma transits_enqueue_bi:
  "ss_flow ss < next_ref s \<Longrightarrow> transits (rv # E) s E (s\<lparr>accept_bi_queue := accept_bi_queue s @ [(ss, rv)]\<rparr>)"
  by (simp add: transits_def grows_queues recvs_ok_def queued_recvs_def) (auto simp: refs_ok_def)

lemma transits_deliver_uni:
  assumes "deliver_uni rv s = (x, s')"
  shows "transits (rv # E) s E s'"
proof -
  obtain e s1 where pe: "protocol_error 3 ''accept queue full'' s = (e, s1)" by fastforce
  note full = transits_evolves_then [OF evolves_protocol_error [OF pe] transits_drop [of rv]]
  show ?thesis
    using assms pe full transits_drop transits_enqueue_uni by (auto simp: deliver_uni_def split: if_splits)
qed

lemma transits_drop_pair: "transits (rv # E) s E (drop_pair ss rv s)"
  unfolding drop_pair_def by (rule transits_evolves_then [OF evolves_send_stream_drop transits_drop])

lemma transits_deliver_bi:
  assumes "deliver_bi ss rv s = (x, s')" "ss_flow ss < next_ref s"
  shows "transits (rv # E) s E s'"
proof -
  obtain e s1 where pe: "protocol_error 3 ''accept queue full'' s = (e, s1)" by fastforce
  note full = transits_evolves_then [OF evolves_protocol_error [OF pe] transits_drop_pair [of rv]]
  show ?thesis
    using assms pe full transits_drop_pair transits_enqueue_bi by (auto simp: deliver_bi_def split: if_splits)
qed

section \<open>Arrival of data\<close>

lemma session_inv_bounds:
  assumes "session_inv s"
  shows "max_stream_data_per_frame (limits_of s) < 2 ^ 62" "initial_stream_window (limits_of s) < 2 ^ 62"
proof -
  have "limits_ok 64 (limits_of s)" using assms by (simp add: session_inv_def)
  then show "max_stream_data_per_frame (limits_of s) < 2 ^ 62" "initial_stream_window (limits_of s) < 2 ^ 62"
    unfolding limits_ok_def by linarith+
qed

text \<open>A data frame changes at most the channel its entry feeds.\<close>

lemma evolves_count_bytes:
  "hm_get (streams s) i = Some st \<Longrightarrow>
     evolves {sender st} s (s\<lparr>streams := hm_insert i (st\<lparr>received := n\<rparr>) (streams s)\<rparr>)"
  by (auto simp: evolves_defs hmap_simps split: if_splits)

lemma recv_link_arrival:
  assumes link: "recv_link rv s" and st: "hm_get (streams s) i = Some st" "sender st = receiver rv"
    and add: "checked_add (received st) (of_nat (length d)) = Some n" and len: "length d < 2 ^ 64"
    and room: "n \<le> chan_max (chan_mem s (sender st))"
    and inj: "\<forall>j st'. hm_get (streams s) j = Some st' \<and> sender st' = sender st \<longrightarrow> j = i"
  shows "recv_link rv (s\<lparr>streams := hm_insert i (st\<lparr>received := n\<rparr>) (streams s)\<rparr>)"
    and "\<not> stopped st \<Longrightarrow> recv_link rv (chan_update (sender st) (\<lambda>c. c\<lparr>items := items c @ [RecvEvent d fin]\<rparr>)
           (s\<lparr>streams := hm_insert i (st\<lparr>received := n\<rparr>) (streams s)\<rparr>))"
proof -
  have n: "unat n = unat (received st) + length d"
    using add len by (auto simp: checked_add_Some unat_add_no_wrap unat_of_nat_u64)
  have old: "\<not> stopped st \<longrightarrow> unat (consumed rv) + unread rv s \<le> unat (received st)" "rv_id rv = i"
    using link st by (auto simp: recv_link_def)
  show "recv_link rv (s\<lparr>streams := hm_insert i (st\<lparr>received := n\<rparr>) (streams s)\<rparr>)"
    using link inj n old by (auto simp: recv_link_def unread_def hmap_simps split: if_splits)
  assume "\<not> stopped st"
  with link st have rc: "unat (consumed rv) + unread rv s \<le> unat (received st)"
    and mx: "chan_max (chan_mem s (sender st)) = granted rv" by (auto simp: recv_link_def)
  have "unat (consumed rv) + unread rv s + length d \<le> unat (granted rv)"
    using room n rc mx by (simp add: word_le_nat_alt)
  then show "recv_link rv (chan_update (sender st) (\<lambda>c. c\<lparr>items := items c @ [RecvEvent d fin]\<rparr>)
           (s\<lparr>streams := hm_insert i (st\<lparr>received := n\<rparr>) (streams s)\<rparr>))"
    using link st inj n rc
    by (auto simp: recv_link_def unread_def queued_bytes_def chan_update_def hmap_simps split: if_splits)
qed

lemma transits_arrival:
  assumes "session_inv s" "hm_get (streams s) i = Some st"
    and "checked_add (received st) (of_nat (length d)) = Some n" "length d < 2 ^ 64"
    and "n \<le> chan_max (chan_mem s (sender st))"
  defines "s1 \<equiv> s\<lparr>streams := hm_insert i (st\<lparr>received := n\<rparr>) (streams s)\<rparr>"
  shows "transits E s E s1"
    and "\<not> stopped st \<Longrightarrow> transits E s E
      (chan_update (sender st) (\<lambda>c. c\<lparr>items := items c @ [RecvEvent d fin]\<rparr>) s1)"
proof -
  have inj: "\<forall>j st'. hm_get (streams s) j = Some st' \<and> sender st' = sender st \<longrightarrow> j = i"
    using assms(1,2) by (auto simp: session_inv_def streams_inv_def)
  note ev = evolves_count_bytes [OF assms(2), of n, folded s1_def]
  have others: "recvs_ok E s2"
    if ok: "recvs_ok E s" and ev2: "evolves {sender st} s s2"
      and own: "\<And>rv. recv_link rv s \<Longrightarrow> receiver rv = sender st \<Longrightarrow> recv_link rv s2" for s2
  proof -
    have "recv_link rv s2" if link: "recv_link rv s" for rv
    proof (cases "receiver rv = sender st")
      case False
      moreover have "receiver rv < next_ref s" using link by (simp add: recv_link_def)
      ultimately have "quiet (receiver rv) s s2" using ev2 by (simp add: evolves_def)
      then show ?thesis by (rule recv_link_quiet [OF link]) (use ev2 in \<open>simp_all add: evolves_def grows_def\<close>)
    qed (use own link in simp)
    then show ?thesis using ok ev2 by (simp add: recvs_ok_def evolves_def queued_recvs_def grows_def)
  qed
  show "transits E s E s1"
    using others [OF _ ev] recv_link_arrival(1) [OF _ assms(2) _ assms(3-5) inj] evolves_grows [OF ev]
    by (simp add: transits_def s1_def)
  show "transits E s E (chan_update (sender st) (\<lambda>c. c\<lparr>items := items c @ [RecvEvent d fin]\<rparr>) s1)"
    if live: "\<not> stopped st"
  proof -
    let ?s2 = "chan_update (sender st) (\<lambda>c. c\<lparr>items := items c @ [RecvEvent d fin]\<rparr>) s1"
    have ev2: "evolves {sender st} s ?s2" by (rule evolves_then [OF ev evolves_chan_update])
    have "recv_link rv ?s2" if "recv_link rv s" "receiver rv = sender st" for rv
      using recv_link_arrival(2) [OF that(1) assms(2) that(2) [symmetric] assms(3-5) inj live]
      by (simp add: s1_def)
    then show ?thesis using others [OF _ ev2] evolves_grows [OF ev2] by (simp add: transits_def)
  qed
qed

lemma transits_remove_recv: "transits E s E (snd (remove_recv_stream i s))"
  by (rule transits_evolves) (use evolves_remove_recv_stream in \<open>metis prod.collapse\<close>)

lemma transits_handle_stream:
  assumes inv: "session_inv s" and h: "handle_stream i d fin s = (r, s')"
  shows "transits E s E s'"
proof -
  have pe: "transits E s E u" if "transits E s E t" "protocol_error code reason t = (r, u)" for t u code reason
    using transits_trans [OF that(1) transits_evolves [OF evolves_protocol_error [OF that(2)]]] .
  have lim: "length d \<le> max_stream_data_per_frame (limits_of s) \<Longrightarrow> length d < 2 ^ 64"
    using session_inv_bounds [OF inv] by simp
  note retire = transits_trans [OF _ transits_remove_recv]
  show ?thesis
  proof (cases "hm_get (streams s) i")
    case None
    then show ?thesis using h by (auto simp: handle_stream_def intro: pe split: if_splits)
  next
    case (Some st)
    show ?thesis
    proof (cases "checked_add (received st) (of_nat (length d))")
      case None
      then show ?thesis using h Some by (auto simp: handle_stream_def intro: pe split: if_splits)
    next
      case add: (Some n)
      show ?thesis
      proof (cases "length d \<le> max_stream_data_per_frame (limits_of s) \<and> n \<le> chan_max (chan_mem s (sender st))")
        case False
        then show ?thesis
          using h Some add by (auto simp: handle_stream_def not_le intro: pe split: if_splits)
      next
        case True
        note arr = transits_arrival [OF inv Some add lim [OF conjunct1 [OF True]] conjunct2 [OF True]]
        show ?thesis
          using h Some add True arr retire [OF arr(1)] retire [OF arr(2)] pe [OF arr(1)]
          by (auto simp: handle_stream_def Let_def split: if_splits)
      qed
    qed
  qed
qed

section \<open>The frame handler\<close>

fun hf_await_recvs :: "hf_await \<Rightarrow> recv_stream list" where
  "hf_await_recvs (AwaitUniCredit rv) = [rv]"
| "hf_await_recvs (AwaitBiCredit rv) = [rv]"
| "hf_await_recvs _ = []"

fun hf_recvs :: "(hf_await, error + unit) async \<Rightarrow> recv_stream list" where
  "hf_recvs (Awaiting k) = hf_await_recvs k"
| "hf_recvs (Finished _) = []"

fun reg_recvs :: "(recv_stream, (u64 \<times> string) + recv_stream) async \<Rightarrow> recv_stream list" where
  "reg_recvs (Awaiting rv) = [rv]"
| "reg_recvs (Finished (Inr rv)) = [rv]"
| "reg_recvs (Finished (Inl _)) = []"

lemma transits_initial_credit:
  "initial_credit_result rv (p, s) = (r, s') \<Longrightarrow> transits (rv # E) s (reg_recvs r @ E) s'"
  by (auto simp: initial_credit_result_def intro: transits_drop split: poll.splits sum.splits)

lemma transits_try_register:
  assumes "session_inv s" and "try_register_inbound_recv_stream i s = (r, s')"
  shows "transits E s (reg_recvs r @ E) s'"
proof -
  obtain rv s1 where reg: "register_recv_stream i s = (rv, s1)" by fastforce
  obtain p s2 where snd: "send_frame (initial_credit_frame i s1) s1 = (p, s2)" by fastforce
  have "transits E s (rv # E) s1"
    by (rule transits_register [OF reg]) (use assms(1) in \<open>simp add: session_inv_def\<close>)
  also have "transits (rv # E) s1 (rv # E) s2" by (rule transits_evolves [OF evolves_send_frame [OF snd]])
  finally have "transits E s (rv # E) s2" .
  from transits_trans [OF this transits_initial_credit] show ?thesis
    using assms(2) reg snd by (auto simp: try_register_inbound_recv_stream_def split: if_splits)
qed

lemma transits_protocol_error:
  "apfst Finished (protocol_error code reason s) = (r, s') \<Longrightarrow> transits E s (hf_recvs r @ E) s'"
  using transits_evolves [OF evolves_protocol_error]
  by (cases "protocol_error code reason s") auto

lemma transits_open_uni_registered:
  assumes "open_uni_registered (q, s) = (r, s')"
  shows "transits (reg_recvs q @ E) s (hf_recvs r @ E) s'"
proof (cases q rule: reg_recvs.cases)
  case (2 rv)
  then show ?thesis
    using assms transits_deliver_uni [of rv s]
    by (cases "deliver_uni rv s") (auto simp: open_uni_registered_def)
next
  case (3 e)
  then show ?thesis
    using assms transits_protocol_error by (cases e) (auto simp: open_uni_registered_def)
qed (use assms in \<open>auto simp: open_uni_registered_def\<close>)

lemma transits_open_bi_flow:
  assumes "open_bi_registered (Finished (Inr rv), s) = (r, s')"
  shows "transits (rv # E) s E s' \<and> hf_recvs r = []"
proof -
  obtain q s1 where reg: "register_send_flow (rv_id rv) 0 s = (q, s1)" by fastforce
  note e1 = evolves_register_send_flow [OF reg]
  show ?thesis
  proof (cases q)
    case (Inl e)
    obtain x s2 where pe: "protocol_error 3 (error_to_string e) s1 = (x, s2)" by fastforce
    have "transits (rv # E) s E (recv_stream_drop rv s2)"
      by (rule transits_evolves_then [OF evolves_then [OF e1 evolves_protocol_error [OF pe]] transits_drop])
    then show ?thesis using assms reg Inl pe by (auto simp: open_bi_registered_def)
  next
    case (Inr flow)
    obtain ss s2 where new: "send_stream_new (rv_id rv) flow s1 = (ss, s2)" by fastforce
    obtain x s3 where del: "deliver_bi ss rv s2 = (x, s3)" by fastforce
    have "ss_flow ss < next_ref s2"
      using reg Inr new
      by (auto simp: register_send_flow_def send_stream_new_def Let_def split: if_splits)
    then have "transits (rv # E) s E s3"
      by (rule transits_evolves_then [OF evolves_then [OF e1 evolves_send_stream_new [OF new]]
            transits_deliver_bi [OF del]])
    then show ?thesis using assms reg Inr new del by (auto simp: open_bi_registered_def)
  qed
qed

lemma transits_open_bi_registered:
  assumes "open_bi_registered (q, s) = (r, s')"
  shows "transits (reg_recvs q @ E) s (hf_recvs r @ E) s'"
proof (cases q rule: reg_recvs.cases)
  case (2 rv)
  then show ?thesis using assms transits_open_bi_flow [of rv s r s' E] by auto
next
  case (3 e)
  then show ?thesis
    using assms transits_protocol_error by (cases e) (auto simp: open_bi_registered_def)
qed (use assms in \<open>auto simp: open_bi_registered_def\<close>)

lemma transits_handle_open:
  assumes "session_inv s" and "handle_open_uni i s = (r, s') \<or> handle_open_bi i s = (r, s')"
  shows "transits E s (hf_recvs r @ E) s'"
proof -
  obtain b s1 where v: "validate_peer_stream_id i s = (b, s1)" by fastforce
  note e1 = evolves_validate_peer [OF v]
  have inv1: "session_inv s1" by (rule session_inv_validate_peer [OF assms(1) v])
  obtain q s2 where reg: "try_register_inbound_recv_stream i s1 = (q, s2)" by fastforce
  note t2 = transits_evolves_then [OF e1 transits_try_register [OF inv1 reg]]
  show ?thesis
    using assms(2) v reg transits_protocol_error transits_evolves_then [OF e1 transits_protocol_error]
      transits_trans [OF t2 transits_open_uni_registered] transits_trans [OF t2 transits_open_bi_registered]
    by (auto simp: handle_open_uni_def handle_open_bi_def split: if_splits bool.splits)
qed

lemma transits_handle_stop:
  assumes "handle_stop i code s = (r, s')"
  shows "transits E s (hf_recvs r @ E) s'"
proof -
  obtain b s1 where rm: "remove_send_flow i s = (b, s1)" by fastforce
  note e1 = evolves_remove_send_flow [OF rm]
  obtain p s2 where snd: "send_frame (ResetStream i code) s1 = (p, s2)" by fastforce
  show ?thesis
    using assms rm snd transits_evolves [OF e1] transits_evolves_then [OF e1 transits_protocol_error]
      transits_evolves [OF evolves_then [OF e1 evolves_send_frame [OF snd]]]
    by (auto simp: handle_stop_def await_at_def split: bool.splits poll.splits if_splits)
qed

lemma transits_handle_reset:
  assumes "handle_reset i s = (r, s')"
  shows "transits E s E s'"
proof -
  obtain b s1 where rm: "remove_recv_stream i s = (b, s1)" by fastforce
  note e1 = evolves_remove_recv_stream [OF rm]
  show ?thesis
    using assms rm transits_evolves [OF e1] transits_evolves [OF evolves_then [OF e1 evolves_protocol_error]]
    by (auto simp: handle_reset_def split: if_splits)
qed

lemma evolves_handle_max_data: "evolves X s (handle_max_data i m s)"
  by (auto simp: handle_max_data_def update_max_def intro!: evolves_flow_update split: option.splits)

lemma transits_handle_frame:
  assumes "session_inv s" and "handle_frame f s = (r, s')"
  shows "transits E s (hf_recvs r @ E) s'"
proof (cases f)
  case (Stream i d fin)
  then show ?thesis
    using assms by (cases "handle_stream i d fin s") (auto intro: transits_handle_stream)
next
  case (ResetStream i c)
  then show ?thesis
    using assms by (cases "handle_reset i s") (auto intro: transits_handle_reset)
qed (use assms in \<open>auto intro: transits_handle_open transits_handle_stop
      transits_evolves [OF evolves_handle_max_data] transits_evolves [OF evolves_close_all]\<close>)

lemma transits_handle_frame_resume:
  assumes "handle_frame_resume k s = (r, s')"
  shows "transits (hf_await_recvs k @ E) s (hf_recvs r @ E) s'"
proof -
  have credit: "transits (rv # E) s (reg_recvs q @ E) s1"
    if "initial_credit_result rv (send_frame_resume f s) = (q, s1)" for rv f q s1
  proof -
    obtain p s2 where snd: "send_frame_resume f s = (p, s2)" by fastforce
    from transits_evolves_then [OF evolves_send_frame_resume [OF snd] transits_initial_credit] that snd
    show ?thesis by simp
  qed
  show ?thesis
  proof (cases k)
    case (AwaitUniCredit rv)
    then show ?thesis
      using assms transits_trans [OF credit [of rv "initial_credit_frame (rv_id rv) s"] transits_open_uni_registered [of _ _ r s']]
      by (cases "initial_credit_result rv (send_frame_resume (initial_credit_frame (rv_id rv) s) s)") simp
  next
    case (AwaitBiCredit rv)
    then show ?thesis
      using assms transits_trans [OF credit [of rv "initial_credit_frame (rv_id rv) s"] transits_open_bi_registered [of _ _ r s']]
      by (cases "initial_credit_result rv (send_frame_resume (initial_credit_frame (rv_id rv) s) s)") simp
  next
    case (AwaitStopReset i code)
    then show ?thesis
      using assms transits_evolves [OF evolves_send_frame_resume]
      by (cases "send_frame_resume (ResetStream i code) s") (auto simp: await_at_def split: poll.splits)
  qed
qed

lemma transits_handle_frame_cancel: "transits (hf_await_recvs k @ E) s E (handle_frame_cancel k s)"
  by (cases k) (auto intro: transits_drop)

end
