(* ===== verification/Recv_Safety.thy ===== *)
theory Recv_Safety
  imports Session_Handles
begin

text \<open>
  Reading. Every read returns bytes in the order they arrived, moves them from unread to consumed,
  and keeps the handle tied to its channel; credit is granted up to the window above the consumed
  bytes, capped at the varint maximum.
\<close>

section \<open>Consuming keeps the handle linked\<close>

lemma recv_link_fields [simp]:
  "recv_link (rv\<lparr>rv_finished := b\<rparr>) s = recv_link rv s"
  "recv_link (rv\<lparr>stop_sent := c\<rparr>) s = recv_link rv s"
  "unread (rv\<lparr>rv_finished := b\<rparr>) s = unread rv s"
  "unread (rv\<lparr>stop_sent := c\<rparr>) s = unread rv s"
  by (simp_all add: recv_link_def unread_def)

text \<open>The credit target after \<open>c\<close> consumed bytes.\<close>

definition credit_target :: "recv_stream \<Rightarrow> u64" where
  "credit_target rv = min (saturating_add (consumed rv) (initial_window rv)) (into_inner varint_MAX)"

lemma credit_target_varint: "in_varint (credit_target rv)"
  by (simp add: credit_target_def le_varint_MAX_iff [symmetric])

lemma credit_target_le: "unat (credit_target rv) \<le> unat (consumed rv) + unat (initial_window rv)"
  by (simp add: credit_target_def unat_min unat_saturating_add)

text \<open>The outcomes of \<open>on_bytes_consumed\<close>: the count alone, or the count and a new grant.\<close>

lemma on_bytes_consumed_cases:
  assumes "on_bytes_consumed n rv s = (rv', s')"
  defines "rv1 \<equiv> rv\<lparr>consumed := saturating_add (consumed rv) (of_nat n)\<rparr>"
  obtains "n = 0" "rv' = rv" "s' = s"
  | "n \<noteq> 0" "rv' = rv1" "s' = s"
      "credit_target rv1 \<le> granted rv1 \<or> credit_target rv1 - granted rv1 < update_threshold rv1
       \<or> rv_finished rv1 \<or> stop_sent rv1"
  | "n \<noteq> 0" "granted rv < credit_target rv1" "rv' = rv1\<lparr>granted := credit_target rv1\<rparr>"
      "\<not> rv_finished rv" "\<not> stop_sent rv"
      "s' = queue_credit (rv_id rv) (credit_target rv1)
         (chan_update (receiver rv) (\<lambda>c. c\<lparr>chan_max := credit_target rv1\<rparr>) s)"
  using assms
  by (auto simp: on_bytes_consumed_def credit_target_def Let_def not_le split: if_splits)

lemma recv_link_consume:
  assumes "recv_link (rv\<lparr>rv_pending := xs @ rv_pending rv\<rparr>) s"
  shows "recv_link (rv\<lparr>consumed := saturating_add (consumed rv) (of_nat (length xs))\<rparr>) s"
    and "unat (saturating_add (consumed rv) (of_nat (length xs))) = unat (consumed rv) + length xs"
proof -
  have le: "unat (consumed rv) + length xs \<le> unat (granted rv)"
    using assms by (simp add: recv_link_def unread_def)
  also have "\<dots> < 2 ^ 62" using assms by (simp add: recv_link_def in_varint_def)
  finally have lt: "unat (consumed rv) + length xs < 2 ^ 62" .
  then have "unat (of_nat (length xs) :: u64) = length xs" by (intro unat_of_nat_u64) simp
  with lt show c: "unat (saturating_add (consumed rv) (of_nat (length xs))) = unat (consumed rv) + length xs"
    by (simp add: unat_saturating_add)
  show "recv_link (rv\<lparr>consumed := saturating_add (consumed rv) (of_nat (length xs))\<rparr>) s"
    using assms by (fastforce simp: recv_link_def unread_def c)
qed

lemma recv_link_grant:
  assumes "recv_link rv s" "granted rv < credit_target rv"
  shows "recv_link (rv\<lparr>granted := credit_target rv\<rparr>)
           (chan_update (receiver rv) (\<lambda>c. c\<lparr>chan_max := credit_target rv\<rparr>) s)"
  using assms credit_target_le [of rv] credit_target_varint [of rv]
  by (auto simp: recv_link_def unread_def queued_bytes_def chan_update_def word_less_nat_alt)

lemma transits_replace:
  assumes "evolves {receiver rv} s s'" "recv_link rv s \<Longrightarrow> recv_link rv' s'" "receiver rv' = receiver rv"
  shows "transits (rv # E) s (rv' # E) s'"
proof -
  have "recvs_ok (rv' # E) s'" if ok: "recvs_ok (rv # E) s"
  proof -
    have q: "queued_recvs s' = queued_recvs s" using assms(1) by (simp add: evolves_def queued_recvs_def)
    have other: "receiver rv \<notin> receiver ` set (E @ queued_recvs s)"
      using ok by (simp add: recvs_ok_def image_Un)
    have "recv_link x s'" if "x \<in> set (E @ queued_recvs s)" for x
    proof (rule recv_link_quiet)
      show l: "recv_link x s" using ok that by (auto simp: recvs_ok_def)
      have "receiver x \<noteq> receiver rv" using other that by (metis image_eqI)
      then show "quiet (receiver x) s s'" using assms(1) l by (simp add: evolves_def recv_link_def)
    qed (use assms(1) in \<open>simp_all add: evolves_def grows_def\<close>)
    moreover have "recv_link rv' s'" using ok assms(2) by (simp add: recvs_ok_def)
    moreover have "refs_ok s'" using ok assms(1) by (simp add: evolves_def grows_def recvs_ok_def)
    ultimately show ?thesis using ok q assms(3) by (simp add: recvs_ok_def)
  qed
  then show ?thesis using assms(1) by (simp add: transits_def evolves_grows)
qed

lemma transits_consume:
  assumes "on_bytes_consumed (length xs) rv s = (rv', s')"
  shows "transits (rv\<lparr>rv_pending := xs @ rv_pending rv\<rparr> # E) s (rv' # E) s'"
  using assms
proof (cases rule: on_bytes_consumed_cases)
  case 1
  then show ?thesis by simp
next
  case 2
  then show ?thesis by (intro transits_replace) (auto intro: recv_link_consume)
next
  case 3
  let ?rv1 = "rv\<lparr>consumed := saturating_add (consumed rv) (of_nat (length xs))\<rparr>"
  let ?t = "chan_update (receiver rv) (\<lambda>c. c\<lparr>chan_max := credit_target ?rv1\<rparr>) s"
  have "transits (rv\<lparr>rv_pending := xs @ rv_pending rv\<rparr> # E) s (rv' # E) ?t"
    using recv_link_grant [of ?rv1 s] recv_link_consume(1) [where rv = rv and xs = xs and s = s] 3 evolves_chan_update
    by (intro transits_replace) auto
  moreover have "transits (rv' # E) ?t (rv' # E) s'"
    unfolding 3 by (rule transits_evolves [OF evolves_queue_credit])
  ultimately show ?thesis by (rule transits_trans)
qed

lemma transits_chan_recv:
  assumes "chan_recv (receiver rv) s = (Ready (Some e), s')" "rv_pending rv = []"
  shows "transits (rv # E) s (rv\<lparr>rv_pending := ev_data e\<rparr> # E) s'"
proof (rule transits_replace)
  obtain es where es: "items (chan_mem s (receiver rv)) = e # es"
    "s' = chan_update (receiver rv) (\<lambda>c. c\<lparr>items := es\<rparr>) s"
    using assms(1) by (auto simp: chan_recv_def split: list.splits if_splits)
  then show "evolves {receiver rv} s s'" by (simp add: evolves_chan_update)
  show "recv_link (rv\<lparr>rv_pending := ev_data e\<rparr>) s'" if "recv_link rv s"
    using that es assms(2)
    by (auto simp: recv_link_def unread_def queued_bytes_def chan_update_def)
qed simp

section \<open>Reads preserve the invariants\<close>

lemma session_inv_consume:
  assumes "session_inv s" "chan_max (chan_mem s (receiver rv)) = granted rv"
    and "on_bytes_consumed n rv s = (rv', s')"
  shows "session_inv s'"
  using assms(3)
proof (cases rule: on_bytes_consumed_cases)
  case 3
  then show ?thesis
    using assms(1,2) credit_target_varint
    by (auto intro!: session_inv_queue_credit session_inv_chan_update)
qed (use assms in auto)

lemma session_inv_chan_recv:
  assumes "session_inv s" "chan_recv r s = (p, s')"
  shows "session_inv s'"
  using assms by (auto simp: chan_recv_def intro!: session_inv_chan_update split: list.splits)

lemma chan_recv_max: "chan_recv r s = (p, s') \<Longrightarrow> chan_max (chan_mem s' q) = chan_max (chan_mem s q)"
  by (auto simp: chan_recv_def chan_update_def split: list.splits if_splits)

lemma chan_recv_none: "chan_recv r s = (p, s') \<Longrightarrow> (\<nexists>e. p = Ready (Some e)) \<Longrightarrow> s' = s"
  by (auto simp: chan_recv_def split: list.splits if_splits)

text \<open>
  What a read step of a handle guarantees: the session invariant, and a transition in which the
  handle is replaced by its successor.
\<close>

definition read_ok :: "recv_stream \<Rightarrow> session \<Rightarrow> recv_stream \<Rightarrow> session \<Rightarrow> bool" where
  "read_ok rv s rv' s' \<longleftrightarrow>
     (session_inv s \<and> recv_link rv s \<longrightarrow> session_inv s') \<and> rv_id rv' = rv_id rv
     \<and> (\<forall>E. transits (rv # E) s (rv' # E) s')"

lemma read_ok_refl [simp]: "read_ok rv s rv s"
  by (simp add: read_ok_def)

lemma transits_finished: "transits (rv # E) s (rv\<lparr>rv_finished := b\<rparr> # E) s"
  by (auto simp: transits_def recvs_ok_def)

lemma read_ok_finished [simp]: "read_ok rv s (rv\<lparr>rv_finished := b\<rparr>) s"
  by (simp add: read_ok_def transits_finished)

lemma read_ok_trans:
  assumes "read_ok rv s rv1 s1" "read_ok rv1 s1 rv2 s2"
    and "recv_link rv s \<Longrightarrow> recv_link rv1 s1"
  shows "read_ok rv s rv2 s2"
  using assms transits_trans unfolding read_ok_def by metis

lemma read_ok_consume:
  assumes "on_bytes_consumed (length xs) rv s = (rv', s')"
  shows "read_ok (rv\<lparr>rv_pending := xs @ rv_pending rv\<rparr>) s rv' s'"
proof -
  have "rv_id rv' = rv_id rv"
    using assms by (cases rule: on_bytes_consumed_cases) auto
  then show ?thesis
    using transits_consume [OF assms] session_inv_consume [OF _ _ assms]
    by (auto simp: read_ok_def recv_link_def)
qed

lemma read_ok_take_pending:
  assumes "take_pending n rv s = (out, rv', s')"
  shows "read_ok rv s rv' s'"
proof -
  let ?amt = "min n (length (rv_pending rv))"
  let ?xs = "take ?amt (rv_pending rv)" and ?rv = "rv\<lparr>rv_pending := drop ?amt (rv_pending rv)\<rparr>"
  have "on_bytes_consumed (length ?xs) ?rv s = (rv', s')"
    using assms by (auto simp: take_pending_def Let_def split: prod.splits)
  from read_ok_consume [OF this] show ?thesis by simp
qed

lemma read_ok_chan_recv:
  assumes "chan_recv (receiver rv) s = (Ready (Some e), s')" "rv_pending rv = []"
  shows "read_ok rv s (rv\<lparr>rv_finished := b, rv_pending := ev_data e\<rparr>) s'"
    and "recv_link rv s \<Longrightarrow> recv_link (rv\<lparr>rv_finished := b, rv_pending := ev_data e\<rparr>) s'"
proof -
  obtain es where es: "items (chan_mem s (receiver rv)) = e # es"
    "s' = chan_update (receiver rv) (\<lambda>c. c\<lparr>items := es\<rparr>) s"
    using assms(1) by (auto simp: chan_recv_def split: list.splits if_splits)
  show link: "recv_link (rv\<lparr>rv_finished := b, rv_pending := ev_data e\<rparr>) s'" if "recv_link rv s"
    using that es assms(2)
    by (auto simp: recv_link_def unread_def queued_bytes_def chan_update_def)
  have "transits (rv # E) s (rv\<lparr>rv_finished := b, rv_pending := ev_data e\<rparr> # E) s'" for E
    using es link by (intro transits_replace) (auto simp: evolves_chan_update)
  then show "read_ok rv s (rv\<lparr>rv_finished := b, rv_pending := ev_data e\<rparr>) s'"
    using session_inv_chan_recv [OF _ assms(1)] by (simp add: read_ok_def)
qed

lemma read_ok_chan_consume:
  assumes "chan_recv (receiver rv) s = (Ready (Some e), s1)" "rv_pending rv = []"
    and "on_bytes_consumed n (rv\<lparr>rv_finished := b, rv_pending := drop n (ev_data e)\<rparr>) s1 = (rv', s')"
    and "n \<le> length (ev_data e)"
  shows "read_ok rv s rv' s'"
proof (rule read_ok_trans [OF read_ok_chan_recv(1) [OF assms(1,2)] _ read_ok_chan_recv(2) [OF assms(1,2)]])
  have "length (take n (ev_data e)) = n" using assms(4) by simp
  with read_ok_consume [of "take n (ev_data e)"] assms(3)
  show "read_ok (rv\<lparr>rv_finished := b, rv_pending := ev_data e\<rparr>) s1 rv' s'" by fastforce
qed

section \<open>The read operations\<close>

lemma mark_finished:
  "(if f then rv\<lparr>rv_finished := True\<rparr> else rv) = rv\<lparr>rv_finished := f \<or> rv_finished rv\<rparr>"
  by simp

lemma pending_Nil: "rv_pending rv = [] \<Longrightarrow> rv\<lparr>rv_finished := b, rv_pending := []\<rparr> = rv\<lparr>rv_finished := b\<rparr>"
  by (cases rv) simp

text \<open>The bytes a handle will still deliver.\<close>

definition contents :: "recv_stream \<Rightarrow> session \<Rightarrow> bytes" where
  "contents rv s = rv_pending rv @ concat (map ev_data (items (chan_mem s (receiver rv))))"

lemma contents_finished [simp]: "contents (rv\<lparr>rv_finished := b\<rparr>) s = contents rv s"
  by (simp add: contents_def)

lemma queue_credit_chan [simp]: "chan_mem (queue_credit i m s) = chan_mem s"
  by (simp add: queue_credit_def request_shutdown_def Let_def split: option.splits)

lemma contents_consume:
  assumes "on_bytes_consumed n rv s = (rv', s')"
  shows "contents rv' s' = contents rv s"
  using assms by (cases rule: on_bytes_consumed_cases) (auto simp: contents_def chan_update_def)

lemma contents_take_pending:
  assumes "take_pending n rv s = (out, rv', s')"
  shows "contents rv s = out @ contents rv' s'" "out = take n (rv_pending rv)"
proof -
  let ?amt = "min n (length (rv_pending rv))"
  have "on_bytes_consumed ?amt (rv\<lparr>rv_pending := drop ?amt (rv_pending rv)\<rparr>) s = (rv', s')"
    and out: "out = take ?amt (rv_pending rv)"
    using assms by (auto simp: take_pending_def Let_def split: prod.splits)
  from contents_consume [OF this(1)] out show "contents rv s = out @ contents rv' s'"
    by (simp add: contents_def append_assoc [symmetric] del: append_assoc)
  show "out = take n (rv_pending rv)" using out by (simp add: min_def)
qed

lemma contents_chan_recv:
  assumes "chan_recv (receiver rv) s = (Ready (Some e), s')" "rv_pending rv = []"
  shows "contents rv s = ev_data e @ contents rv s'"
  using assms by (auto simp: chan_recv_def contents_def chan_update_def split: list.splits if_splits)

text \<open>
  The specification every read operation meets: bytes come out in order and at most \<open>n\<close> of them, the end
  is reported with nothing left over by the read, and a suspended read leaves everything as it was.
\<close>

definition read_spec ::
  "nat \<Rightarrow> recv_stream \<Rightarrow> session \<Rightarrow> (error + bytes option) poll \<times> recv_stream \<times> session \<Rightarrow> bool" where
  "read_spec n rv s r = (case r of
     (Ready (Inr (Some out)), rv', s') \<Rightarrow>
       read_ok rv s rv' s' \<and> contents rv s = out @ contents rv' s' \<and> length out \<le> n
   | (Ready (Inr None), rv', s') \<Rightarrow>
       read_ok rv s rv' s' \<and> contents rv s = contents rv' s' \<and> rv_pending rv = [] \<and> rv_finished rv'
   | (Ready (Inl e), rv', s') \<Rightarrow> n = 0 \<and> rv' = rv \<and> s' = s
   | (Pending, rv', s') \<Rightarrow> rv' = rv \<and> s' = s \<and> contents rv s = [] \<and> sender_alive (receiver rv) s)"

lemma chan_recv_cases:
  obtains (wait) "chan_recv r s = (Pending, s)" "items (chan_mem s r) = []" "sender_alive r s"
  | (ended) "chan_recv r s = (Ready None, s)" "items (chan_mem s r) = []" "\<not> sender_alive r s"
  | (event) e s' where "chan_recv r s = (Ready (Some e), s')"
  by (cases "items (chan_mem s r)") (auto simp: chan_recv_def split: if_splits)

lemma take_pending_spec:
  assumes "take_pending n rv s = (out, rv', s')"
  shows "read_spec n rv s (Ready (Inr (Some out)), rv', s')"
  using read_ok_take_pending [OF assms] contents_take_pending [OF assms] by (simp add: read_spec_def)

text \<open>Receiving an event and then taking from it is one read.\<close>

lemma read_spec_event:
  assumes "chan_recv (receiver rv) s = (Ready (Some e), s1)" "rv_pending rv = []"
    and "take_pending n (rv\<lparr>rv_finished := b, rv_pending := ev_data e\<rparr>) s1 = (out, rv', s')"
  shows "read_spec n rv s (Ready (Inr (Some out)), rv', s')"
proof -
  let ?rv = "rv\<lparr>rv_finished := b, rv_pending := ev_data e\<rparr>"
  have "read_ok rv s rv' s'"
    by (rule read_ok_trans [OF read_ok_chan_recv(1) [OF assms(1,2)] read_ok_take_pending [OF assms(3)]
          read_ok_chan_recv(2) [OF assms(1,2)]])
  moreover have "contents rv s = contents ?rv s1"
    using contents_chan_recv [OF assms(1,2)] assms(2) by (simp add: contents_def)
  ultimately show ?thesis
    using contents_take_pending [OF assms(3)] by (simp add: read_spec_def)
qed

text \<open>An empty event that carries FIN ends the stream.\<close>

lemma read_spec_fin:
  assumes "chan_recv (receiver rv) s = (Ready (Some e), s')" "rv_pending rv = []" "ev_data e = []"
  shows "read_spec n rv s (Ready (Inr None), rv\<lparr>rv_finished := True\<rparr>, s')"
  using read_ok_chan_recv(1) [OF assms(1,2), of True] contents_chan_recv [OF assms(1,2)] assms(2,3)
  by (simp add: read_spec_def pending_Nil)

lemma recv_read_spec: "read_spec n rv s (recv_read n rv s)"
proof (cases "n = 0 \<or> rv_pending rv \<noteq> [] \<or> rv_finished rv")
  case True
  then show ?thesis
    using take_pending_spec [of n rv s]
    by (auto simp: recv_read_def read_spec_def contents_def split: prod.splits)
next
  case False
  show ?thesis
  proof (cases rule: chan_recv_cases [of "receiver rv" s])
    case (event e s1)
    obtain out rv' s' where "take_pending n (rv\<lparr>rv_finished := ev_fin e \<or> rv_finished rv, rv_pending := ev_data e\<rparr>) s1
        = (out, rv', s')" by (metis prod_cases3)
    with False event read_spec_event [OF event(1)] read_spec_fin [OF event(1)] show ?thesis
      by (auto simp: recv_read_def read_chunk_internal_def mark_finished Let_def)
  qed (use False in \<open>auto simp: recv_read_def read_chunk_internal_def read_spec_def contents_def\<close>)
qed

lemma recv_read_buf_eq: "recv_read_buf n rv s = recv_read n rv s"
  by (auto simp: recv_read_buf_def recv_read_def apfst_def map_prod_def split: prod.splits poll.splits sum.splits option.splits)

lemma read_spec_chunk:
  assumes "chan_recv (receiver rv) s = (Ready (Some e), s1)" "rv_pending rv = []" "n \<le> length (ev_data e)"
    and "on_bytes_consumed n (rv\<lparr>rv_finished := b, rv_pending := drop n (ev_data e)\<rparr>) s1 = (rv', s')"
    and "n \<le> mx"
  shows "read_spec mx rv s (Ready (Inr (Some (take n (ev_data e)))), rv', s')"
proof -
  have "contents rv s = take n (ev_data e) @ contents rv' s'"
    using contents_chan_recv [OF assms(1,2)] contents_consume [OF assms(4)] assms(2)
    by (simp add: contents_def append_assoc [symmetric] del: append_assoc)
  with read_ok_chan_consume [OF assms(1,2,4,3)] assms(3,5) show ?thesis by (simp add: read_spec_def)
qed

lemma recv_read_chunk_spec: "read_spec mx rv s (recv_read_chunk mx rv s)"
proof (cases "mx = 0 \<or> rv_pending rv \<noteq> [] \<or> rv_finished rv")
  case True
  then show ?thesis
    using take_pending_spec [of mx rv s]
    by (auto simp: recv_read_chunk_def read_spec_def contents_def take_pending_def Let_def min.commute
        split: prod.splits)
next
  case False
  show ?thesis
  proof (cases rule: chan_recv_cases [of "receiver rv" s])
    case (event e s1)
    let ?b = "ev_fin e \<or> rv_finished rv" and ?n = "min mx (length (ev_data e))"
    obtain rv' s' where c: "on_bytes_consumed ?n (rv\<lparr>rv_finished := ?b, rv_pending := drop ?n (ev_data e)\<rparr>) s1
        = (rv', s')" by fastforce
    note spec = read_spec_chunk [OF event(1) _ _ c, of mx]
    show ?thesis
      using False event c spec read_spec_fin [OF event(1)]
      by (auto simp: recv_read_chunk_def mark_finished Let_def min_def pending_Nil split: if_splits)
  qed (use False in \<open>auto simp: recv_read_chunk_def read_spec_def contents_def\<close>)
qed

text \<open>
  \<open>poll_read\<close> reports the end of the stream by returning no bytes, so it must not return none for any
  other reason.
\<close>

definition poll_read_spec ::
  "nat \<Rightarrow> recv_stream \<Rightarrow> session \<Rightarrow> bytes poll \<times> recv_stream \<times> session \<Rightarrow> bool" where
  "poll_read_spec n rv s r = (case r of
     (Ready out, rv', s') \<Rightarrow> read_ok rv s rv' s' \<and> contents rv s = out @ contents rv' s'
        \<and> length out \<le> n \<and> (out = [] \<and> n \<noteq> 0 \<longrightarrow> rv_finished rv')
   | (Pending, rv', s') \<Rightarrow> read_ok rv s rv' s' \<and> rv' = rv \<and> contents rv s = []
        \<and> contents rv' s' = [] \<and> sender_alive (receiver rv) s')"

lemma read_ok_skip:
  assumes "chan_recv (receiver rv) s = (Ready (Some e), s')" "rv_pending rv = []" "ev_data e = []"
  shows "read_ok rv s (rv\<lparr>rv_finished := b\<rparr>) s'" "recv_link rv s \<Longrightarrow> recv_link rv s'"
    "contents rv s = contents rv s'"
  using read_ok_chan_recv [OF assms(1,2)] contents_chan_recv [OF assms(1,2)] assms(2,3)
  by (simp_all add: pending_Nil)

lemma poll_read_spec_skip:
  assumes "chan_recv (receiver rv) s = (Ready (Some e), s1)" "rv_pending rv = []" "ev_data e = []"
    and "poll_read_spec n rv s1 r"
  shows "poll_read_spec n rv s r"
proof -
  have "read_ok rv s rv s1" using read_ok_skip(1) [OF assms(1-3), of "rv_finished rv"] by simp
  then show ?thesis
    using assms(4) read_ok_trans [of rv s rv s1] read_ok_skip(2,3) [OF assms(1-3)]
    by (auto simp: poll_read_spec_def split: poll.splits)
qed

lemma poll_read_loop_spec:
  "rv_pending rv = [] \<Longrightarrow> n \<noteq> 0 \<Longrightarrow> poll_read_spec n rv s (poll_read_loop n rv s)"
proof (induction n rv s rule: poll_read_loop.induct)
  case (1 n rv s)
  show ?case
  proof (cases rule: chan_recv_cases [of "receiver rv" s])
    case (event e s1)
    show ?thesis
    proof (cases "ev_data e = []")
      case True
      then show ?thesis
        using 1 event poll_read_spec_skip [OF event(1)] read_ok_skip(1) [OF event(1) "1.prems"(1) True, of True]
          read_ok_skip(3) [OF event(1) "1.prems"(1) True]
        by (auto simp: poll_read_loop.simps [of n rv s] poll_read_spec_def)
    next
      case False
      let ?b = "ev_fin e \<or> rv_finished rv" and ?n = "min (length (ev_data e)) n"
      obtain rv' s' where c: "on_bytes_consumed ?n (rv\<lparr>rv_finished := ?b, rv_pending := drop ?n (ev_data e)\<rparr>) s1
          = (rv', s')" by fastforce
      from read_spec_chunk [OF event(1) "1.prems"(1) _ c, of n] show ?thesis
        using 1 event c False
        by (auto simp: poll_read_loop.simps [of n rv s] poll_read_spec_def read_spec_def mark_finished Let_def
            min_def pending_Nil split: if_splits)
    qed
  qed (use 1 in \<open>auto simp: poll_read_loop.simps [of n rv s] poll_read_spec_def contents_def\<close>)
qed

lemma poll_read_spec: "poll_read_spec n rv s (poll_read n rv s)"
  using take_pending_spec [of n rv s] poll_read_loop_spec [of rv n s] contents_take_pending(2) [of n rv s]
  by (auto simp: poll_read_def poll_read_spec_def read_spec_def split: prod.splits)

end
