(* ===== verification/Send_Safety.thy ===== *)
theory Send_Safety
  imports Session_Handles
begin

text \<open>
  Writing. Every send operation preserves the session invariant; a reservation is either on the wire,
  held by a suspended write, or given back; no data frame is queued for a stream without send state.
\<close>

section \<open>Reservations\<close>

lemma release_ok:
  assumes "flow_ok f" "n \<le> unat (sent_data f)"
  shows "flow_ok (release n f)" "unat (sent_data (release n f)) = unat (sent_data f) - n"
    "flow_closed (release n f) = flow_closed f" "max_data (release n f) = max_data f"
proof -
  have n: "unat (of_nat n :: u64) = n"
    using assms(2) unat_u64_less [of "sent_data f"] by (intro unat_of_nat_u64) linarith
  then have "of_nat n \<le> sent_data f" using assms(2) by (simp add: word_le_nat_alt)
  then show s: "unat (sent_data (release n f)) = unat (sent_data f) - n"
    using n by (simp add: release_def unat_diff_le)
  show m: "flow_closed (release n f) = flow_closed f" "max_data (release n f) = max_data f"
    by (simp_all add: release_def)
  show "flow_ok (release n f)"
    using assms(1) s m by (simp add: flow_ok_def word_le_nat_alt)
qed

lemma write_wanted_less: "write_wanted rest s < 2 ^ 64"
  by (simp add: write_wanted_def MAX_WRITE_CHUNK_def min_def)

lemma reserve_flow_ok:
  fixes s ss
  assumes "session_inv s" "wanted < 2 ^ 64"
    and "try_reserve wanted (flow_mem (flow_update (ss_flow ss) waker_register s) (ss_flow ss)) = (n, f)"
  defines "s' \<equiv> flow_update (ss_flow ss) (\<lambda>_. f) (flow_update (ss_flow ss) waker_register s)"
  shows "session_inv s'" "evolves {} s s'"
    "unat (sent_data (flow_mem s' (ss_flow ss))) = unat (sent_data (flow_mem s (ss_flow ss))) + n"
    "n \<le> wanted" "send_flows s' = send_flows s"
proof -
  let ?f = "flow_mem s (ss_flow ss)"
  have tr: "try_reserve wanted (waker_register ?f) = (n, f)"
    using assms(3) by (simp add: flow_update_def)
  have ok: "flow_ok (waker_register ?f)"
    using assms(1) by (simp add: session_inv_def flows_inv_def flow_ok_def waker_register_def)
  note ex = try_reserve_exact [OF ok tr assms(2)]
  have eq: "s' = flow_update (ss_flow ss) (\<lambda>_. f) s"
    by (simp add: s'_def flow_update_def)
  have sent: "unat (sent_data f) = unat (sent_data ?f) + n"
    using ex(1) by (simp add: waker_register_def)
  show "session_inv s'"
    unfolding eq using assms(1) ex(3) try_reserve_fields(2) [OF tr]
    by (intro session_inv_flow_update) (auto simp: waker_register_def)
  show "evolves {} s s'"
    unfolding eq using sent by (intro evolves_flow_update) (simp add: word_le_nat_alt)
  show "unat (sent_data (flow_mem s' (ss_flow ss))) = unat (sent_data ?f) + n"
    using sent by (simp add: eq flow_update_def)
  show "n \<le> wanted" using ex(2) by simp
  show "send_flows s' = send_flows s" by (simp add: eq flow_update_def)
qed

lemma reserve_poll_ok:
  assumes "session_inv s" "wanted < 2 ^ 64" "reserve_poll wanted ss s = (r, s')"
  defines "n \<equiv> (case r of Ready (Inr k) \<Rightarrow> k | _ \<Rightarrow> 0)"
  shows "session_inv s'" "evolves {} s s'"
    "unat (sent_data (flow_mem s' (ss_flow ss))) = unat (sent_data (flow_mem s (ss_flow ss))) + n"
    "n \<le> wanted" "send_flows s' = send_flows s"
proof -
  obtain k f where tr:
    "try_reserve wanted (flow_mem (flow_update (ss_flow ss) waker_register s) (ss_flow ss)) = (k, f)"
    by fastforce
  have s': "s' = flow_update (ss_flow ss) (\<lambda>_. f) (flow_update (ss_flow ss) waker_register s)" and k: "n = k"
    using assms(3) tr by (auto simp: reserve_poll_def Let_def n_def split: prod.splits if_splits)
  from reserve_flow_ok [OF assms(1,2) tr]
  show "session_inv s'" "evolves {} s s'"
    "unat (sent_data (flow_mem s' (ss_flow ss))) = unat (sent_data (flow_mem s (ss_flow ss))) + n"
    "n \<le> wanted" "send_flows s' = send_flows s"
    unfolding s' k .
qed

lemma send_frame_resume_flows:
  assumes "send_frame_resume f s = (r, s')"
  shows "flow_mem s' = flow_mem s" "send_flows s' = send_flows s" "next_ref s' = next_ref s"
    "shared_mem s' = shared_mem s" "streams s' = streams s"
  using assms by (auto simp: send_frame_resume_def outbound_push_def split: if_splits frame.splits)

lemma send_frame_flows:
  assumes "send_frame f s = (r, s')"
  shows "flow_mem s' = flow_mem s" "send_flows s' = send_flows s" "next_ref s' = next_ref s"
    "shared_mem s' = shared_mem s" "streams s' = streams s"
  using assms send_frame_resume_flows by (auto simp: send_frame_def split: if_splits)

lemma stream_frame_wf:
  "in_varint (sid i) \<Longrightarrow> length d < 2 ^ 62 \<Longrightarrow> frame_wf 64 (Stream i d fin)"
  by (simp add: frame_wf_def in_varint_of_nat)

section \<open>Writing\<close>

text \<open>The bytes a suspended write holds.\<close>

fun wb_held :: "(wb_await, 'a) async \<Rightarrow> nat" where
  "wb_held (Awaiting (WbSend rest n)) = n"
| "wb_held _ = 0"

definition write_ok :: "send_stream \<Rightarrow> session \<Rightarrow> (wb_await, 'a) async \<times> session \<Rightarrow> bool" where
  "write_ok ss s r \<longleftrightarrow> session_inv (snd r) \<and> evolves {} s (snd r) \<and> wb_held (fst r) \<le> MAX_WRITE_CHUNK
     \<and> unat (sent_data (flow_mem s (ss_flow ss))) + wb_held (fst r)
         \<le> unat (sent_data (flow_mem (snd r) (ss_flow ss)))"

lemma write_ok_trans:
  assumes "evolves {} s t" "sent_data (flow_mem s (ss_flow ss)) \<le> sent_data (flow_mem t (ss_flow ss))"
    and "write_ok ss t r"
  shows "write_ok ss s r"
  using assms evolves_then [of "{}" s t "snd r"] by (auto simp: write_ok_def word_le_nat_alt)

lemma flow_closed_release [simp]: "flow_closed (release n f) = flow_closed f"
  by (simp add: release_def)

lemma session_inv_release:
  assumes "session_inv s" "n \<le> unat (sent_data (flow_mem s r))"
  shows "session_inv (flow_update r (release n) s)"
  using assms release_ok [of "flow_mem s r" n] by (intro session_inv_flow_update) auto

text \<open>A reservation that is given back in the same poll leaves the counter where it was.\<close>

lemma undo_reservation:
  assumes "session_inv s" "session_inv t" "evolves {} s t"
    and "unat (sent_data (flow_mem t r)) = unat (sent_data (flow_mem s r)) + n"
  shows "evolves {} s (flow_update r (release n) t)" "session_inv (flow_update r (release n) t)"
    "sent_data (flow_mem (flow_update r (release n) t) r) = sent_data (flow_mem s r)"
proof -
  have ok: "flow_ok (flow_mem t r)" using assms(2) by (simp add: session_inv_def flows_inv_def)
  have "n \<le> unat (sent_data (flow_mem t r))" using assms(4) by simp
  note rel = release_ok [OF ok this]
  show eq: "sent_data (flow_mem (flow_update r (release n) t) r) = sent_data (flow_mem s r)"
    using rel(2) assms(4) by (simp add: flow_update_def word_unat_eq_iff)
  show "session_inv (flow_update r (release n) t)"
    using session_inv_release assms by simp
  show "evolves {} s (flow_update r (release n) t)"
    using assms(3) eq by (auto simp: evolves_def grows_def quiet_def refs_ok_def flow_update_def)
qed

lemma write_loop_ok:
  "session_inv s \<Longrightarrow> ss_ok ss \<Longrightarrow> write_ok ss s (write_loop ss rest s)"
proof (induction ss rest s rule: write_loop.induct)
  case (1 ss rest s)
  let ?w = "write_wanted rest s" and ?r = "ss_flow ss"
  show ?case
  proof (cases "rest = [] \<or> ?w = 0")
    case True
    then show ?thesis using "1.prems" by (auto simp: write_loop.simps [of ss rest] write_ok_def)
  next
    case False
    obtain q s1 where rp: "reserve_poll ?w ss s = (q, s1)" by fastforce
    note res = reserve_poll_ok [OF "1.prems"(1) write_wanted_less rp]
    show ?thesis
    proof (cases "\<exists>n. q = Ready (Inr n)")
      case no: False
      then show ?thesis
        using False rp res by (auto simp: write_loop.simps [of ss rest] write_ok_def split: poll.splits sum.splits)
    next
      case True
      then obtain n where q: "q = Ready (Inr n)" by auto
      then have n: "unat (sent_data (flow_mem s1 ?r)) = unat (sent_data (flow_mem s ?r)) + n" "n \<le> ?w"
        using res by simp_all
      let ?f = "Stream (ss_id ss) (take n rest) False"
      have wf: "frame_wf 64 ?f"
        using n(2) "1.prems"(2)
        by (intro stream_frame_wf) (auto simp: ss_ok_def write_wanted_def MAX_WRITE_CHUNK_def)
      obtain p s2 where snd: "send_frame ?f s1 = (p, s2)" by fastforce
      have inv2: "session_inv s2" by (rule session_inv_send_frame [OF res(1) wf snd])
      have ev2: "evolves {} s s2" by (rule evolves_then [OF res(2) evolves_send_frame [OF snd]])
      have sent2: "unat (sent_data (flow_mem s2 ?r)) = unat (sent_data (flow_mem s ?r)) + n"
        using n(1) send_frame_flows(1) [OF snd] by simp
      note undo = undo_reservation [OF "1.prems"(1) inv2 ev2 sent2]
      show ?thesis
      proof (cases "\<exists>u. p = Ready (Inr u)")
        case True
        then obtain u where u: "p = Ready (Inr u)" by auto
        then have eq: "write_loop ss rest s = write_loop ss (drop n rest) s2"
          using False rp q snd by (auto simp: write_loop.simps [of ss rest])
        have "write_ok ss s2 (write_loop ss (drop n rest) s2)"
          using "1.IH" [OF _ _ rp [symmetric] q refl snd [symmetric] u refl inv2 "1.prems"(2)] False by simp
        moreover have "sent_data (flow_mem s ?r) \<le> sent_data (flow_mem s2 ?r)"
          using sent2 by (simp add: word_le_nat_alt)
        ultimately show ?thesis unfolding eq by (intro write_ok_trans [OF ev2])
      next
        case no: False
        moreover have "n \<le> MAX_WRITE_CHUNK" using n(2) by (simp add: write_wanted_def)
        ultimately show ?thesis
          using False rp q snd inv2 ev2 sent2 undo
          by (auto simp: write_loop.simps [of ss rest] write_ok_def split: poll.splits sum.splits)
      qed
    qed
  qed
qed

section \<open>Guarded operations\<close>

lemma select_api_ok:
  assumes "select_api mode ss s = (r, s')"
  shows "session_inv s \<Longrightarrow> session_inv s'" "evolves {} s s'" "flow_mem s' = flow_mem s"
    "send_flows s' = send_flows s"
  using assms session_inv_shared_update evolves_shared_update
  by (auto simp: select_api_def shared_update_def Let_def split: if_splits)

lemma begin_operation_ok:
  assumes "begin_operation mode ss s = (r, s')"
  shows "session_inv s \<Longrightarrow> session_inv s'" "evolves {} s s'" "flow_mem s' = flow_mem s"
    "send_flows s' = send_flows s"
proof -
  obtain q s1 where sel: "select_api mode ss s = (q, s1)" by fastforce
  note ok = select_api_ok [OF sel]
  have ev: "evolves {} s (shared_update (ss_shared ss) g s1)" for g
    by (rule evolves_then [OF ok(2) evolves_shared_update])
  show "session_inv s \<Longrightarrow> session_inv s'" "evolves {} s s'" "flow_mem s' = flow_mem s"
      "send_flows s' = send_flows s"
    using assms sel ok ev session_inv_shared_update
    by (auto simp: begin_operation_def split: sum.splits if_splits) (auto simp: shared_update_def)
qed

lemma end_operation_ok:
  "session_inv s \<Longrightarrow> session_inv (end_operation ss s)" "evolves {} s (end_operation ss s)"
  "flow_mem (end_operation ss s) = flow_mem s"
  by (simp_all add: end_operation_def session_inv_shared_update evolves_shared_update)
    (simp add: shared_update_def)

lemma write_ok_end: "write_ok ss s r \<Longrightarrow> write_ok ss s (end_guarded ss r)"
  using end_operation_ok evolves_then [OF _ end_operation_ok(2)]
  by (cases r; cases "fst r") (auto simp: write_ok_def end_guarded_def)

lemma write_ok_guarded:
  assumes "session_inv s" and "\<And>t. session_inv t \<Longrightarrow> write_ok ss t (body t)"
  shows "write_ok ss s (guarded mode ss body s)"
proof -
  obtain q s1 where b: "begin_operation mode ss s = (q, s1)" by fastforce
  note ok = begin_operation_ok [OF b]
  have "write_ok ss s (end_guarded ss (body s1))"
    using assms ok by (intro write_ok_end write_ok_trans [OF ok(2)]) auto
  then show ?thesis
    using b ok assms(1) by (cases q) (auto simp: guarded_def write_ok_def)
qed

lemma write_buf_ok:
  assumes "session_inv s" "ss_ok ss"
  shows "write_ok ss s (write_buf ss d s)"
  unfolding write_buf_def
  by (rule write_ok_guarded [OF assms(1)]) (use assms(2) write_loop_ok in \<open>auto simp: write_ok_def\<close>)

text \<open>
  Resuming a suspended write: the reservation it holds is used, kept, or given back, so the counter
  never falls below what others hold.
\<close>

fun wb_await_held :: "wb_await \<Rightarrow> nat" where
  "wb_await_held (WbCredit rest) = 0"
| "wb_await_held (WbSend rest n) = n"

lemma evolves_reserved:
  assumes "session_inv s" "n \<le> unat (sent_data (flow_mem s r))"
  shows "evolves {} (flow_update r (release n) s) s"
    "unat (sent_data (flow_mem (flow_update r (release n) s) r)) = unat (sent_data (flow_mem s r)) - n"
proof -
  have ok: "flow_ok (flow_mem s r)" using assms(1) by (simp add: session_inv_def flows_inv_def)
  note rel = release_ok [OF ok assms(2)]
  then show "unat (sent_data (flow_mem (flow_update r (release n) s) r)) = unat (sent_data (flow_mem s r)) - n"
    by (simp add: flow_update_def)
  show "evolves {} (flow_update r (release n) s) s"
    using rel(2) by (simp add: evolves_defs flow_update_def word_le_nat_alt)
qed

lemma write_buf_resume_ok:
  assumes "session_inv s" "ss_ok ss" "wb_await_held k \<le> unat (sent_data (flow_mem s (ss_flow ss)))"
    and "wb_await_held k \<le> MAX_WRITE_CHUNK"
  shows "write_ok ss (flow_update (ss_flow ss) (release (wb_await_held k)) s) (write_buf_resume ss k s)"
proof (cases k)
  case (WbCredit rest)
  have "flow_update (ss_flow ss) (release 0) s = s"
    by (cases s) (simp add: flow_update_def release_def)
  then show ?thesis using WbCredit write_ok_end [OF write_loop_ok [OF assms(1,2)]] by simp
next
  case (WbSend rest n)
  let ?r = "ss_flow ss" and ?f = "Stream (ss_id ss) (take n rest) False"
  let ?s0 = "flow_update ?r (release n) s"
  have n: "n \<le> unat (sent_data (flow_mem s ?r))" "n \<le> MAX_WRITE_CHUNK" using assms WbSend by simp_all
  note s0 = evolves_reserved [OF assms(1) n(1)]
  have inv0: "session_inv ?s0" by (rule session_inv_release [OF assms(1) n(1)])
  have wf: "frame_wf 64 ?f"
    using n(2) assms(2) by (intro stream_frame_wf) (auto simp: ss_ok_def MAX_WRITE_CHUNK_def)
  obtain p s1 where snd: "send_frame_resume ?f s = (p, s1)" by fastforce
  have inv1: "session_inv s1" by (rule session_inv_send_frame_resume [OF assms(1) wf snd])
  have ev1: "evolves {} ?s0 s1" by (rule evolves_then [OF s0(1) evolves_send_frame_resume [OF snd]])
  have sent1: "unat (sent_data (flow_mem s1 ?r)) = unat (sent_data (flow_mem ?s0 ?r)) + n"
    using s0(2) n(1) send_frame_resume_flows(1) [OF snd] by simp
  note undo = undo_reservation [OF inv0 inv1 ev1 sent1]
  have "write_ok ss ?s0 (write_loop ss (drop n rest) s1)"
    using write_loop_ok [OF inv1 assms(2)] sent1 by (intro write_ok_trans [OF ev1]) (auto simp: word_le_nat_alt)
  then have "write_ok ss ?s0 (case p of Pending \<Rightarrow> (Awaiting (WbSend rest n), s1)
       | Ready (Inl e) \<Rightarrow> (Finished (Inl e), flow_update ?r (release n) s1)
       | Ready (Inr _) \<Rightarrow> write_loop ss (drop n rest) s1)"
    using inv1 ev1 sent1 undo n(2) by (auto simp: write_ok_def split: poll.splits sum.splits)
  from write_ok_end [OF this] show ?thesis using WbSend snd by simp
qed

section \<open>Finishing, resetting and the AsyncWrite interface\<close>

text \<open>Operations that hold no reservation afterwards.\<close>

definition step_ok :: "session \<Rightarrow> session \<Rightarrow> bool" where
  "step_ok s s' \<longleftrightarrow> (session_inv s \<longrightarrow> session_inv s') \<and> evolves {} s s'"

lemma step_ok_refl [simp, intro]: "step_ok s s"
  by (simp add: step_ok_def)

lemma step_ok_trans: "step_ok s t \<Longrightarrow> step_ok t u \<Longrightarrow> step_ok s u"
  by (auto simp: step_ok_def intro: evolves_then)

lemma step_ok_shared_update: "step_ok s (shared_update r g s)"
  by (simp add: step_ok_def session_inv_shared_update evolves_shared_update)

lemma step_ok_remove_send: "step_ok s (snd (remove_send_flow i s))"
  using session_inv_remove_send_flow evolves_remove_send_flow
  unfolding step_ok_def by (metis prod.collapse)

lemma step_ok_send_frame: "frame_wf 64 f \<Longrightarrow> step_ok s (snd (send_frame f s))"
  using session_inv_send_frame evolves_send_frame unfolding step_ok_def by (metis prod.collapse)

lemma step_ok_send_frame_resume: "frame_wf 64 f \<Longrightarrow> step_ok s (snd (send_frame_resume f s))"
  using session_inv_send_frame_resume evolves_send_frame_resume unfolding step_ok_def
  by (metis prod.collapse)

lemma step_ok_select_api: "step_ok s (snd (select_api mode ss s))"
  using select_api_ok unfolding step_ok_def by (metis prod.collapse)

lemma step_ok_begin_operation: "step_ok s (snd (begin_operation mode ss s))"
  using begin_operation_ok unfolding step_ok_def by (metis prod.collapse)

lemma step_ok_end_operation: "step_ok s (end_operation ss s)"
  by (simp add: step_ok_def end_operation_ok)

lemma step_ok_end_guarded: "step_ok s (snd r) \<Longrightarrow> step_ok s (snd (end_guarded ss r))"
  using step_ok_trans [OF _ step_ok_end_operation]
  by (cases r; cases "fst r") (auto simp: end_guarded_def)

lemma step_ok_guarded:
  assumes "\<And>t. step_ok t (snd (body t))"
  shows "step_ok s (snd (guarded mode ss body s))"
proof -
  obtain q s1 where b: "begin_operation mode ss s = (q, s1)" by fastforce
  then have "step_ok s s1" using step_ok_begin_operation [of s mode ss] by simp
  then show ?thesis
    using b step_ok_trans [OF _ step_ok_end_guarded [OF assms]] by (cases q) (auto simp: guarded_def)
qed

lemma step_ok_await_at: "step_ok s (snd r) \<Longrightarrow> step_ok s (snd (await_at k r))"
  by (cases r; cases "fst r") (auto simp: await_at_def)

lemma step_ok_finish_result: "step_ok s (snd r) \<Longrightarrow> step_ok s (snd (finish_result ss r))"
  using step_ok_trans [OF _ step_ok_remove_send]
  by (cases r) (auto simp: finish_result_def split: poll.splits sum.splits)

lemma fin_frame_wf: "ss_ok ss \<Longrightarrow> frame_wf 64 (fin_frame (ss_id ss))"
  by (simp add: fin_frame_def ss_ok_def stream_frame_wf)

lemma send_finish_ok:
  assumes "ss_ok ss"
  shows "step_ok s (snd (send_finish ss s))" "step_ok s (snd (send_finish_resume ss s))"
proof -
  have "step_ok t (snd (finish_result ss (send_frame (fin_frame (ss_id ss)) (shared_update r g t))))" for t r g
    by (intro step_ok_finish_result step_ok_trans [OF step_ok_shared_update step_ok_send_frame] fin_frame_wf assms)
  then show "step_ok s (snd (send_finish ss s))"
    unfolding send_finish_def by (intro step_ok_guarded) auto
  show "step_ok s (snd (send_finish_resume ss s))"
    unfolding send_finish_resume_def
    by (intro step_ok_end_guarded step_ok_finish_result step_ok_send_frame_resume fin_frame_wf assms)
qed

lemma send_reset_ok:
  assumes "ss_ok ss"
  shows "step_ok s (snd (send_reset code ss s))"
    and "in_varint code \<Longrightarrow> step_ok s (snd (send_reset_resume code ss s))"
proof -
  have wf: "frame_wf 64 (ResetStream (ss_id ss) code)" if "in_varint code"
    using that assms by (simp add: frame_wf_control ss_ok_def)
  have "step_ok t (snd (await_at code (send_frame (ResetStream (ss_id ss) code)
      (snd (remove_send_flow (ss_id ss) (shared_update r g t))))))" if "in_varint code" for t r g
    by (intro step_ok_await_at step_ok_trans [OF step_ok_trans [OF step_ok_shared_update step_ok_remove_send]
          step_ok_send_frame] wf that)
  then show "step_ok s (snd (send_reset code ss s))"
    unfolding send_reset_def by (intro step_ok_guarded) (auto simp: from_u64_Inr_iff split: sum.splits)
  show "step_ok s (snd (send_reset_resume code ss s))" if "in_varint code"
    unfolding send_reset_resume_def
    by (intro step_ok_end_guarded step_ok_await_at step_ok_send_frame_resume wf that)
qed

lemma send_operation_cancel_ok: "step_ok s (send_operation_cancel ss s)"
  unfolding send_operation_cancel_def
  by (rule step_ok_trans [OF _ step_ok_end_operation])
    (simp add: step_ok_def session_inv_request_shutdown evolves_request_shutdown)

lemma send_stream_clone_ok: "step_ok s (snd (send_stream_clone ss s))"
  by (simp add: send_stream_clone_def step_ok_shared_update)

lemma send_stream_drop_ok: "ss_ok ss \<Longrightarrow> step_ok s (send_stream_drop ss s)"
  by (simp add: step_ok_def session_inv_send_stream_drop evolves_send_stream_drop)

lemma step_ok_register: "step_ok s (flow_update r waker_register s)"
  unfolding step_ok_def
  by (auto simp: flow_ok_def waker_register_def intro!: session_inv_flow_update evolves_flow_update)

lemma step_ok_push: "cmd_ok c \<Longrightarrow> \<not> outbound_full s \<Longrightarrow> step_ok s (outbound_push c s)"
  by (simp add: step_ok_def session_inv_push evolves_push)

lemma poll_write_body_ok:
  assumes inv: "session_inv s" and ss: "ss_ok ss" and pw: "poll_write_body ss buf s = (r, ss', s')"
  shows "session_inv s' \<and> evolves {} s s' \<and> ss_ok ss' \<and> ss_flow ss' = ss_flow ss"
proof -
  let ?r = "ss_flow ss"
  let ?s1 = "flow_update ?r waker_register s"
  have reg: "session_inv ?s1" "evolves {} s ?s1" using step_ok_register inv by (auto simp: step_ok_def)
  obtain n f where tr: "try_reserve (write_wanted buf ?s1) (flow_mem ?s1 ?r) = (n, f)" by fastforce
  let ?s2 = "flow_update ?r (\<lambda>_. f) ?s1"
  note res = reserve_flow_ok [OF inv write_wanted_less tr]
  note undo = undo_reservation [OF inv res(1-3)]
  have small: "n \<le> MAX_WRITE_CHUNK" using res(4) by (simp add: write_wanted_def)
  let ?c = "FrameCmd (Stream (ss_id ss) (take n buf) False)"
  have "cmd_ok ?c"
    using ss small stream_frame_wf [of "ss_id ss" "take n buf"] by (simp add: ss_ok_def MAX_WRITE_CHUNK_def)
  then have push: "session_inv (outbound_push ?c ?s2)" "evolves {} s (outbound_push ?c ?s2)"
    if "\<not> outbound_full ?s2"
    using that res step_ok_push evolves_then [OF res(2) evolves_push] by (auto simp: step_ok_def)
  show ?thesis
    using pw inv reg tr res undo push ss
    by (auto simp: poll_write_body_def poll_reserve_def Let_def ss_ok_def split: if_splits)
qed

lemma poll_write_ok:
  assumes inv: "session_inv s" and ss: "ss_ok ss" and pw: "poll_write ss buf s = (r, ss', s')"
  shows "session_inv s' \<and> evolves {} s s' \<and> ss_ok ss' \<and> ss_flow ss' = ss_flow ss"
proof -
  obtain q1 s1 where sel: "select_api 2 ss s = (q1, s1)" by fastforce
  obtain q2 s2 where beg: "begin_operation 2 ss s1 = (q2, s2)" by fastforce
  have st2: "step_ok s s1" "step_ok s s2"
    using step_ok_select_api [of s 2 ss] step_ok_begin_operation [of s1 2 ss] sel beg
    by (auto intro: step_ok_trans)
  obtain q3 ss3 s3 where body: "poll_write_body ss buf s2 = (q3, ss3, s3)" by (metis prod_cases3)
  have "session_inv s2" "evolves {} s s2" using st2 inv by (auto simp: step_ok_def)
  with poll_write_body_ok [OF _ ss body] have b: "session_inv s3" "evolves {} s s3" "ss_ok ss3"
      "ss_flow ss3 = ss_flow ss"
    by (auto intro: evolves_then)
  show ?thesis
    using pw inv ss sel beg body st2 b end_operation_ok(1) [OF b(1)] evolves_then [OF b(2) end_operation_ok(2)]
    by (auto simp: poll_write_def step_ok_def split: sum.splits)
qed

lemma step_ok_ack_new: "step_ok s (snd (ack_new s))"
  by (auto simp: ack_new_def step_ok_def session_inv_def evolves_defs less_Suc_eq)

lemma poll_flush_waiter_ok:
  "poll_flush_waiter a ss s = (r, ss', s') \<Longrightarrow> s' = s \<and> ss_id ss' = ss_id ss \<and> ss_flow ss' = ss_flow ss"
  by (auto simp: poll_flush_waiter_def split: ack.splits sum.splits)

lemma poll_flush_ok:
  assumes "poll_flush ss s = (r, ss', s')"
  shows "step_ok s s' \<and> ss_id ss' = ss_id ss \<and> ss_flow ss' = ss_flow ss"
proof -
  obtain q1 s1 where sel: "select_api 2 ss s = (q1, s1)" by fastforce
  obtain a s2 where new: "ack_new s1 = (a, s2)" by fastforce
  have st1: "step_ok s s1" using step_ok_select_api [of s 2 ss] sel by simp
  then have st2: "step_ok s s2" using step_ok_ack_new [of s1] new by (auto intro: step_ok_trans)
  have push: "\<not> outbound_full s2 \<Longrightarrow> step_ok s (outbound_push (FlushCmd a) s2)"
    using st2 step_ok_push by (auto intro: step_ok_trans)
  show ?thesis
    using assms sel new st1 st2 push
    by (auto simp: poll_flush_def poll_flush_loop_def poll_reserve_def dest!: poll_flush_waiter_ok
        split: sum.splits option.splits if_splits)
qed

lemma poll_shutdown_ok:
  assumes ss: "ss_ok ss" and "poll_shutdown ss s = (r, ss', s')"
  shows "step_ok s s' \<and> ss_id ss' = ss_id ss \<and> ss_flow ss' = ss_flow ss"
proof -
  obtain q1 s1 where sel: "select_api 2 ss s = (q1, s1)" by fastforce
  have st1: "step_ok s s1" using step_ok_select_api [of s 2 ss] sel by simp
  let ?s2 = "outbound_push (FrameCmd (fin_frame (ss_id ss))) s1"
  let ?s4 = "snd (remove_send_flow (ss_id ss) (shared_update (ss_shared ss) (\<lambda>c. c\<lparr>ss_finished := True\<rparr>) ?s2))"
  have st4: "\<not> outbound_full s1 \<Longrightarrow> step_ok s ?s4"
    using fin_frame_wf [OF ss]
    by (intro step_ok_trans [OF step_ok_trans [OF step_ok_trans [OF st1 step_ok_push] step_ok_shared_update]
          step_ok_remove_send]) auto
  show ?thesis
    using assms(2) sel st1 step_ok_trans [OF st1] step_ok_trans [OF st4]
    by (auto simp: poll_shutdown_def poll_reserve_def Let_def dest!: poll_flush_ok
        split: sum.splits if_splits)
qed

end
