(* ===== verification/Api_Safety.thy ===== *)
theory Api_Safety
  imports Recv_Safety Send_Safety "HOL-Library.Multiset"
begin

text \<open>
  The public operations of the session handle: opening, accepting, stopping, shutting down, cloning
  and dropping preserve the session invariant and keep every receive handle tied to its channel.
\<close>

section \<open>Opening\<close>

lemma local_below_frontier: "initiator_is_server i = is_server s \<Longrightarrow> below_frontier s i"
  by (auto simp: below_frontier_def peer_is_server_def)

lemma step_ok_send_stream_new: "step_ok s (snd (send_stream_new i f s))"
  using session_inv_send_stream_new evolves_send_stream_new unfolding step_ok_def by (metis prod.collapse)

fun open_uni_flow :: "(open_uni_await, error + send_stream) async \<Rightarrow> (stream_id \<times> nat) option" where
  "open_uni_flow (Awaiting (AwaitOpenUni i f)) = Some (i, f)"
| "open_uni_flow (Finished (Inr ss)) = Some (ss_id ss, ss_flow ss)"
| "open_uni_flow (Finished (Inl e)) = None"

lemma open_uni_result_ok:
  assumes "open_uni_result i flow (p, s) = (r, s')"
  shows "step_ok s s'" "open_uni_flow r = None \<or> open_uni_flow r = Some (i, flow)"
  using assms step_ok_remove_send [of s i] step_ok_send_stream_new [of s i flow]
  by (auto simp: open_uni_result_def send_stream_new_def Let_def split: poll.splits sum.splits prod.splits)

text \<open>Allocating an identifier and registering its send state.\<close>

lemma open_flow_ok:
  assumes "session_inv s" "next_stream_id d s = (Inr i, s1)" "register_send_flow i 0 s1 = (q, s2)"
  shows "session_inv s2" "evolves {} s s2" "in_varint (sid i)" "below_frontier s2 i"
    "\<And>f. q = Inr f \<Longrightarrow> f < next_ref s2"
proof -
  have inv1: "session_inv s1" by (rule session_inv_next_stream_id [OF assms(1,2)])
  note i = next_stream_id_result [OF assms(2)]
  have bf: "below_frontier s1 i"
    using i(2) next_stream_id_fields [OF assms(2)] by (intro local_below_frontier) simp
  show "in_varint (sid i)" by (rule i(1))
  show "session_inv s2" by (rule session_inv_register_send_flow [OF inv1 i(1) bf assms(3)])
  have ev: "evolves {} s1 s2" by (rule evolves_register_send_flow [OF assms(3)])
  then show "evolves {} s s2" by (rule evolves_then [OF evolves_next_stream_id [OF assms(2)]])
  show "below_frontier s2 i" by (rule grows_below_frontier [OF evolves_grows [OF ev] bf])
  show "f < next_ref s2" if "q = Inr f" for f
    using assms(3) that by (auto simp: register_send_flow_def Let_def split: if_splits)
qed

definition flow_handle_ok :: "(stream_id \<times> nat) option \<Rightarrow> session \<Rightarrow> bool" where
  "flow_handle_ok x s = (case x of None \<Rightarrow> True | Some (i, f) \<Rightarrow> in_varint (sid i) \<and> f < next_ref s)"

lemma open_uni_ok:
  assumes "session_inv s" and "open_uni s = (r, s')"
  shows "session_inv s' \<and> evolves {} s s' \<and> flow_handle_ok (open_uni_flow r) s'"
proof -
  obtain q s1 where id: "next_stream_id Uni s = (q, s1)" by fastforce
  show ?thesis
  proof (cases q)
    case (Inl e)
    then show ?thesis
      using assms id session_inv_next_stream_id [OF assms(1) id] evolves_next_stream_id [OF id]
      by (auto simp: open_uni_def flow_handle_ok_def)
  next
    case (Inr i)
    obtain g s2 where reg: "register_send_flow i 0 s1 = (g, s2)" by fastforce
    note o = open_flow_ok [OF assms(1) id [unfolded Inr] reg]
    obtain p s3 where snd: "send_frame (OpenUni i) s2 = (p, s3)" by fastforce
    have st3: "step_ok s2 s3"
      using step_ok_send_frame [of "OpenUni i" s2] snd o(3) by (simp add: frame_wf_control)
    obtain r4 s4 where fin: "open_uni_result i (projr g) (p, s3) = (r4, s4)" by fastforce
    note res = open_uni_result_ok [OF fin]
    have st4: "step_ok s2 s4" by (rule step_ok_trans [OF st3 res(1)])
    then have ev: "session_inv s4" "evolves {} s s4" "next_ref s2 \<le> next_ref s4"
      using o(1,2) evolves_then [OF o(2)] by (simp_all add: step_ok_def evolves_def grows_def)
    then have fl: "flow_handle_ok (open_uni_flow r4) s4" if "g = Inr f" for f
      using res(2) o(3) o(5) [OF that] that by (auto simp: flow_handle_ok_def)
    show ?thesis
      using assms(2) id Inr reg snd fin ev fl o(1,2)
      by (cases g) (auto simp: open_uni_def flow_handle_ok_def)
  qed
qed

lemma open_uni_resume_ok:
  assumes "session_inv s" "in_varint (sid i)" "f < next_ref s" and "open_uni_resume (AwaitOpenUni i f) s = (r, s')"
  shows "session_inv s' \<and> evolves {} s s' \<and> flow_handle_ok (open_uni_flow r) s'"
proof -
  obtain p s1 where snd: "send_frame_resume (OpenUni i) s = (p, s1)" by fastforce
  then have st1: "step_ok s s1"
    using step_ok_send_frame_resume [of "OpenUni i" s] assms(2) by (simp add: frame_wf_control)
  have res: "step_ok s1 s'" "open_uni_flow r = None \<or> open_uni_flow r = Some (i, f)"
    using open_uni_result_ok [of i f p s1 r s'] assms(4) snd by auto
  have "step_ok s s'" by (rule step_ok_trans [OF st1 res(1)])
  with assms res(2) show ?thesis by (auto simp: step_ok_def flow_handle_ok_def evolves_def grows_def)
qed

text \<open>The receive handle and the send state that an outcome of \<open>open_bi\<close> carries.\<close>

fun open_bi_await_recv :: "open_bi_await \<Rightarrow> recv_stream" where
  "open_bi_await_recv (AwaitOpenBi i f rv) = rv"
| "open_bi_await_recv (AwaitOpenBiCredit i f rv) = rv"

fun open_bi_await_flow :: "open_bi_await \<Rightarrow> stream_id \<times> nat" where
  "open_bi_await_flow (AwaitOpenBi i f rv) = (i, f)"
| "open_bi_await_flow (AwaitOpenBiCredit i f rv) = (i, f)"

fun open_bi_recvs :: "(open_bi_await, error + (send_stream \<times> recv_stream)) async \<Rightarrow> recv_stream list" where
  "open_bi_recvs (Awaiting k) = [open_bi_await_recv k]"
| "open_bi_recvs (Finished (Inr (ss, rv))) = [rv]"
| "open_bi_recvs (Finished (Inl e)) = []"

fun open_bi_flow :: "(open_bi_await, error + (send_stream \<times> recv_stream)) async \<Rightarrow> (stream_id \<times> nat) option" where
  "open_bi_flow (Awaiting k) = Some (open_bi_await_flow k)"
| "open_bi_flow (Finished (Inr (ss, rv))) = Some (ss_id ss, ss_flow ss)"
| "open_bi_flow (Finished (Inl e)) = None"

text \<open>
  A continuation of \<open>open_bi\<close> that holds \<open>rv\<close> and the send state \<open>(i, flow)\<close>: it keeps the invariant,
  passes the handle on or drops it, and hands out no other send state.
\<close>

definition open_bi_step ::
  "stream_id \<Rightarrow> nat \<Rightarrow> recv_stream \<Rightarrow> session
     \<Rightarrow> (open_bi_await, error + (send_stream \<times> recv_stream)) async \<times> session \<Rightarrow> bool" where
  "open_bi_step i flow rv s x \<longleftrightarrow>
     session_inv (snd x) \<and> (\<forall>E. transits (rv # E) s (open_bi_recvs (fst x) @ E) (snd x))
     \<and> (open_bi_flow (fst x) = None \<or> open_bi_flow (fst x) = Some (i, flow))
     \<and> set (open_bi_recvs (fst x)) \<subseteq> {rv}"

lemma open_bi_step_trans:
  assumes "session_inv s" "step_ok s t" "session_inv t \<Longrightarrow> open_bi_step i flow rv t x"
  shows "open_bi_step i flow rv s x"
  using assms transits_evolves_then [of s t] by (auto simp: open_bi_step_def step_ok_def)

lemma open_bi_abandon_ok:
  assumes "session_inv s" "rv_ok rv"
  shows "session_inv (open_bi_abandon i rv s)" "transits (rv # E) s E (open_bi_abandon i rv s)"
proof -
  let ?t = "snd (remove_send_flow i (snd (remove_recv_stream i s)))"
  have "step_ok s (snd (remove_recv_stream i s))"
    using session_inv_remove_recv evolves_remove_recv_stream unfolding step_ok_def by (metis prod.collapse)
  then have st: "step_ok s ?t" by (rule step_ok_trans [OF _ step_ok_remove_send])
  then show "session_inv (open_bi_abandon i rv s)"
    using assms by (simp add: open_bi_abandon_def step_ok_def session_inv_recv_stream_drop)
  show "transits (rv # E) s E (open_bi_abandon i rv s)"
    unfolding open_bi_abandon_def using st transits_evolves_then [OF _ transits_drop] by (simp add: step_ok_def)
qed

lemma open_bi_credit_result_ok:
  assumes "session_inv s" "rv_ok rv"
  shows "open_bi_step i flow rv s (open_bi_credit_result i flow rv (p, s))"
proof -
  have "step_ok s (snd (send_stream_new i flow s))" by (rule step_ok_send_stream_new)
  then have new: "session_inv (snd (send_stream_new i flow s))"
      "transits (rv # E) s (rv # E) (snd (send_stream_new i flow s))" for E
    using assms(1) transits_evolves by (auto simp: step_ok_def)
  have ids: "ss_id (fst (send_stream_new i flow s)) = i" "ss_flow (fst (send_stream_new i flow s)) = flow"
    by (simp_all add: send_stream_new_def Let_def)
  show ?thesis
    using assms new ids open_bi_abandon_ok [OF assms]
    by (auto simp: open_bi_step_def open_bi_credit_result_def split: poll.splits sum.splits prod.splits)
qed

lemma step_ok_initial_credit:
  assumes "session_inv s" "in_varint (sid i)"
  shows "step_ok s (snd (send_frame (initial_credit_frame i s) s))"
    "step_ok s (snd (send_frame_resume (initial_credit_frame i s) s))"
  using initial_credit_wf [OF assms] by (simp_all add: step_ok_send_frame step_ok_send_frame_resume)

lemma open_bi_result_ok:
  assumes "session_inv s" "rv_ok rv" "in_varint (sid i)"
  shows "open_bi_step i flow rv s (open_bi_result i flow rv (p, s))"
proof (cases "\<exists>u. p = Ready (Inr u)")
  case True
  obtain q t where snd: "send_frame (initial_credit_frame i s) s = (q, t)" by fastforce
  then have "step_ok s t" using step_ok_initial_credit(1) [OF assms(1,3)] by simp
  then have "open_bi_step i flow rv s (open_bi_credit_result i flow rv (q, t))"
    by (rule open_bi_step_trans [OF assms(1)]) (rule open_bi_credit_result_ok [OF _ assms(2)])
  then show ?thesis using True snd by (auto simp: open_bi_result_def)
next
  case False
  then show ?thesis
    using assms open_bi_abandon_ok [OF assms(1,2)]
    by (auto simp: open_bi_step_def open_bi_result_def split: poll.splits sum.splits)
qed

lemma open_bi_ok:
  assumes "session_inv s" and "open_bi s = (r, s')"
  shows "session_inv s' \<and> transits E s (open_bi_recvs r @ E) s' \<and> flow_handle_ok (open_bi_flow r) s'
     \<and> list_all rv_ok (open_bi_recvs r)"
proof -
  obtain q s1 where id: "next_stream_id Bi s = (q, s1)" by fastforce
  show ?thesis
  proof (cases q)
    case (Inl e)
    then show ?thesis
      using assms id session_inv_next_stream_id [OF assms(1) id] transits_evolves [OF evolves_next_stream_id [OF id]]
      by (auto simp: open_bi_def flow_handle_ok_def)
  next
    case (Inr i)
    obtain g s2 where reg: "register_send_flow i 0 s1 = (g, s2)" by fastforce
    note o = open_flow_ok [OF assms(1) id [unfolded Inr] reg]
    show ?thesis
    proof (cases g)
      case (Inl e)
      then show ?thesis
        using assms id Inr reg o(1) transits_evolves [OF o(2)] by (auto simp: open_bi_def flow_handle_ok_def)
    next
      case (Inr flow)
      obtain rv s3 where rec: "register_recv_stream i s2 = (rv, s3)" by fastforce
      have inv3: "session_inv s3" by (rule session_inv_register_recv_stream [OF o(1,3,4) rec])
      have rv: "rv_ok rv" using register_recv_fields(1) [OF rec] o(3) by (simp add: rv_ok_def)
      have "limits_ok 64 (limits_of s2)" using o(1) by (simp add: session_inv_def)
      then have t3: "transits E s (rv # E) s3"
        by (rule transits_evolves_then [OF o(2) transits_register [OF rec]])
      obtain p s4 where snd: "send_frame (OpenBi i) s3 = (p, s4)" by fastforce
      then have "step_ok s3 s4" using step_ok_send_frame [of "OpenBi i" s3] o(3) by (simp add: frame_wf_control)
      then have "open_bi_step i flow rv s3 (open_bi_result i flow rv (p, s4))"
        by (rule open_bi_step_trans [OF inv3]) (rule open_bi_result_ok [OF _ rv o(3)])
      moreover have "open_bi_result i flow rv (p, s4) = (r, s')"
        using assms(2) id \<open>q = Inr i\<close> reg Inr rec snd by (simp add: open_bi_def)
      ultimately have st: "session_inv s'" "\<And>E. transits (rv # E) s3 (open_bi_recvs r @ E) s'"
          "open_bi_flow r = None \<or> open_bi_flow r = Some (i, flow)" "set (open_bi_recvs r) \<subseteq> {rv}"
        by (auto simp: open_bi_step_def)
      have t: "transits E s (open_bi_recvs r @ E) s'" by (rule transits_trans [OF t3 st(2)])
      have "next_ref s2 \<le> next_ref s'"
        using evolves_grows [OF evolves_register_recv_stream [OF rec]] st(2) [of E]
        by (auto simp: transits_def grows_def)
      then show ?thesis
        using st(1,3,4) t o(3) o(5) [OF Inr] rv by (auto simp: flow_handle_ok_def list_all_iff)
    qed
  qed
qed

lemma open_bi_resume_ok:
  assumes "session_inv s" "rv_ok (open_bi_await_recv k)" "open_bi_await_flow k = (i, flow)" "in_varint (sid i)"
  shows "open_bi_step i flow (open_bi_await_recv k) s (open_bi_resume k s)"
proof (cases k)
  case (AwaitOpenBi j f rv)
  then have k: "j = i" "f = flow" using assms(3) by simp_all
  obtain p t where snd: "send_frame_resume (OpenBi i) s = (p, t)" by fastforce
  then have "step_ok s t"
    using step_ok_send_frame_resume [of "OpenBi i" s] assms(4) by (simp add: frame_wf_control)
  then have "open_bi_step i flow rv s (open_bi_result i flow rv (p, t))"
    by (rule open_bi_step_trans [OF assms(1)]) (rule open_bi_result_ok; use assms AwaitOpenBi in simp)
  then show ?thesis using AwaitOpenBi k snd by simp
next
  case (AwaitOpenBiCredit j f rv)
  then have k: "j = i" "f = flow" using assms(3) by simp_all
  obtain p t where snd: "send_frame_resume (initial_credit_frame i s) s = (p, t)" by fastforce
  then have "step_ok s t" using step_ok_initial_credit(2) [OF assms(1,4)] by simp
  then have "open_bi_step i flow rv s (open_bi_credit_result i flow rv (p, t))"
    by (rule open_bi_step_trans [OF assms(1)]) (rule open_bi_credit_result_ok; use assms AwaitOpenBiCredit in simp)
  then show ?thesis using AwaitOpenBiCredit k snd by simp
qed

lemma open_uni_cancel_ok: "step_ok s (open_uni_cancel k s)"
  by (cases k) (simp add: step_ok_def session_inv_request_shutdown evolves_request_shutdown)

lemma open_bi_cancel_ok:
  "session_inv s \<Longrightarrow> rv_ok (open_bi_await_recv k) \<Longrightarrow> session_inv (open_bi_cancel k s)"
  "transits (open_bi_await_recv k # E) s E (open_bi_cancel k s)"
proof -
  have eq: "open_bi_cancel k s = request_shutdown (recv_stream_drop (open_bi_await_recv k) s)"
    by (cases k) simp_all
  show "session_inv s \<Longrightarrow> rv_ok (open_bi_await_recv k) \<Longrightarrow> session_inv (open_bi_cancel k s)"
    unfolding eq by (rule session_inv_request_shutdown) (rule session_inv_recv_stream_drop)
  show "transits (open_bi_await_recv k # E) s E (open_bi_cancel k s)"
    unfolding eq by (rule transits_trans [OF transits_drop transits_evolves [OF evolves_request_shutdown]])
qed

section \<open>Accepting\<close>

text \<open>Moving handles between the accept queues and the application.\<close>

lemma transits_requeue:
  assumes "grows s s'" "\<And>rv. recv_link rv s' = recv_link rv s"
    and m: "mset (E' @ queued_recvs s') = mset (E @ queued_recvs s)"
  shows "transits E s E' s'"
proof -
  have "distinct (map receiver (E' @ queued_recvs s')) = distinct (map receiver (E @ queued_recvs s))"
    using m by (intro mset_eq_imp_distinct_iff) (metis mset_map)
  moreover have "set (E' @ queued_recvs s') = set (E @ queued_recvs s)" using m by (rule mset_eq_setD)
  ultimately show ?thesis using assms(1,2) unfolding transits_def recvs_ok_def grows_def by metis
qed

lemma transits_pop:
  "accept_uni_queue s = rv # q \<Longrightarrow> transits E s (rv # E) (s\<lparr>accept_uni_queue := q\<rparr>)"
  "accept_bi_queue s = (ss, rv) # b \<Longrightarrow> transits E s (rv # E) (s\<lparr>accept_bi_queue := b\<rparr>)"
  by (rule transits_requeue; auto simp: queued_recvs_def intro!: grows_queues)+

lemma accept_uni_ok:
  assumes "accept_uni s = (r, s')"
  shows "session_inv s \<Longrightarrow> session_inv s'" "r = Pending \<or> r = Ready (Inl e) \<Longrightarrow> s' = s"
    and "r = Ready (Inr rv) \<Longrightarrow> transits E s (rv # E) s'"
    and "r = Ready (Inr rv) \<Longrightarrow> session_inv s \<Longrightarrow> rv_ok rv"
  using assms transits_pop(1) [of s]
  by (auto simp: accept_uni_def session_inv_def queues_inv_def split: list.splits if_splits)

lemma accept_bi_ok:
  assumes "accept_bi s = (r, s')"
  shows "session_inv s \<Longrightarrow> session_inv s'" "r = Pending \<or> r = Ready (Inl e) \<Longrightarrow> s' = s"
    and "r = Ready (Inr (ss, rv)) \<Longrightarrow> transits E s (rv # E) s'"
    and "r = Ready (Inr (ss, rv)) \<Longrightarrow> session_inv s \<Longrightarrow> ss_ok ss \<and> rv_ok rv"
    and "r = Ready (Inr (ss, rv)) \<Longrightarrow> refs_ok s \<Longrightarrow> ss_flow ss < next_ref s'"
  using assms transits_pop(2) [of s]
  by (auto simp: accept_bi_def session_inv_def queues_inv_def refs_ok_def split: list.splits if_splits)

section \<open>Stopping, shutting down, cloning and dropping\<close>

lemma step_ok_cancel: "step_ok s (s\<lparr>cancelled := True\<rparr>)"
  by (simp add: step_ok_def session_inv_def evolves_defs)

lemma step_ok_request_shutdown: "step_ok s (request_shutdown s)"
  by (simp add: step_ok_def session_inv_request_shutdown evolves_request_shutdown)

lemma recv_stop_ok:
  assumes "rv_ok rv" "recv_stop code rv s = (r, rv', s')"
  shows "step_ok s s'" "rv' = rv\<lparr>stop_sent := stop_sent rv'\<rparr>" "r = Awaiting k \<Longrightarrow> in_varint k \<and> k = code"
proof -
  obtain b s1 where st: "stop_recv_stream (rv_id rv) s = (b, s1)" by fastforce
  have s1: "step_ok s s1"
    using session_inv_stop_recv_stream [OF _ st] evolves_stop_recv_stream [OF st] by (simp add: step_ok_def)
  let ?f = "StopSending (rv_id rv) code"
  have "in_varint code \<Longrightarrow> step_ok s (snd (send_frame ?f s1))"
    using assms(1) by (intro step_ok_trans [OF s1 step_ok_send_frame]) (simp add: frame_wf_control rv_ok_def)
  then show "step_ok s s'" "rv' = rv\<lparr>stop_sent := stop_sent rv'\<rparr>" "r = Awaiting k \<Longrightarrow> in_varint k \<and> k = code"
    using assms(2) st s1
    by (auto simp: recv_stop_def from_u64_Inr_iff await_at_def Let_def split: sum.splits if_splits prod.splits poll.splits)
qed

lemma recv_stop_resume_ok:
  "rv_ok rv \<Longrightarrow> in_varint code \<Longrightarrow> step_ok s (snd (recv_stop_resume code rv s))"
  unfolding recv_stop_resume_def
  by (intro step_ok_await_at step_ok_send_frame_resume) (simp add: frame_wf_control rv_ok_def)

lemma transits_stop_flag:
  "transits (rv # E) s (rv\<lparr>stop_sent := b\<rparr> # E) s"
proof -
  have "recv_link (rv\<lparr>stop_sent := b\<rparr>) s = recv_link rv s" by (simp add: recv_link_def unread_def)
  then show ?thesis by (simp add: transits_def recvs_ok_def)
qed

lemma shutdown_parts_ok:
  "step_ok s (snd (shutdown_final r s))" "step_ok s (snd (shutdown_bounded_done r s))"
  "step_ok s (snd (shutdown_tasks s))" "step_ok s (snd (shutdown_ack a s))"
  by (auto simp: shutdown_final_def shutdown_bounded_done_def shutdown_tasks_def shutdown_ack_def
      step_ok_cancel split: ack.splits sum.splits)

lemma shutdown_send_ok: "step_ok s (snd (shutdown_send s))"
proof -
  obtain a s1 where new: "ack_new s = (a, s1)" by fastforce
  have s1: "step_ok s s1" using step_ok_ack_new [of s] new by simp
  have full: "outbound_full s1 = outbound_full s" using new by (auto simp: ack_new_def outbound_full_def)
  have "\<not> outbound_full s \<Longrightarrow> step_ok s (snd (shutdown_ack a (outbound_push (ShutdownCmd a) s1)))"
    using step_ok_trans [OF step_ok_trans [OF s1 step_ok_push] shutdown_parts_ok(4)] full by simp
  then show ?thesis using shutdown_parts_ok new by (auto simp: shutdown_send_def)
qed

lemma shutdown_ok:
  "step_ok s (snd (shutdown s))" "step_ok s (snd (shutdown_resume k s))"
  "step_ok s (snd (shutdown_timeout k s))" "step_ok s (shutdown_cancel k s)"
proof -
  have "step_ok s (s\<lparr>shutdown_started := True\<rparr>)"
    by (simp add: step_ok_def session_inv_def evolves_defs)
  then show "step_ok s (snd (shutdown s))"
    using step_ok_trans [OF _ shutdown_send_ok] shutdown_parts_ok by (auto simp: shutdown_def)
  show "step_ok s (snd (shutdown_resume k s))"
    by (cases k) (simp_all add: shutdown_parts_ok shutdown_send_ok)
  show "step_ok s (snd (shutdown_timeout k s))"
    by (cases k) (simp_all add: shutdown_parts_ok)
  show "step_ok s (shutdown_cancel k s)"
    by (simp add: shutdown_cancel_def step_ok_request_shutdown)
qed

lemma session_clone_ok: "step_ok s (session_clone s)"
  by (simp add: session_clone_def step_ok_def session_inv_def evolves_defs)

lemma drop_all_ok:
  assumes "session_inv s" "list_all rv_ok us" "list_all (\<lambda>(ss, rv). ss_ok ss \<and> rv_ok rv) bs"
  shows "session_inv (fold recv_stream_drop us s)" "session_inv (fold (\<lambda>(ss, rv). drop_pair ss rv) bs s)"
proof -
  show "session_inv (fold recv_stream_drop us s)"
    using assms(1,2) by (induction us arbitrary: s) (auto simp: session_inv_recv_stream_drop)
  show "session_inv (fold (\<lambda>(ss, rv). drop_pair ss rv) bs s)"
    using assms(1,3) by (induction bs arbitrary: s) (auto simp: session_inv_drop_pair)
qed

lemma transits_drop_all:
  "transits (us @ E) s E (fold recv_stream_drop us s)"
  "transits (map snd bs @ E) s E (fold (\<lambda>(ss, rv). drop_pair ss rv) bs s)"
proof -
  show "transits (us @ E) s E (fold recv_stream_drop us s)"
    by (induction us arbitrary: s) (auto intro: transits_trans [OF transits_drop])
  show "transits (map snd bs @ E) s E (fold (\<lambda>(ss, rv). drop_pair ss rv) bs s)"
  proof (induction bs arbitrary: s)
    case (Cons p bs)
    obtain ss rv where "p = (ss, rv)" by fastforce
    then show ?case using transits_trans [OF transits_drop_pair Cons.IH] by simp
  qed simp
qed

lemma drop_accept_queues_ok:
  "session_inv s \<Longrightarrow> session_inv (drop_accept_queues s)" "transits E s E (drop_accept_queues s)"
proof -
  let ?s1 = "s\<lparr>accept_rx := False, accept_uni_queue := [], accept_bi_queue := []\<rparr>"
  show "session_inv (drop_accept_queues s)" if inv: "session_inv s"
  proof -
    have "session_inv ?s1" using inv by (simp add: session_inv_def queues_inv_def)
    moreover have "list_all rv_ok (accept_uni_queue s)"
        "list_all (\<lambda>(ss, rv). ss_ok ss \<and> rv_ok rv) (accept_bi_queue s)"
      using inv by (simp_all add: session_inv_def queues_inv_def)
    ultimately show ?thesis unfolding drop_accept_queues_def Let_def by (intro drop_all_ok)
  qed
  have "transits E s (accept_uni_queue s @ map snd (accept_bi_queue s) @ E) ?s1"
    by (rule transits_requeue) (simp_all add: grows_def queued_recvs_def refs_ok_def)
  from transits_trans [OF transits_trans [OF this transits_drop_all(1)] transits_drop_all(2)]
  show "transits E s E (drop_accept_queues s)" by (simp add: drop_accept_queues_def Let_def)
qed

lemma session_drop_ok:
  "session_inv s \<Longrightarrow> session_inv (session_drop s)" "transits E s E (session_drop s)"
proof -
  let ?s1 = "s\<lparr>session_handles := session_handles s - 1\<rparr>"
  have s1: "step_ok s ?s1" by (simp add: step_ok_def session_inv_def evolves_defs)
  then have s2: "step_ok s (request_shutdown ?s1)" by (rule step_ok_trans [OF _ step_ok_request_shutdown])
  have eq: "session_drop s =
      (if session_handles s = 1 then drop_accept_queues (request_shutdown ?s1) else ?s1)"
    by (simp add: session_drop_def Let_def)
  show "session_inv s \<Longrightarrow> session_inv (session_drop s)"
    unfolding eq using s1 s2 drop_accept_queues_ok(1) by (simp only: step_ok_def split: if_split) simp
  show "transits E s E (session_drop s)"
    unfolding eq using s1 s2 transits_evolves transits_evolves_then [OF _ drop_accept_queues_ok(2)]
    by (simp only: step_ok_def split: if_split) simp
qed

end
