(* ===== verification/Session_System.thy ===== *)
theory Session_System
  imports Api_Safety
begin

text \<open>
  The whole session as a transition system: the inbound task, the outbound writer and the operations
  of the application on its handles interleave at their suspension points. The invariant of this
  system yields the resource and safety bounds that hold in every reachable state.
\<close>

section \<open>States\<close>

text \<open>Calls of the application that are suspended at an \<open>await\<close>.\<close>

datatype api_call =
    CWrite send_stream wb_await
  | CFinish send_stream
  | CReset send_stream u64
  | COpenUni open_uni_await
  | COpenBi open_bi_await
  | CStop recv_stream u64
  | CShutdown shutdown_await

record app =
  sends :: "send_stream list"
  recvs :: "recv_stream list"
  calls :: "api_call list"

record sys =
  sess :: session
  application :: app
  in_task :: inbound_task
  out_task :: outbound_task
  wr :: writer

definition sys_start :: "session \<Rightarrow> sys" where
  "sys_start s =
     \<lparr>sess = s, application = \<lparr>sends = [], recvs = [], calls = []\<rparr>,
      in_task = InLoop, out_task = OutLoop, wr = writer_new\<rparr>"

definition sys_init :: "bool \<Rightarrow> limits \<Rightarrow> sys \<Rightarrow> bool" where
  "sys_init server l x \<longleftrightarrow> session_new server l = Inr (sess x) \<and> x = sys_start (sess x)"

section \<open>Steps\<close>

inductive in_step :: "inbound_task \<Rightarrow> session \<Rightarrow> inbound_task \<Rightarrow> session \<Rightarrow> bool" where
  in_item: "inbound_item it s = (t, s') \<Longrightarrow> in_step InLoop s t s'"
| in_resume: "inbound_resume k r s = (t, s') \<Longrightarrow> in_step (InFrames k r) s t s'"
| in_cancel: "cancelled s \<Longrightarrow> inbound_cancel t s = (t', s') \<Longrightarrow> in_step t s t' s'"
| in_finish: "in_step InBreak s InDone (task_finished s)"

inductive out_step ::
  "ws_sink \<Rightarrow> outbound_task \<Rightarrow> writer \<Rightarrow> session \<Rightarrow> outbound_task \<Rightarrow> writer \<Rightarrow> session \<Rightarrow> bool" for tx where
  out_recv: "outbound_recv tx w s = Some (t, w', s') \<Longrightarrow> out_step tx OutLoop w s t w' s'"
| out_credit: "outbound_credit tx k w s = Some (t, w', s') \<Longrightarrow> out_step tx OutLoop w s t w' s'"
| out_peer_close: "outbound_peer_close tx w s = Some (t, w', s') \<Longrightarrow> out_step tx OutLoop w s t w' s'"
| out_cancel_inner: "outbound_cancel_inner tx w s = Some (t, w', s') \<Longrightarrow> out_step tx OutLoop w s t w' s'"
| out_cancel: "cancelled s \<Longrightarrow> out_step tx OutLoop w s OutBreak w s"
| out_finish: "out_step tx OutBreak w s OutDone w (outbound_finish s)"

text \<open>
  A call that returns adds its handles to those of the application; a call that suspends joins the
  suspended calls.
\<close>

fun ret_uni :: "(open_uni_await, error + send_stream) async \<Rightarrow> app \<Rightarrow> app" where
  "ret_uni (Awaiting k) a = a\<lparr>calls := COpenUni k # calls a\<rparr>"
| "ret_uni (Finished (Inl e)) a = a"
| "ret_uni (Finished (Inr ss)) a = a\<lparr>sends := ss # sends a\<rparr>"

fun ret_bi :: "(open_bi_await, error + (send_stream \<times> recv_stream)) async \<Rightarrow> app \<Rightarrow> app" where
  "ret_bi (Awaiting k) a = a\<lparr>calls := COpenBi k # calls a\<rparr>"
| "ret_bi (Finished (Inl e)) a = a"
| "ret_bi (Finished (Inr (ss, rv))) a = a\<lparr>sends := ss # sends a, recvs := rv # recvs a\<rparr>"

fun ret_stop :: "recv_stream \<Rightarrow> (u64, error + unit) async \<Rightarrow> app \<Rightarrow> app" where
  "ret_stop rv (Awaiting code) a = a\<lparr>calls := CStop rv code # calls a\<rparr>"
| "ret_stop rv (Finished r) a = a\<lparr>recvs := rv # recvs a\<rparr>"

fun ret_call :: "('k \<Rightarrow> api_call) \<Rightarrow> ('k, 'a) async \<Rightarrow> app \<Rightarrow> app" where
  "ret_call c (Awaiting k) a = a\<lparr>calls := c k # calls a\<rparr>"
| "ret_call c (Finished r) a = a"

text \<open>The poll of a suspended call, and what dropping it does.\<close>

fun resume_call :: "api_call \<Rightarrow> app \<Rightarrow> session \<Rightarrow> app \<times> session" where
  "resume_call (CWrite ss k) a s = (let (r, s1) = write_buf_resume ss k s in (ret_call (CWrite ss) r a, s1))"
| "resume_call (CFinish ss) a s =
     (let (r, s1) = send_finish_resume ss s in (ret_call (\<lambda>_. CFinish ss) r a, s1))"
| "resume_call (CReset ss code) a s =
     (let (r, s1) = send_reset_resume code ss s in (ret_call (CReset ss) r a, s1))"
| "resume_call (COpenUni k) a s = (let (r, s1) = open_uni_resume k s in (ret_uni r a, s1))"
| "resume_call (COpenBi k) a s = (let (r, s1) = open_bi_resume k s in (ret_bi r a, s1))"
| "resume_call (CStop rv code) a s = (let (r, s1) = recv_stop_resume code rv s in (ret_stop rv r a, s1))"
| "resume_call (CShutdown k) a s = (let (r, s1) = shutdown_resume k s in (ret_call CShutdown r a, s1))"

fun cancel_call :: "api_call \<Rightarrow> app \<Rightarrow> session \<Rightarrow> app \<times> session" where
  "cancel_call (CWrite ss k) a s = (a, send_operation_cancel ss s)"
| "cancel_call (CFinish ss) a s = (a, send_operation_cancel ss s)"
| "cancel_call (CReset ss code) a s = (a, send_operation_cancel ss s)"
| "cancel_call (COpenUni k) a s = (a, open_uni_cancel k s)"
| "cancel_call (COpenBi k) a s = (a, open_bi_cancel k s)"
| "cancel_call (CStop rv code) a s = (a\<lparr>recvs := rv # recvs a\<rparr>, recv_stop_cancel s)"
| "cancel_call (CShutdown k) a s = (a, shutdown_cancel k s)"

inductive api_step :: "app \<Rightarrow> session \<Rightarrow> app \<Rightarrow> session \<Rightarrow> bool" where
  do_open_uni: "open_uni s = (r, s') \<Longrightarrow> api_step a s (ret_uni r a) s'"
| do_open_bi: "open_bi s = (r, s') \<Longrightarrow> api_step a s (ret_bi r a) s'"
| do_accept_uni: "accept_uni s = (Ready (Inr rv), s') \<Longrightarrow> api_step a s (a\<lparr>recvs := rv # recvs a\<rparr>) s'"
| do_accept_bi: "accept_bi s = (Ready (Inr (ss, rv)), s') \<Longrightarrow>
    api_step a s (a\<lparr>sends := ss # sends a, recvs := rv # recvs a\<rparr>) s'"
| do_write: "ss \<in> set (sends a) \<Longrightarrow> write_buf ss d s = (r, s') \<Longrightarrow> api_step a s (ret_call (CWrite ss) r a) s'"
| do_finish: "ss \<in> set (sends a) \<Longrightarrow> send_finish ss s = (r, s') \<Longrightarrow>
    api_step a s (ret_call (\<lambda>_. CFinish ss) r a) s'"
| do_reset: "ss \<in> set (sends a) \<Longrightarrow> send_reset code ss s = (r, s') \<Longrightarrow>
    api_step a s (ret_call (CReset ss) r a) s'"
| do_clone: "ss \<in> set (sends a) \<Longrightarrow> send_stream_clone ss s = (ss', s') \<Longrightarrow>
    api_step a s (a\<lparr>sends := ss' # sends a\<rparr>) s'"
| do_poll_write: "sends a = xs @ ss # ys \<Longrightarrow> poll_write ss d s = (r, ss', s') \<Longrightarrow>
    api_step a s (a\<lparr>sends := xs @ ss' # ys\<rparr>) s'"
| do_poll_flush: "sends a = xs @ ss # ys \<Longrightarrow> poll_flush ss s = (r, ss', s') \<Longrightarrow>
    api_step a s (a\<lparr>sends := xs @ ss' # ys\<rparr>) s'"
| do_poll_shutdown: "sends a = xs @ ss # ys \<Longrightarrow> poll_shutdown ss s = (r, ss', s') \<Longrightarrow>
    api_step a s (a\<lparr>sends := xs @ ss' # ys\<rparr>) s'"
| do_drop_send: "sends a = xs @ ss # ys \<Longrightarrow>
    api_step a s (a\<lparr>sends := xs @ ys\<rparr>) (send_stream_drop ss s)"
| do_read: "recvs a = xs @ rv # ys \<Longrightarrow> recv_read n rv s = (r, rv', s') \<Longrightarrow>
    api_step a s (a\<lparr>recvs := rv' # xs @ ys\<rparr>) s'"
| do_read_buf: "recvs a = xs @ rv # ys \<Longrightarrow> recv_read_buf n rv s = (r, rv', s') \<Longrightarrow>
    api_step a s (a\<lparr>recvs := rv' # xs @ ys\<rparr>) s'"
| do_read_chunk: "recvs a = xs @ rv # ys \<Longrightarrow> recv_read_chunk n rv s = (r, rv', s') \<Longrightarrow>
    api_step a s (a\<lparr>recvs := rv' # xs @ ys\<rparr>) s'"
| do_poll_read: "recvs a = xs @ rv # ys \<Longrightarrow> poll_read n rv s = (q, rv', s') \<Longrightarrow>
    api_step a s (a\<lparr>recvs := rv' # xs @ ys\<rparr>) s'"
| do_stop: "recvs a = xs @ rv # ys \<Longrightarrow> recv_stop code rv s = (r, rv', s') \<Longrightarrow>
    api_step a s (ret_stop rv' r (a\<lparr>recvs := xs @ ys\<rparr>)) s'"
| do_drop_recv: "recvs a = xs @ rv # ys \<Longrightarrow>
    api_step a s (a\<lparr>recvs := xs @ ys\<rparr>) (recv_stream_drop rv s)"
| do_shutdown: "shutdown s = (r, s') \<Longrightarrow> api_step a s (ret_call CShutdown r a) s'"
| do_shutdown_timeout: "calls a = xs @ CShutdown k # ys \<Longrightarrow> shutdown_timeout k s = (r, s') \<Longrightarrow>
    api_step a s (ret_call CShutdown r (a\<lparr>calls := xs @ ys\<rparr>)) s'"
| do_session_clone: "api_step a s a (session_clone s)"
| do_session_drop: "api_step a s a (session_drop s)"
| do_resume: "calls a = xs @ c # ys \<Longrightarrow> resume_call c (a\<lparr>calls := xs @ ys\<rparr>) s = (a', s') \<Longrightarrow>
    api_step a s a' s'"
| do_cancel: "calls a = xs @ c # ys \<Longrightarrow> cancel_call c (a\<lparr>calls := xs @ ys\<rparr>) s = (a', s') \<Longrightarrow>
    api_step a s a' s'"

inductive sys_step :: "ws_sink \<Rightarrow> sys \<Rightarrow> sys \<Rightarrow> bool" for tx where
  inbound: "in_step (in_task x) (sess x) t s' \<Longrightarrow> sys_step tx x (x\<lparr>in_task := t, sess := s'\<rparr>)"
| outbound: "out_step tx (out_task x) (wr x) (sess x) t w s' \<Longrightarrow>
    sys_step tx x (x\<lparr>out_task := t, wr := w, sess := s'\<rparr>)"
| application: "api_step (application x) (sess x) a s' \<Longrightarrow>
    sys_step tx x (x\<lparr>application := a, sess := s'\<rparr>)"

inductive_cases in_stepE: "in_step t s t' s'"
inductive_cases out_stepE: "out_step tx t w s t' w' s'"
inductive_cases api_stepE: "api_step a s a' s'"
inductive_cases sys_stepE: "sys_step tx x y"

section \<open>The invariant\<close>

fun call_ok :: "api_call \<Rightarrow> session \<Rightarrow> bool" where
  "call_ok (CWrite ss k) s \<longleftrightarrow> ss_ok ss \<and> ss_flow ss < next_ref s \<and> wb_await_held k \<le> MAX_WRITE_CHUNK"
| "call_ok (CFinish ss) s \<longleftrightarrow> ss_ok ss"
| "call_ok (CReset ss code) s \<longleftrightarrow> ss_ok ss \<and> in_varint code"
| "call_ok (COpenUni k) s \<longleftrightarrow> flow_handle_ok (open_uni_flow (Awaiting k)) s"
| "call_ok (COpenBi k) s \<longleftrightarrow> flow_handle_ok (Some (open_bi_await_flow k)) s \<and> rv_ok (open_bi_await_recv k)"
| "call_ok (CStop rv code) s \<longleftrightarrow> rv_ok rv \<and> in_varint code"
| "call_ok (CShutdown k) s \<longleftrightarrow> True"

fun call_recvs :: "api_call \<Rightarrow> recv_stream list" where
  "call_recvs (COpenBi k) = [open_bi_await_recv k]"
| "call_recvs (CStop rv code) = [rv]"
| "call_recvs _ = []"

text \<open>The credit of flow \<open>r\<close> that a suspended call has reserved and not yet put on the wire.\<close>

fun call_held :: "nat \<Rightarrow> api_call \<Rightarrow> nat" where
  "call_held r (CWrite ss k) = (if ss_flow ss = r then wb_await_held k else 0)"
| "call_held r _ = 0"

definition reserved :: "nat \<Rightarrow> api_call list \<Rightarrow> nat" where
  "reserved r cs = sum_list (map (call_held r) cs)"

definition send_ok :: "session \<Rightarrow> send_stream \<Rightarrow> bool" where
  "send_ok s ss \<longleftrightarrow> ss_ok ss \<and> ss_flow ss < next_ref s"

definition app_ok :: "app \<Rightarrow> session \<Rightarrow> bool" where
  "app_ok a s \<longleftrightarrow> (\<forall>ss \<in> set (sends a). send_ok s ss) \<and> (\<forall>rv \<in> set (recvs a). rv_ok rv)
     \<and> (\<forall>c \<in> set (calls a). call_ok c s)
     \<and> (\<forall>r. reserved r (calls a) \<le> unat (sent_data (flow_mem s r)))"

definition app_recvs :: "app \<Rightarrow> recv_stream list" where
  "app_recvs a = recvs a @ concat (map call_recvs (calls a))"

fun in_task_recvs :: "inbound_task \<Rightarrow> recv_stream list" where
  "in_task_recvs (InFrames k r) = hf_await_recvs k"
| "in_task_recvs _ = []"

definition sys_inv :: "sys \<Rightarrow> bool" where
  "sys_inv x \<longleftrightarrow> session_inv (sess x) \<and> in_task_ok (in_task x) (sess x) \<and> out_task x \<noteq> OutPanic
     \<and> app_ok (application x) (sess x)
     \<and> recvs_ok (in_task_recvs (in_task x) @ app_recvs (application x)) (sess x)"

section \<open>Preservation by the tasks\<close>

lemma recvs_ok_perm: "mset E = mset F \<Longrightarrow> recvs_ok E s = recvs_ok F s"
  using transits_requeue [of s s E F] transits_requeue [of s s F E] by (auto simp: transits_def)

lemma call_ok_grows: "grows s s' \<Longrightarrow> call_ok c s \<Longrightarrow> call_ok c s'"
  by (cases c) (auto simp: grows_def flow_handle_ok_def split: option.splits prod.splits)

lemma reserved_Nil [simp]: "reserved r [] = 0"
  and reserved_Cons [simp]: "reserved r (c # cs) = call_held r c + reserved r cs"
  and reserved_append [simp]: "reserved r (cs @ ds) = reserved r cs + reserved r ds"
  by (simp_all add: reserved_def)

lemma reserved_fresh:
  "\<forall>c \<in> set cs. call_ok c s \<Longrightarrow> next_ref s \<le> r \<Longrightarrow> reserved r cs = 0"
proof (induction cs)
  case (Cons c cs)
  then show ?case by (cases c) auto
qed simp

lemma app_ok_grows:
  assumes "grows s s'" "app_ok a s"
  shows "app_ok a s'"
proof -
  have "reserved r (calls a) \<le> unat (sent_data (flow_mem s' r))" for r
  proof (cases "r < next_ref s")
    case True
    then have "unat (sent_data (flow_mem s r)) \<le> unat (sent_data (flow_mem s' r))"
      using assms(1) by (simp add: grows_def word_le_nat_alt)
    moreover have "reserved r (calls a) \<le> unat (sent_data (flow_mem s r))"
      using assms(2) by (simp add: app_ok_def)
    ultimately show ?thesis by (rule order_trans [rotated])
  next
    case False
    then show ?thesis using assms(2) reserved_fresh [of "calls a" s r] by (simp add: app_ok_def)
  qed
  then show ?thesis
    using assms call_ok_grows [OF assms(1)] by (auto simp: app_ok_def send_ok_def grows_def)
qed

lemma in_task_ok_grows: "grows s s' \<Longrightarrow> in_task_ok t s \<Longrightarrow> in_task_ok t s'"
  by (cases "(t, s)" rule: in_task_ok.cases)
    (auto elim!: hf_await_ok.elims intro: grows_below_frontier)

lemma transits_inbound_frames:
  "session_inv s \<Longrightarrow> inbound_frames c s = (t, s') \<Longrightarrow> transits E s (in_task_recvs t @ E) s'"
proof (induction c s arbitrary: t s' rule: inbound_frames.induct)
  case (1 c s)
  show ?case
  proof (cases "c = [] \<or> (\<exists>e. frame_decode 64 c = Inl e)")
    case True
    then show ?thesis
      using "1.prems" transits_evolves [OF evolves_protocol_error [of 1 "''invalid frame''" s]]
      by (cases "protocol_error 1 ''invalid frame'' s") (auto simp: inbound_frames.simps [of c] split: if_splits)
  next
    case False
    then obtain f r where p: "frame_decode 64 c = Inr (f, r)" "c \<noteq> []" by (cases "frame_decode 64 c") auto
    obtain x s1 where h: "handle_frame f s = (x, s1)" by fastforce
    have ok: "hf_outcome_ok x s1" by (rule handle_frame_ok [OF "1.prems"(1) frame_decode_wf [OF p(1)] h])
    note t1 = transits_handle_frame [OF "1.prems"(1) h]
    show ?thesis
    proof (cases "\<exists>u. x = Finished (Inr u)")
      case True
      then have "transits E s1 (in_task_recvs t @ E) s'"
        using "1.IH" [OF p(2,1) refl h [symmetric]] "1.prems"(2) p h ok
        by (auto simp: inbound_frames.simps [of c])
      then show ?thesis using True transits_trans [OF t1] by auto
    next
      case no: False
      then show ?thesis
        using "1.prems"(2) p h t1
        by (auto simp: inbound_frames.simps [of c] split: async.splits sum.splits)
    qed
  qed
qed

lemma transits_inbound_item:
  assumes "session_inv s" "inbound_item it s = (t, s')"
  shows "transits E s (in_task_recvs t @ E) s'"
proof -
  have pe: "transits E s E (snd (protocol_error code reason s))" for code reason
    using transits_evolves [OF evolves_protocol_error] by (metis prod.collapse)
  have pong: "transits E s E (snd (outbound_try_send (WsCmd m) s))" for m
    using transits_evolves [OF evolves_try_send] by (metis prod.collapse)
  have "transits E s E (s\<lparr>peer_closed := True, shutdown_started := True, peer_close_notify := True\<rparr>)"
    by (rule transits_evolves) (simp add: evolves_defs)
  then show ?thesis
    using assms pe pong transits_inbound_frames
    by (cases "(it, s)" rule: inbound_item.cases)
      (auto simp: inbound_message_def split: ws_message.splits if_splits)
qed

lemma transits_inbound_resume:
  assumes "session_inv s" "hf_await_ok k s" "inbound_resume k r s = (t, s')"
  shows "transits (hf_await_recvs k @ E) s (in_task_recvs t @ E) s'"
proof -
  obtain x s1 where h: "handle_frame_resume k s = (x, s1)" by fastforce
  have ok: "hf_outcome_ok x s1" by (rule handle_frame_resume_ok [OF assms(1,2) h])
  note t1 = transits_handle_frame_resume [OF h]
  show ?thesis
    using assms(3) h ok t1 transits_trans [OF t1] transits_inbound_frames [of s1 r t s']
    by (auto simp: inbound_resume_def split: async.splits sum.splits)
qed

lemma evolves_task_finished: "evolves {} s (task_finished s)"
  using evolves_close_all [of "{}" s] by (auto simp: task_finished_def evolves_defs Let_def)

lemma in_step_ok:
  assumes "in_step t s t' s'" "session_inv s" "in_task_ok t s"
  shows "session_inv s' \<and> in_task_ok t' s' \<and> transits (in_task_recvs t @ E) s (in_task_recvs t' @ E) s'"
  using assms
proof cases
  case in_cancel
  then have "session_inv s' \<and> in_task_ok t' s'" using inbound_cancel_ok assms(2,3) by blast
  with in_cancel show ?thesis using transits_handle_frame_cancel by (cases t) auto
next
  case in_item
  then show ?thesis using inbound_item_ok transits_inbound_item assms(2) by auto
next
  case in_resume
  then show ?thesis using inbound_resume_ok transits_inbound_resume assms(2,3) by auto
next
  case in_finish
  then show ?thesis
    using assms(2) by (auto intro: session_inv_task_finished transits_evolves evolves_task_finished)
qed

lemma evolves_ack_send: "evolves {} s (ack_send a r s)"
  by (simp add: ack_send_def evolves_defs)

lemma evolves_write_cmd:
  assumes "write_cmd tx idle c w s = Some (b, w', s')"
  shows "evolves {} s s'"
  using assms evolves_ack_send
  by (auto simp: write_cmd_def split: outbound_cmd.splits if_splits prod.splits sum.splits)

lemma evolves_out_result:
  assumes "out_result s (write_cmd tx idle c w s) w = (t, w', s')"
  shows "evolves {} s s'"
  using assms evolves_write_cmd by (cases "write_cmd tx idle c w s") (auto split: if_splits)

lemma evolves_outbound:
  assumes "outbound_recv tx w s = Some (t, w', s') \<or> outbound_credit tx k w s = Some (t, w', s')"
  shows "evolves {} s s'"
proof -
  have pop: "evolves {} s (s\<lparr>outbound := q\<rparr>)" for q by (simp add: evolves_defs)
  show ?thesis
    using assms evolves_then [OF pop evolves_out_result] evolves_then [OF evolves_next_credit evolves_out_result]
    by (auto simp: outbound_recv_def outbound_credit_def Let_def
        split: list.splits if_splits prod.splits poll.splits)
qed

lemma evolves_outbound_finish: "evolves {} s (outbound_finish s)"
  unfolding outbound_finish_def by (rule evolves_then [OF _ evolves_task_finished]) (simp add: evolves_defs)

lemma out_step_ok:
  assumes "out_step tx t w s t' w' s'" "session_inv s"
  shows "session_inv s' \<and> t' \<noteq> OutPanic \<and> evolves {} s s'"
  using assms
proof cases
  case out_peer_close
  then show ?thesis
    using assms(2) by (auto simp: outbound_peer_close_def session_inv_def evolves_defs split: if_splits)
next
  case out_cancel_inner
  then show ?thesis
    using assms(2) by (clarsimp simp: outbound_cancel_inner_def split: if_splits)
next
  case out_finish
  then show ?thesis using assms(2) by (simp add: session_inv_outbound_finish evolves_outbound_finish)
next
  case out_recv
  then show ?thesis using outbound_recv_ok [OF assms(2)] evolves_outbound by metis
next
  case (out_credit k)
  then show ?thesis using outbound_credit_ok [OF assms(2)] evolves_outbound by metis
qed (use assms(2) in simp)

end
