(* ===== verification/System_Safety.thy ===== *)
theory System_Safety
  imports Session_System
begin

text \<open>
  Preservation of the system invariant by the operations of the application, and what the invariant
  gives in every reachable state.
\<close>

section \<open>Preservation by the application\<close>

text \<open>
  A step of the application. Giving back a reservation lowers the counter of a flow, so the session
  grows up to the contents of the flows.
\<close>

definition advances :: "session \<Rightarrow> session \<Rightarrow> bool" where
  "advances s s' \<longleftrightarrow> (\<exists>m. grows (s\<lparr>flow_mem := m\<rparr>) s')"

lemma advances_grows: "grows s s' \<Longrightarrow> advances s s'"
  unfolding advances_def by (rule exI [of _ "flow_mem s"]) simp

lemma in_task_ok_advances: "advances s s' \<Longrightarrow> in_task_ok t s \<Longrightarrow> in_task_ok t s'"
  unfolding advances_def
  by (cases "(t, s)" rule: in_task_ok.cases)
    (auto elim!: hf_await_ok.elims dest: grows_below_frontier)

definition app_moves :: "app \<Rightarrow> session \<Rightarrow> app \<Rightarrow> session \<Rightarrow> bool" where
  "app_moves a s a' s' \<longleftrightarrow>
     (\<forall>E. session_inv s \<and> app_ok a s \<and> recvs_ok (E @ app_recvs a) s \<longrightarrow>
        advances s s' \<and> session_inv s' \<and> app_ok a' s' \<and> recvs_ok (E @ app_recvs a') s')"

lemma app_movesI:
  assumes "\<And>E. session_inv s \<Longrightarrow> app_ok a s \<Longrightarrow> recvs_ok (E @ app_recvs a) s \<Longrightarrow>
      advances s s' \<and> session_inv s' \<and> app_ok a' s' \<and> recvs_ok (E @ app_recvs a') s'"
  shows "app_moves a s a' s'"
  unfolding app_moves_def by (intro allI impI, elim conjE) (rule assms)

text \<open>The handles \<open>old\<close> of the application become \<open>new\<close>; the others stay.\<close>

lemma app_moves_transits:
  assumes t: "\<And>E. session_inv s \<Longrightarrow> transits (old @ E) s (new @ E) s'"
    and inv: "session_inv s \<Longrightarrow> app_ok a s \<Longrightarrow> refs_ok s \<Longrightarrow> \<forall>rv \<in> set old. recv_link rv s \<Longrightarrow>
      session_inv s' \<and> (app_ok a s' \<longrightarrow> app_ok a' s')"
    and old: "mset (app_recvs a) = mset (old @ rest)" and new: "mset (app_recvs a') = mset (new @ rest)"
  shows "app_moves a s a' s'"
proof (rule app_movesI)
  fix E
  assume h: "session_inv s" "app_ok a s" "recvs_ok (E @ app_recvs a) s"
  then have ok: "recvs_ok (old @ rest @ E) s" using old recvs_ok_perm [of "E @ app_recvs a" "old @ rest @ E"] by simp
  then have "refs_ok s" "\<forall>rv \<in> set old. recv_link rv s" by (auto simp: recvs_ok_def)
  note i = inv [OF h(1,2) this]
  have g: "grows s s'" and "recvs_ok (new @ rest @ E) s'" using t [OF h(1), of "rest @ E"] ok by (auto simp: transits_def)
  then have "recvs_ok (E @ app_recvs a') s'"
    using new recvs_ok_perm [of "E @ app_recvs a'" "new @ rest @ E"] by simp
  then show "advances s s' \<and> session_inv s' \<and> app_ok a' s' \<and> recvs_ok (E @ app_recvs a') s'"
    using i g app_ok_grows [OF g h(2)] by (simp add: advances_grows)
qed

lemma app_moves_step:
  assumes "app_ok a s \<Longrightarrow> session_inv s \<Longrightarrow> step_ok s s' \<and> (app_ok a s' \<longrightarrow> app_ok a' s')"
    and "app_recvs a' = app_recvs a"
  shows "app_moves a s a' s'"
proof (rule app_movesI)
  fix E
  assume h: "session_inv s" "app_ok a s" "recvs_ok (E @ app_recvs a) s"
  then have ev: "evolves {} s s'" "session_inv s'" using assms(1) by (auto simp: step_ok_def)
  have g: "grows s s'" by (rule evolves_grows [OF ev(1)])
  have "recvs_ok (E @ app_recvs a) s'" using transits_evolves [OF ev(1)] h(3) by (auto simp: transits_def)
  then show "advances s s' \<and> session_inv s' \<and> app_ok a' s' \<and> recvs_ok (E @ app_recvs a') s'"
    using assms h ev g app_ok_grows [OF g h(2)] by (simp add: advances_grows)
qed

text \<open>What returning from a call does to the application.\<close>

lemma app_recvs_simps [simp]:
  "app_recvs (a\<lparr>sends := x\<rparr>) = app_recvs a" "app_recvs (a\<lparr>recvs := y\<rparr>) = y @ concat (map call_recvs (calls a))"
  "app_recvs (a\<lparr>calls := z\<rparr>) = recvs a @ concat (map call_recvs z)"
  by (simp_all add: app_recvs_def)

lemma app_ok_sends: "app_ok (a\<lparr>sends := xs\<rparr>) s \<longleftrightarrow> (\<forall>ss \<in> set xs. send_ok s ss) \<and> app_ok (a\<lparr>sends := []\<rparr>) s"
  by (auto simp: app_ok_def)

lemma app_ok_recvs: "app_ok (a\<lparr>recvs := xs\<rparr>) s \<longleftrightarrow> (\<forall>rv \<in> set xs. rv_ok rv) \<and> app_ok (a\<lparr>recvs := []\<rparr>) s"
  by (auto simp: app_ok_def)

lemma ret_uni_ok:
  "flow_handle_ok (open_uni_flow r) s \<Longrightarrow> app_ok a s \<Longrightarrow> app_ok (ret_uni r a) s"
  "app_recvs (ret_uni r a) = app_recvs a"
  by (cases "(r, a)" rule: ret_uni.cases;
      auto simp: app_ok_def send_ok_def flow_handle_ok_def ss_ok_def app_recvs_def)+

lemma ret_bi_ok:
  "flow_handle_ok (open_bi_flow r) s \<Longrightarrow> list_all rv_ok (open_bi_recvs r) \<Longrightarrow> app_ok a s \<Longrightarrow> app_ok (ret_bi r a) s"
  "mset (app_recvs (ret_bi r a)) = mset (open_bi_recvs r @ app_recvs a)"
  by (cases "(r, a)" rule: ret_bi.cases;
      auto simp: app_ok_def send_ok_def flow_handle_ok_def ss_ok_def app_recvs_def)+

lemma ret_stop_ok:
  "rv_ok rv \<Longrightarrow> (\<And>k. r = Awaiting k \<Longrightarrow> in_varint k) \<Longrightarrow> app_ok a s \<Longrightarrow> app_ok (ret_stop rv r a) s"
  "mset (app_recvs (ret_stop rv r a)) = mset (rv # app_recvs a)"
  by (cases r; auto simp: app_ok_def app_recvs_def)+

lemma ret_call_ok:
  assumes "\<And>k. r = Awaiting k \<Longrightarrow> call_ok (c k) s \<and> call_recvs (c k) = []"
    and "\<And>k q. r = Awaiting k \<Longrightarrow> call_held q (c k) + reserved q (calls a) \<le> unat (sent_data (flow_mem s q))"
  shows "app_ok a s \<Longrightarrow> app_ok (ret_call c r a) s" "app_recvs (ret_call c r a) = app_recvs a"
  using assms by (cases r; auto simp: app_ok_def app_recvs_def)+

lemma ret_idle_call_ok:
  assumes "\<And>k. r = Awaiting k \<Longrightarrow> call_ok (c k) s" "\<And>k. call_recvs (c k) = []" "\<And>k q. call_held q (c k) = 0"
  shows "app_ok a s \<Longrightarrow> app_ok (ret_call c r a) s" "app_recvs (ret_call c r a) = app_recvs a"
  using assms by (cases r; auto simp: app_ok_def app_recvs_def)+

lemma send_ok_flow: "app_ok a s \<Longrightarrow> ss \<in> set (sends a) \<Longrightarrow> ss_ok ss \<and> ss_flow ss < next_ref s"
  by (auto simp: app_ok_def send_ok_def)

lemma app_moves_open_uni:
  assumes "open_uni s = (r, s')"
  shows "app_moves a s (ret_uni r a) s'"
proof (rule app_moves_step)
  assume "session_inv s"
  from open_uni_ok [OF this assms] show "step_ok s s' \<and> (app_ok a s' \<longrightarrow> app_ok (ret_uni r a) s')"
    by (simp add: step_ok_def ret_uni_ok)
qed (rule ret_uni_ok)

lemma app_moves_open_bi:
  assumes "open_bi s = (r, s')"
  shows "app_moves a s (ret_bi r a) s'"
proof (rule app_moves_transits)
  note ok = open_bi_ok [OF _ assms]
  show "transits ([] @ E) s (open_bi_recvs r @ E) s'" if "session_inv s" for E
    using ok [OF that] by simp
  show "session_inv s' \<and> (app_ok a s' \<longrightarrow> app_ok (ret_bi r a) s')" if "session_inv s"
    using ok [OF that] by (simp add: ret_bi_ok)
  show "mset (app_recvs (ret_bi r a)) = mset (open_bi_recvs r @ app_recvs a)" by (rule ret_bi_ok)
qed simp

lemma app_moves_accept_uni:
  assumes "accept_uni s = (Ready (Inr rv), s')"
  shows "app_moves a s (a\<lparr>recvs := rv # recvs a\<rparr>) s'"
  by (rule app_moves_transits [where old = "[]" and new = "[rv]" and rest = "app_recvs a"])
    (use accept_uni_ok [OF assms] in \<open>auto simp: app_recvs_def app_ok_def\<close>)

lemma app_moves_accept_bi:
  assumes "accept_bi s = (Ready (Inr (ss, rv)), s')"
  shows "app_moves a s (a\<lparr>sends := ss # sends a, recvs := rv # recvs a\<rparr>) s'"
  by (rule app_moves_transits [where old = "[]" and new = "[rv]" and rest = "app_recvs a"])
    (use accept_bi_ok [OF assms] in \<open>auto simp: app_recvs_def app_ok_def send_ok_def\<close>)

lemma call_held_other: "(\<And>ss k. c \<noteq> CWrite ss k) \<Longrightarrow> call_held q c = 0"
  by (cases c) auto

text \<open>A write that starts in \<open>s\<close> while the calls of \<open>a\<close> are suspended.\<close>

lemma app_moves_written:
  assumes "write_ok ss s (r, s')" "ss_ok ss" "ss_flow ss < next_ref s" "app_ok a s"
  shows "app_ok (ret_call (CWrite ss) r a) s'"
proof -
  have g: "grows s s'" using assms(1) by (simp add: write_ok_def evolves_def)
  have a: "app_ok a s'" by (rule app_ok_grows [OF g assms(4)])
  show ?thesis
  proof (rule ret_call_ok(1) [OF _ _ a])
    fix k assume r: "r = Awaiting k"
    then have h: "wb_await_held k = wb_held r" by (cases k) simp_all
    show "call_ok (CWrite ss k) s' \<and> call_recvs (CWrite ss k) = []"
      using assms g h by (auto simp: write_ok_def grows_def)
    fix q
    show "call_held q (CWrite ss k) + reserved q (calls a) \<le> unat (sent_data (flow_mem s' q))"
    proof (cases "q = ss_flow ss")
      case True
      have "reserved q (calls a) \<le> unat (sent_data (flow_mem s q))" using assms(4) by (simp add: app_ok_def)
      then show ?thesis using True assms(1) h by (simp add: write_ok_def)
    next
      case False
      then show ?thesis using a by (simp add: app_ok_def)
    qed
  qed
qed

lemma app_moves_write:
  assumes "ss \<in> set (sends a)" "write_buf ss d s = (r, s')"
  shows "app_moves a s (ret_call (CWrite ss) r a) s'"
proof (rule app_moves_step)
  assume a: "app_ok a s" and inv: "session_inv s"
  note ss = send_ok_flow [OF a assms(1)]
  have "write_ok ss s (r, s')" using write_buf_ok [OF inv, of ss d] ss assms(2) by simp
  with app_moves_written [OF this _ _ a] ss
  show "step_ok s s' \<and> (app_ok a s' \<longrightarrow> app_ok (ret_call (CWrite ss) r a) s')"
    by (simp add: write_ok_def step_ok_def)
qed (cases r; simp add: app_recvs_def)

lemma app_moves_finish:
  assumes "ss \<in> set (sends a)" "send_finish ss s = (r, s')"
  shows "app_moves a s (ret_call (\<lambda>_. CFinish ss) r a) s'"
proof (rule app_moves_step)
  assume a: "app_ok a s" and inv: "session_inv s"
  then show "step_ok s s' \<and> (app_ok a s' \<longrightarrow> app_ok (ret_call (\<lambda>_. CFinish ss) r a) s')"
    using send_finish_ok(1) [of ss s] send_ok_flow [OF a assms(1)] assms(2)
    by (auto intro!: ret_idle_call_ok)
qed (cases r; simp add: app_recvs_def)

lemma send_reset_code:
  assumes "send_reset code ss s = (Awaiting k, s')"
  shows "k = code \<and> in_varint code"
proof -
  obtain q s1 where b: "begin_operation 0 ss s = (q, s1)" by fastforce
  obtain p s2 where f: "send_frame (ResetStream (ss_id ss) code) (snd (remove_send_flow (ss_id ss)
      (shared_update (ss_shared ss) (\<lambda>c. c\<lparr>ss_finished := True\<rparr>) s1))) = (p, s2)" by fastforce
  show ?thesis
    using assms b f
    by (cases q; cases p; cases "from_u64 code")
      (auto simp: send_reset_def guarded_def end_guarded_def await_at_def from_u64_Inr_iff)
qed

lemma app_moves_reset:
  assumes "ss \<in> set (sends a)" "send_reset code ss s = (r, s')"
  shows "app_moves a s (ret_call (CReset ss) r a) s'"
proof (rule app_moves_step)
  assume a: "app_ok a s"
  note ss = send_ok_flow [OF a assms(1)]
  have "step_ok s s'" using send_reset_ok(1) [of ss s code] ss assms(2) by simp
  moreover have "app_ok (ret_call (CReset ss) r a) s'" if "app_ok a s'"
    by (rule ret_idle_call_ok(1) [OF _ _ _ that]) (use ss assms(2) send_reset_code in fastforce)+
  ultimately show "step_ok s s' \<and> (app_ok a s' \<longrightarrow> app_ok (ret_call (CReset ss) r a) s')" by simp
qed (cases r; simp add: app_recvs_def)

text \<open>The operations that replace a send handle in place.\<close>

lemma app_moves_send_handle:
  assumes "sends a = xs @ ss # ys"
    and "session_inv s \<Longrightarrow> ss_ok ss \<Longrightarrow> step_ok s s' \<and> ss_ok ss' \<and> ss_flow ss' = ss_flow ss"
  shows "app_moves a s (a\<lparr>sends := xs @ ss' # ys\<rparr>) s'"
proof (rule app_moves_step)
  assume a: "app_ok a s" and inv: "session_inv s"
  have "ss_ok ss" using send_ok_flow [OF a, of ss] assms(1) by simp
  then show "step_ok s s' \<and> (app_ok a s' \<longrightarrow> app_ok (a\<lparr>sends := xs @ ss' # ys\<rparr>) s')"
    using assms inv by (auto simp: app_ok_def send_ok_def)
qed simp

lemma app_moves_drop_send:
  assumes "sends a = xs @ ss # ys"
  shows "app_moves a s (a\<lparr>sends := xs @ ys\<rparr>) (send_stream_drop ss s)"
proof (rule app_moves_step)
  assume a: "app_ok a s"
  then show "step_ok s (send_stream_drop ss s) \<and>
      (app_ok a (send_stream_drop ss s) \<longrightarrow> app_ok (a\<lparr>sends := xs @ ys\<rparr>) (send_stream_drop ss s))"
    using assms send_ok_flow [OF a, of ss] send_stream_drop_ok [of ss s] by (auto simp: app_ok_def)
qed simp

text \<open>The operations on a receive handle.\<close>

lemma app_moves_read:
  assumes "recvs a = xs @ rv # ys" "read_ok rv s rv' s'"
  shows "app_moves a s (a\<lparr>recvs := rv' # xs @ ys\<rparr>) s'"
proof (rule app_moves_transits)
  let ?rest = "xs @ ys @ concat (map call_recvs (calls a))"
  show "transits ([rv] @ E) s ([rv'] @ E) s'" for E using assms(2) by (simp add: read_ok_def)
  show "session_inv s' \<and> (app_ok a s' \<longrightarrow> app_ok (a\<lparr>recvs := rv' # xs @ ys\<rparr>) s')"
    if "session_inv s" "\<forall>rv \<in> set [rv]. recv_link rv s"
    using that assms by (auto simp: read_ok_def app_ok_def rv_ok_def)
  show "mset (app_recvs a) = mset ([rv] @ ?rest)" using assms(1) by (simp add: app_recvs_def)
  show "mset (app_recvs (a\<lparr>recvs := rv' # xs @ ys\<rparr>)) = mset ([rv'] @ ?rest)" by simp
qed

lemma read_spec_ok:
  assumes "read_spec n rv s (r, rv', s')"
  shows "read_ok rv s rv' s'"
  using assms by (auto simp: read_spec_def split: poll.splits sum.splits option.splits)

lemma poll_read_spec_ok:
  assumes "poll_read_spec n rv s (r, rv', s')"
  shows "read_ok rv s rv' s'"
  using assms by (auto simp: poll_read_spec_def split: poll.splits)

lemma reads_ok:
  "recv_read n rv s = (r, rv', s') \<Longrightarrow> read_ok rv s rv' s'"
  "recv_read_buf n rv s = (r, rv', s') \<Longrightarrow> read_ok rv s rv' s'"
  "recv_read_chunk n rv s = (r, rv', s') \<Longrightarrow> read_ok rv s rv' s'"
  "poll_read n rv s = (q, rv', s') \<Longrightarrow> read_ok rv s rv' s'"
  using recv_read_spec recv_read_chunk_spec poll_read_spec
  by (metis recv_read_buf_eq read_spec_ok poll_read_spec_ok)+

lemma app_moves_stop:
  assumes "recvs a = xs @ rv # ys" "recv_stop code rv s = (r, rv', s')"
  shows "app_moves a s (ret_stop rv' r (a\<lparr>recvs := xs @ ys\<rparr>)) s'"
proof (cases "rv_ok rv")
  case True
  note ok = recv_stop_ok [OF True assms(2)]
  show ?thesis
  proof (rule app_moves_transits)
    let ?rest = "xs @ ys @ concat (map call_recvs (calls a))"
    show "transits ([rv] @ E) s ([rv'] @ E) s'" for E
      using transits_trans [OF transits_stop_flag [of rv E s "stop_sent rv'"] transits_evolves [of s s']] ok(1,2)
      by (simp add: step_ok_def)
    have "rv_ok rv'" using ok(2) True unfolding rv_ok_def by (metis recv_stream.select_convs(1) recv_stream.surjective recv_stream.update_convs(9))
    moreover have "app_ok (a\<lparr>recvs := xs @ ys\<rparr>) s'" if "app_ok a s'"
      using that assms(1) by (auto simp: app_ok_def)
    ultimately show "session_inv s' \<and> (app_ok a s' \<longrightarrow> app_ok (ret_stop rv' r (a\<lparr>recvs := xs @ ys\<rparr>)) s')"
      if "session_inv s"
      using that ok(1,3) by (auto simp: step_ok_def intro!: ret_stop_ok)
    show "mset (app_recvs a) = mset ([rv] @ ?rest)" using assms(1) by (simp add: app_recvs_def)
    show "mset (app_recvs (ret_stop rv' r (a\<lparr>recvs := xs @ ys\<rparr>))) = mset ([rv'] @ ?rest)"
      by (simp add: ret_stop_ok)
  qed
next
  case False
  then have "\<not> app_ok a s" using assms(1) by (auto simp: app_ok_def)
  then show ?thesis by (simp add: app_moves_def)
qed

lemma app_moves_drop_recv:
  assumes "recvs a = xs @ rv # ys"
  shows "app_moves a s (a\<lparr>recvs := xs @ ys\<rparr>) (recv_stream_drop rv s)"
proof (rule app_moves_transits)
  let ?rest = "xs @ ys @ concat (map call_recvs (calls a))"
  show "transits ([rv] @ E) s ([] @ E) (recv_stream_drop rv s)" for E by (simp add: transits_drop)
  show "session_inv (recv_stream_drop rv s) \<and>
      (app_ok a (recv_stream_drop rv s) \<longrightarrow> app_ok (a\<lparr>recvs := xs @ ys\<rparr>) (recv_stream_drop rv s))"
    if "session_inv s" "app_ok a s"
    using that assms by (auto simp: app_ok_def session_inv_recv_stream_drop)
  show "mset (app_recvs a) = mset ([rv] @ ?rest)" using assms by (simp add: app_recvs_def)
qed simp

text \<open>Suspended calls: taking one out, polling it, dropping it.\<close>

lemma app_ok_take_call:
  assumes "app_ok a s" "calls a = xs @ c # ys"
  shows "app_ok (a\<lparr>calls := xs @ ys\<rparr>) s" "call_ok c s"
    "call_held q c + reserved q (xs @ ys) \<le> unat (sent_data (flow_mem s q))"
proof -
  have le: "call_held r c + reserved r (xs @ ys) \<le> unat (sent_data (flow_mem s r))" for r
    using assms by (auto simp: app_ok_def algebra_simps)
  then show "call_held q c + reserved q (xs @ ys) \<le> unat (sent_data (flow_mem s q))" .
  show "app_ok (a\<lparr>calls := xs @ ys\<rparr>) s"
    using assms le by (auto simp: app_ok_def intro: add_leD2)
  show "call_ok c s" using assms by (simp add: app_ok_def)
qed

lemma app_moves_shutdown:
  assumes "step_ok s s'"
  shows "app_moves a s (ret_call CShutdown r a) s'"
  by (rule app_moves_step) (use assms in \<open>cases r; auto simp: app_ok_def app_recvs_def\<close>)+

text \<open>A call that is taken out of the suspended ones and holds no reservation.\<close>

lemma app_moves_taken:
  assumes "calls a = xs @ c # ys" "call_recvs c = []"
    and "call_ok c s \<Longrightarrow> app_moves (a\<lparr>calls := xs @ ys\<rparr>) s a' s'"
  shows "app_moves a s a' s'"
proof (rule app_movesI)
  fix E
  assume h: "session_inv s" "app_ok a s" "recvs_ok (E @ app_recvs a) s"
  note t = app_ok_take_call [OF h(2) assms(1)]
  have "app_recvs a = app_recvs (a\<lparr>calls := xs @ ys\<rparr>)" using assms(1,2) by (simp add: app_recvs_def)
  then show "advances s s' \<and> session_inv s' \<and> app_ok a' s' \<and> recvs_ok (E @ app_recvs a') s'"
    using assms(3) [OF t(2)] t(1) h unfolding app_moves_def by metis
qed

text \<open>A suspended call that owns a receive handle.\<close>

lemma app_moves_taken_recv:
  assumes "calls a = xs @ c # ys" "call_recvs c = [rv]"
    and "call_ok c s \<Longrightarrow> session_inv s \<Longrightarrow> session_inv s' \<and> (\<forall>E. transits (rv # E) s (new @ E) s')"
    and "call_ok c s' \<Longrightarrow> app_ok (a\<lparr>calls := xs @ ys\<rparr>) s' \<Longrightarrow> app_ok a' s'"
    and "mset (app_recvs a') = mset (new @ app_recvs (a\<lparr>calls := xs @ ys\<rparr>))"
  shows "app_moves a s a' s'"
proof (cases "app_ok a s")
  case True
  note t = app_ok_take_call [OF True assms(1)]
  show ?thesis
  proof (rule app_moves_transits)
    show "transits ([rv] @ E) s (new @ E) s'" if "session_inv s" for E using assms(3) t(2) that by simp
    show "session_inv s' \<and> (app_ok a s' \<longrightarrow> app_ok a' s')" if "session_inv s"
      using assms(3,4) t(2) that app_ok_take_call(1,2) [OF _ assms(1), of s'] by blast
    show "mset (app_recvs a) = mset ([rv] @ app_recvs (a\<lparr>calls := xs @ ys\<rparr>))"
      using assms(1,2) by (simp add: app_recvs_def)
  qed (rule assms)
qed (simp add: app_moves_def)

lemma flow_update_frames [simp]:
  "call_ok c (flow_update r g s) = call_ok c s" "send_ok (flow_update r g s) ss = send_ok s ss"
  "recvs_ok E (flow_update r g s) = recvs_ok E s"
proof -
  show "call_ok c (flow_update r g s) = call_ok c s"
    by (cases c) (auto simp: flow_update_def flow_handle_ok_def split: option.splits)
  have "recv_link rv (flow_update r g s) = recv_link rv s" for rv
    by (simp add: recv_link_def unread_def flow_update_def)
  then show "recvs_ok E (flow_update r g s) = recvs_ok E s"
    by (simp add: recvs_ok_def refs_ok_def queued_recvs_def) (simp add: flow_update_def)
qed (simp add: send_ok_def flow_update_def)

lemma app_moves_write_resume:
  assumes c: "calls a = xs @ CWrite ss k # ys" and w: "write_buf_resume ss k s = (r, s')"
  shows "app_moves a s (ret_call (CWrite ss) r (a\<lparr>calls := xs @ ys\<rparr>)) s'"
proof (rule app_movesI)
  fix E
  assume h: "session_inv s" "app_ok a s" "recvs_ok (E @ app_recvs a) s"
  let ?a0 = "a\<lparr>calls := xs @ ys\<rparr>" and ?s0 = "flow_update (ss_flow ss) (release (wb_await_held k)) s"
  note t = app_ok_take_call [OF h(2) c]
  have k: "ss_ok ss" "ss_flow ss < next_ref s" "wb_await_held k \<le> MAX_WRITE_CHUNK" using t(2) by simp_all
  have held: "wb_await_held k + reserved (ss_flow ss) (xs @ ys) \<le> unat (sent_data (flow_mem s (ss_flow ss)))"
    using t(3) [of "ss_flow ss"] by simp
  then have le: "wb_await_held k \<le> unat (sent_data (flow_mem s (ss_flow ss)))" by simp
  have wo: "write_ok ss ?s0 (r, s')" using write_buf_resume_ok [OF h(1) k(1) le k(3)] w by simp
  have fm: "flow_mem ?s0 q = (if q = ss_flow ss then release (wb_await_held k) (flow_mem s q) else flow_mem s q)" for q
    by (simp add: flow_update_def)
  have "reserved q (xs @ ys) \<le> unat (sent_data (flow_mem ?s0 q))" for q
    using evolves_reserved(2) [OF h(1) le] held t(3) [of q] by (cases "q = ss_flow ss") (auto simp: fm)
  then have a0: "app_ok ?a0 ?s0"
    using t(1) by (simp add: app_ok_def)
  have "app_ok (ret_call (CWrite ss) r ?a0) s'"
    by (rule app_moves_written [OF wo k(1) _ a0]) (use k(2) in \<open>simp add: flow_update_def\<close>)
  moreover have "app_recvs a = app_recvs (ret_call (CWrite ss) r ?a0)"
    using c by (cases r) (auto simp: app_recvs_def)
  moreover have "recvs_ok (E @ app_recvs a) s'"
  proof -
    have "recvs_ok (E @ app_recvs a) ?s0" using h(3) by simp
    then show ?thesis using transits_evolves [of ?s0 s'] wo by (auto simp: write_ok_def transits_def)
  qed
  moreover have "advances s s'"
    unfolding advances_def using wo by (auto simp: write_ok_def evolves_def flow_update_def)
  ultimately show "advances s s' \<and> session_inv s' \<and> app_ok (ret_call (CWrite ss) r ?a0) s'
      \<and> recvs_ok (E @ app_recvs (ret_call (CWrite ss) r ?a0)) s'"
    using wo by (simp add: write_ok_def)
qed

lemma app_moves_idle_resume:
  assumes "calls a = xs @ c # ys" "call_recvs c = []" "\<And>k. call_recvs (d k) = []" "\<And>k q. call_held q (d k) = 0"
    and "call_ok c s \<Longrightarrow> step_ok s s'" and "call_ok c s \<Longrightarrow> \<forall>k. r = Awaiting k \<longrightarrow> call_ok (d k) s'"
  shows "app_moves a s (ret_call d r (a\<lparr>calls := xs @ ys\<rparr>)) s'"
proof (rule app_moves_taken [OF assms(1,2)])
  assume c: "call_ok c s"
  show "app_moves (a\<lparr>calls := xs @ ys\<rparr>) s (ret_call d r (a\<lparr>calls := xs @ ys\<rparr>)) s'"
  proof (rule app_moves_step)
    show "step_ok s s' \<and> (app_ok (a\<lparr>calls := xs @ ys\<rparr>) s' \<longrightarrow>
        app_ok (ret_call d r (a\<lparr>calls := xs @ ys\<rparr>)) s')"
      using assms(3-6) c ret_idle_call_ok(1) [of r d s' "a\<lparr>calls := xs @ ys\<rparr>"] by simp
  qed (cases r; simp add: app_recvs_def assms(3))
qed

lemma send_resume_code:
  assumes "send_reset_resume code ss s = (Awaiting k, s')"
  shows "k = code"
proof -
  obtain p s2 where f: "send_frame_resume (ResetStream (ss_id ss) code) s = (p, s2)" by fastforce
  show ?thesis
    using assms f by (cases p) (auto simp: send_reset_resume_def end_guarded_def await_at_def)
qed

lemma recv_stop_resume_code: "recv_stop_resume code rv s = (Awaiting k, s') \<Longrightarrow> k = code"
  by (auto simp: recv_stop_resume_def await_at_def split: prod.splits poll.splits)

lemma app_moves_resume:
  assumes c: "calls a = xs @ c # ys" and r: "resume_call c (a\<lparr>calls := xs @ ys\<rparr>) s = (a', s')"
  shows "app_moves a s a' s'"
proof (cases c)
  case (CWrite ss k)
  then show ?thesis
    using c r app_moves_write_resume [of a xs ss k ys s] by (cases "write_buf_resume ss k s") simp
next
  case (CFinish ss)
  then show ?thesis
    using c r app_moves_idle_resume [of a xs c ys "\<lambda>_. CFinish ss" s] send_finish_ok(2) [of ss s]
    by (cases "send_finish_resume ss s") auto
next
  case (CReset ss code)
  obtain q t where q: "send_reset_resume code ss s = (q, t)" by fastforce
  show ?thesis
    using c r CReset q app_moves_idle_resume [of a xs c ys "CReset ss" s t q]
      send_reset_ok(2) [of ss code s] send_resume_code [of code ss s _ t]
    by auto
next
  case (COpenUni k)
  obtain i f where k: "k = AwaitOpenUni i f" by (cases k)
  obtain q t where q: "open_uni_resume k s = (q, t)" by fastforce
  have res: "app_moves (a\<lparr>calls := xs @ ys\<rparr>) s (ret_uni q (a\<lparr>calls := xs @ ys\<rparr>)) t" if "call_ok c s"
  proof (rule app_moves_step)
    assume "session_inv s"
    with open_uni_resume_ok [of s i f q t] that COpenUni k q
    show "step_ok s t \<and> (app_ok (a\<lparr>calls := xs @ ys\<rparr>) t \<longrightarrow> app_ok (ret_uni q (a\<lparr>calls := xs @ ys\<rparr>)) t)"
      by (simp add: flow_handle_ok_def step_ok_def ret_uni_ok)
  qed (rule ret_uni_ok)
  show ?thesis using app_moves_taken [OF c _ res] r COpenUni q by simp
next
  case (COpenBi k)
  obtain i f where k: "open_bi_await_flow k = (i, f)" by fastforce
  obtain q t where q: "open_bi_resume k s = (q, t)" by fastforce
  let ?rv = "open_bi_await_recv k"
  have "app_moves a s (ret_bi q (a\<lparr>calls := xs @ ys\<rparr>)) t"
  proof (cases "session_inv s \<and> call_ok c s")
    case True
    then have st: "open_bi_step i f ?rv s (q, t)"
      using open_bi_resume_ok [of s k i f] q k COpenBi by (simp add: flow_handle_ok_def)
    show ?thesis
    proof (rule app_moves_taken_recv [OF c])
      show "session_inv t \<and> (\<forall>E. transits (?rv # E) s (open_bi_recvs q @ E) t)"
        using st by (simp add: open_bi_step_def)
      show "app_ok (ret_bi q (a\<lparr>calls := xs @ ys\<rparr>)) t" if "call_ok c t" "app_ok (a\<lparr>calls := xs @ ys\<rparr>) t"
        using that st k COpenBi
        by (intro ret_bi_ok) (auto simp: open_bi_step_def flow_handle_ok_def list_all_iff)
    qed (use COpenBi ret_bi_ok(2) in auto)
  next
    case False
    then have "\<not> (session_inv s \<and> app_ok a s)" using app_ok_take_call(2) [OF _ c] by blast
    then show ?thesis by (auto simp: app_moves_def)
  qed
  then show ?thesis using r COpenBi q by simp
next
  case (CStop rv code)
  obtain q t where q: "recv_stop_resume code rv s = (q, t)" by fastforce
  have "app_moves a s (ret_stop rv q (a\<lparr>calls := xs @ ys\<rparr>)) t"
  proof (rule app_moves_taken_recv [OF c])
    show "session_inv t \<and> (\<forall>E. transits (rv # E) s ([rv] @ E) t)" if "call_ok c s" "session_inv s"
      using that recv_stop_resume_ok [of rv code s] q CStop transits_evolves [of s t] by (simp add: step_ok_def)
    show "app_ok (ret_stop rv q (a\<lparr>calls := xs @ ys\<rparr>)) t" if "call_ok c t" "app_ok (a\<lparr>calls := xs @ ys\<rparr>) t"
      using that CStop recv_stop_resume_code [of code rv s _ t] q by (intro ret_stop_ok) auto
  qed (use CStop ret_stop_ok(2) in auto)
  then show ?thesis using r CStop q by simp
next
  case (CShutdown k)
  then show ?thesis
    using c r app_moves_taken [OF c _ app_moves_shutdown] shutdown_ok(2) [of s k]
    by (cases "shutdown_resume k s") auto
qed

lemma app_moves_cancel:
  assumes c: "calls a = xs @ c # ys" and r: "cancel_call c (a\<lparr>calls := xs @ ys\<rparr>) s = (a', s')"
  shows "app_moves a s a' s'"
proof -
  have idle: ?thesis if "call_recvs c = []" "a' = a\<lparr>calls := xs @ ys\<rparr>" "step_ok s s'"
    by (rule app_moves_taken [OF c that(1)]) (rule app_moves_step; use that in simp)
  show ?thesis
  proof (cases c)
    case (COpenBi k)
    have "app_moves a s (a\<lparr>calls := xs @ ys\<rparr>) (open_bi_cancel k s)"
    proof (rule app_moves_taken_recv [OF c, where new = "[]"])
      show "session_inv (open_bi_cancel k s) \<and>
          (\<forall>E. transits (open_bi_await_recv k # E) s ([] @ E) (open_bi_cancel k s))"
        if "call_ok c s" "session_inv s"
        using that COpenBi open_bi_cancel_ok by simp
    qed (use COpenBi in auto)
    then show ?thesis using r COpenBi by simp
  next
    case (CStop rv code)
    have st: "step_ok s (recv_stop_cancel s)" by (simp add: recv_stop_cancel_def step_ok_request_shutdown)
    have "app_moves a s (a\<lparr>calls := xs @ ys, recvs := rv # recvs a\<rparr>) (recv_stop_cancel s)"
    proof (rule app_moves_taken_recv [OF c, where new = "[rv]"])
      show "session_inv (recv_stop_cancel s) \<and> (\<forall>E. transits (rv # E) s ([rv] @ E) (recv_stop_cancel s))"
        if "session_inv s"
        using that st transits_evolves by (simp add: step_ok_def)
    qed (use CStop in \<open>auto simp: app_ok_def app_recvs_def\<close>)
    then show ?thesis using r CStop by simp
  qed (use r idle send_operation_cancel_ok open_uni_cancel_ok shutdown_ok in auto)
qed

section \<open>The system\<close>

lemma app_moves_poll:
  assumes "sends a = xs @ ss # ys"
    and "poll_write ss d s = (r, ss', s') \<or> poll_flush ss s = (q, ss', s') \<or> poll_shutdown ss s = (q, ss', s')"
  shows "app_moves a s (a\<lparr>sends := xs @ ss' # ys\<rparr>) s'"
  using assms(2) poll_write_ok [of s ss d r ss' s'] poll_flush_ok [of ss s q ss' s']
    poll_shutdown_ok [of ss s q ss' s']
  by (intro app_moves_send_handle [OF assms(1)]) (auto simp: step_ok_def ss_ok_def)

lemma app_moves_clone:
  assumes "ss \<in> set (sends a)" "send_stream_clone ss s = (ss', s')"
  shows "app_moves a s (a\<lparr>sends := ss' # sends a\<rparr>) s'"
proof (rule app_moves_step)
  have ss': "ss_ok ss' = ss_ok ss" "ss_flow ss' = ss_flow ss" "s' = snd (send_stream_clone ss s)"
    using assms(2) by (auto simp: send_stream_clone_def ss_ok_def)
  then show "step_ok s s' \<and> (app_ok a s' \<longrightarrow> app_ok (a\<lparr>sends := ss' # sends a\<rparr>) s')"
    using send_stream_clone_ok [of s ss] assms(1) by (auto simp: app_ok_def send_ok_def)
qed simp

lemma app_moves_handles:
  "app_moves a s a (session_clone s)" "app_moves a s a (session_drop s)"
  by (rule app_moves_step; simp add: session_clone_ok)
    (rule app_moves_transits [where old = "[]" and new = "[]"]; simp add: session_drop_ok)

lemmas api_moves = app_moves_open_uni app_moves_open_bi app_moves_accept_uni app_moves_accept_bi
  app_moves_write app_moves_finish app_moves_reset app_moves_clone app_moves_drop_send
  app_moves_stop app_moves_drop_recv app_moves_handles app_moves_resume app_moves_cancel

lemma api_step_moves: "api_step a s a' s' \<Longrightarrow> app_moves a s a' s'"
proof (induction rule: api_step.induct)
  case (do_shutdown s r s' a)
  then show ?case using app_moves_shutdown shutdown_ok(1) [of s] by simp
next
  case (do_shutdown_timeout a xs k ys s r s')
  then show ?case
    using app_moves_taken [OF do_shutdown_timeout(1) _ app_moves_shutdown] shutdown_ok(3) [of s k] by simp
qed (blast intro: api_moves app_moves_poll app_moves_read reads_ok)+

lemma sys_start_simps:
  "in_task_ok (in_task (sys_start s)) s'" "out_task (sys_start s) \<noteq> OutPanic" "app_ok (application (sys_start s)) s'"
  "in_task_recvs (in_task (sys_start s)) @ app_recvs (application (sys_start s)) = []"
  by (simp_all add: sys_start_def app_ok_def app_recvs_def)

lemma sys_inv_init:
  assumes "sys_init server l x"
  shows "sys_inv x"
proof -
  have "limits_ok 64 l" "sess x = session_inner_new server l"
    using assms limits_validate_ok_iff [of 64 l]
    by (auto simp: sys_init_def session_new_def try_bind_def split: sum.splits)
  moreover have "recvs_ok [] (session_inner_new server l)"
    by (simp add: recvs_ok_def refs_ok_def queued_recvs_def session_inner_new_def hmap_simps)
  moreover have "x = sys_start (sess x)" using assms by (simp add: sys_init_def)
  ultimately show ?thesis
    using session_inv_new [of l server] unfolding sys_inv_def
    by (metis (no_types, lifting) sys_start_simps)
qed

lemma sys_inv_step:
  assumes "sys_step tx x y" "sys_inv x"
  shows "sys_inv y"
  using assms(1)
proof cases
  case (inbound t s')
  note ok = in_step_ok [OF inbound(2), where E = "app_recvs (application x)"]
  then have "session_inv s'" "in_task_ok t s'" "grows (sess x) s'"
      "recvs_ok (in_task_recvs t @ app_recvs (application x)) s'"
    using assms(2) by (auto simp: sys_inv_def transits_def)
  then show ?thesis using inbound(1) assms(2) app_ok_grows by (simp add: sys_inv_def)
next
  case (outbound t w s')
  have ok: "session_inv s'" "t \<noteq> OutPanic" "evolves {} (sess x) s'"
    using out_step_ok [OF outbound(2)] assms(2) by (auto simp: sys_inv_def)
  then have g: "grows (sess x) s'" by (simp add: evolves_grows)
  have "recvs_ok (in_task_recvs (in_task x) @ app_recvs (application x)) s'"
    using transits_evolves [OF ok(3)] assms(2) by (simp add: sys_inv_def transits_def)
  then show ?thesis
    using outbound(1) assms(2) ok g app_ok_grows [OF g] in_task_ok_grows [OF g] by (simp add: sys_inv_def)
next
  case (application a s')
  have "advances (sess x) s' \<and> session_inv s' \<and> app_ok a s' \<and> recvs_ok (in_task_recvs (in_task x) @ app_recvs a) s'"
    using api_step_moves [OF application(2)] assms(2) unfolding app_moves_def sys_inv_def by blast
  then show ?thesis
    using application(1) assms(2) in_task_ok_advances [of "sess x" s' "in_task x"] by (simp add: sys_inv_def)
qed

interpretation session_system: invariant_system "sys_init server l" "sys_step tx" sys_inv
  for server l tx
  by unfold_locales (use sys_inv_init sys_inv_step in blast)+

section \<open>What holds in every reachable state\<close>

lemma sys_step_advances:
  assumes "sys_step tx x y" "sys_inv x"
  shows "advances (sess x) (sess y)"
  using assms(1)
proof cases
  case (inbound t s')
  then show ?thesis
    using in_step_ok [OF inbound(2)] assms(2) by (auto simp: sys_inv_def transits_def intro: advances_grows)
next
  case (outbound t w s')
  then show ?thesis
    using out_step_ok [OF outbound(2)] assms(2) by (auto simp: sys_inv_def evolves_def intro: advances_grows)
next
  case (application a s')
  then show ?thesis
    using api_step_moves [OF application(2)] assms(2) unfolding app_moves_def sys_inv_def by auto
qed

lemma advances_fields:
  assumes "advances s s'"
  shows "is_server s' = is_server s" "limits_of s' = limits_of s" "closed s \<Longrightarrow> closed s'"
    "shutdown_started s \<Longrightarrow> shutdown_started s'" "cancelled s \<Longrightarrow> cancelled s'"
    "next_peer_uni s \<le> next_peer_uni s'" "next_peer_bi s \<le> next_peer_bi s'"
  using assms by (auto simp: advances_def grows_def)

lemma reachable_config:
  assumes "reachable (sys_init server l) (sys_step tx) x"
  shows "limits_of (sess x) = l \<and> is_server (sess x) = server"
  using assms
proof (induction rule: reachable.induct)
  case (reachable_init x)
  then have "sess x = session_inner_new server l"
    by (auto simp: sys_init_def session_new_def try_bind_def split: sum.splits)
  then show ?case by (simp add: session_inner_new_def)
next
  case (reachable_step x y)
  then show ?case
    using advances_fields(1,2) [OF sys_step_advances] session_system.reachable_inv by blast
qed

end
