(* ===== verification/Session_Runs.thy ===== *)
theory Session_Runs
  imports System_Safety
begin

text \<open>
  Concrete runs of a session, evaluated step by step: a server that receives a stream with data, and a
  client with a stream that has credit to write. They instantiate the hypotheses of the general
  theorems.
\<close>

section \<open>Receiving\<close>

text \<open>
  A server with small limits receives a message that opens a unidirectional stream and carries three
  bytes on it; the application accepts the stream.
\<close>

definition demo_limits :: limits where
  "demo_limits = \<lparr>
     max_ws_message_size = 64, max_stream_data_per_frame = 16, max_open_streams = 2,
     recv_event_queue_len = 2, outbound_queue_len = 8, max_batch_frames = 4, max_batch_bytes = 64,
     initial_stream_window = 4, stream_window_update_threshold = 2, accept_uni_queue_len = 2,
     accept_bi_queue_len = 2\<rparr>"

definition demo_message :: bytes where
  "demo_message = [0, 2, 2, 2, 0, 3, 7, 8, 9]"

definition demo_stream :: recv_stream where
  "demo_stream = \<lparr>rv_id = StreamId 2, receiver = 0, rv_finished = False, rv_pending = [], consumed = 0,
     granted = 4, initial_window = 4, update_threshold = 2, stop_sent = False\<rparr>"

definition demo_session :: session where
  "demo_session = (session_inner_new True demo_limits)\<lparr>
     outbound := [FrameCmd (MaxStreamData (StreamId 2) 4)],
     streams := hm_insert (StreamId 2) \<lparr>stopped = False, sender = 0, received = 3\<rparr> [],
     next_peer_uni := 1, next_ref := 1,
     chan_mem := (\<lambda>_. \<lparr>items = [], rx_open = False, chan_max = 0\<rparr>)
       (0 := \<lparr>items = [RecvEvent [7, 8, 9] False], rx_open = True, chan_max = 4\<rparr>)\<rparr>"

definition demo_sys :: sys where
  "demo_sys =
     (sys_start demo_session)\<lparr>application := \<lparr>sends = [], recvs = [demo_stream], calls = []\<rparr>\<rparr>"

lemma demo_decode:
  "frame_decode 64 [0, 2, 2, 2, 0, 3, 7, 8, 9] = Inr (OpenUni (StreamId 2), [2, 2, 0, 3, 7, 8, 9])"
  "frame_decode 64 [2, 2, 0, 3, 7, 8, 9] = Inr (Stream (StreamId 2) [7, 8, 9] False, [])"
proof -
  have "frame_encode (OpenUni (StreamId 2)) = Some [0, 2]"
    "frame_encode (Stream (StreamId 2) [7, 8, 9] False) = Some [2, 2, 0, 3, 7, 8, 9]" by code_simp+
  then show "frame_decode 64 [0, 2, 2, 2, 0, 3, 7, 8, 9] = Inr (OpenUni (StreamId 2), [2, 2, 0, 3, 7, 8, 9])"
    "frame_decode 64 [2, 2, 0, 3, 7, 8, 9] = Inr (Stream (StreamId 2) [7, 8, 9] False, [])"
    using frame_codec.dec_enc [of 64 "OpenUni (StreamId 2)" "[0, 2]" "[2, 2, 0, 3, 7, 8, 9]"]
      frame_codec.dec_enc [of 64 "Stream (StreamId 2) [7, 8, 9] False" "[2, 2, 0, 3, 7, 8, 9]" "[]"]
    by (simp_all add: frame_wf_def in_varint_def)
qed

lemma demo_id:
  "stream_id_dir (StreamId 2) = Uni" "\<not> initiator_is_server (StreamId 2)" "stream_id_counter (StreamId 2) = 0"
  by (simp_all add: stream_id_dir_def initiator_is_server_def stream_id_counter_def)

lemmas open_run = handle_open_uni_def peer_is_server_def validate_peer_stream_id_def
  try_register_inbound_recv_stream_def register_recv_stream_def recv_stream_new_def
  initial_credit_frame_def send_frame_def send_frame_resume_def session_is_closed_def outbound_full_def
  outbound_push_def initial_credit_result_def open_uni_registered_def deliver_uni_def saturating_add_def

definition demo_opened :: session where
  "demo_opened = demo_session\<lparr>accept_uni_queue := [demo_stream],
     streams := hm_insert (StreamId 2) \<lparr>stopped = False, sender = 0, received = 0\<rparr> [],
     chan_mem := (\<lambda>_. \<lparr>items = [], rx_open = False, chan_max = 0\<rparr>)
       (0 := \<lparr>items = [], rx_open = True, chan_max = 4\<rparr>)\<rparr>"

lemma demo_open:
  "handle_open_uni (StreamId 2) (session_inner_new True demo_limits) = (Finished (Inr ()), demo_opened)"
  by (simp add: demo_id open_run session_inner_new_def demo_limits_def demo_stream_def demo_session_def
      demo_opened_def Let_def hmap_simps)

lemma demo_data:
  "handle_stream (StreamId 2) [7, 8, 9] False demo_opened =
     (Inr (), demo_session\<lparr>accept_uni_queue := [demo_stream]\<rparr>)"
  by (simp add: handle_stream_def demo_session_def demo_opened_def session_inner_new_def
      demo_limits_def checked_add_def chan_update_def Let_def hmap_simps hm_insert_def hm_remove_def)

lemma demo_inbound:
  "inbound_item (Some (Inr (WsBinary demo_message))) (session_inner_new True demo_limits) =
     (InLoop, demo_session\<lparr>accept_uni_queue := [demo_stream]\<rparr>)"
proof -
  have "max_ws_message_size (limits_of (session_inner_new True demo_limits)) = 64"
    by (simp add: session_inner_new_def demo_limits_def)
  then show ?thesis
    by (simp add: inbound_message_def demo_message_def demo_decode demo_open demo_data
        inbound_frames.simps [of "[0, 2, 2, 2, 0, 3, 7, 8, 9]"] inbound_frames.simps [of "[2, 2, 0, 3, 7, 8, 9]"]
        inbound_frames.simps [of "[]"])
qed

lemma demo_start: "sys_init True demo_limits (sys_start (session_inner_new True demo_limits))"
proof -
  have "limits_validate 64 demo_limits = Inr ()"
    by (simp add: limits_validate_ok_iff limits_ok_def demo_limits_def usize_saturating_add_def)
  then show ?thesis by (simp add: sys_init_def sys_start_def session_new_def try_bind_def)
qed

lemma demo_reachable: "reachable (sys_init True demo_limits) (sys_step tx) demo_sys"
proof -
  let ?x0 = "sys_start (session_inner_new True demo_limits)"
  let ?s1 = "demo_session\<lparr>accept_uni_queue := [demo_stream]\<rparr>"
  let ?x1 = "sys_start ?s1"
  have "in_step (in_task ?x0) (sess ?x0) InLoop ?s1"
    using in_item [OF demo_inbound] by (simp add: sys_start_def)
  then have "sys_step tx ?x0 (?x0\<lparr>in_task := InLoop, sess := ?s1\<rparr>)" by (rule inbound)
  then have s1: "sys_step tx ?x0 ?x1" by (simp add: sys_start_def)
  have "accept_uni ?s1 = (Ready (Inr demo_stream), demo_session)"
    by (simp add: accept_uni_def) (simp add: demo_session_def session_inner_new_def)
  then have "api_step (application ?x1) (sess ?x1)
      ((application ?x1)\<lparr>recvs := demo_stream # recvs (application ?x1)\<rparr>) demo_session"
    by (intro do_accept_uni) (simp add: sys_start_def)
  from application [OF this] have "sys_step tx ?x1 demo_sys" by (simp add: sys_start_def demo_sys_def)
  then show ?thesis
    using s1 demo_start by (blast intro: reachable.intros)
qed

section \<open>Sending\<close>

text \<open>A client with one open stream whose peer granted five bytes.\<close>

definition demo_send :: send_stream where
  "demo_send = \<lparr>ss_id = StreamId 2, ss_shared = 0, ss_flow = 0, flush_waiter = None, fin_queued = False\<rparr>"

definition demo_client :: session where
  "demo_client = (session_inner_new False demo_limits)\<lparr>
     send_flows := [(StreamId 2, 0)], next_uni := 1, next_ref := 1, flow_mem := (\<lambda>_. flow_new 5)\<rparr>"

lemma demo_client_inv: "session_inv demo_client" "ss_ok demo_send"
proof -
  have "limits_ok 64 demo_limits" by (simp add: limits_ok_def demo_limits_def usize_saturating_add_def)
  then show "session_inv demo_client"
    by (simp add: demo_client_def session_inner_new_def session_inv_def session_inv_parts hm_ok_def hm_get_def
        hm_contains_def flow_ok_def flow_new_def initiator_is_server_def in_varint_def demo_limits_def)
qed (simp add: ss_ok_def demo_send_def in_varint_def)

end
