(* ===== verification/Session_Guarantees.thy ===== *)
theory Session_Guarantees
  imports Session_Runs
begin

text \<open>
  What a session guarantees in every state it can reach, for every behaviour of the peer, of the
  WebSocket sink and of the application.
\<close>

section \<open>Guarantees\<close>



text \<open>
  C3: flow control toward the peer. In every reachable state no flow has sent or reserved more than the
  peer's limit, and the bytes that suspended writes have reserved on a flow are part of its count, so
  giving a reservation back never underflows.
\<close>

theorem reachable_sent_within_credit:
  assumes "reachable (sys_init server l) (sys_step tx) x"
  shows "sent_data (flow_mem (sess x) r) \<le> max_data (flow_mem (sess x) r)
    \<and> reserved r (calls (application x)) \<le> unat (sent_data (flow_mem (sess x) r))"
  using session_system.reachable_inv [OF assms]
  by (auto simp: sys_inv_def session_inv_def flows_inv_def flow_ok_def app_ok_def)

theorem reachable_sent_within_credit_witness:
  "sent_data (flow_mem demo_session 0) \<le> max_data (flow_mem demo_session 0)"
  using reachable_sent_within_credit [OF demo_reachable [of "\<lambda>_ _. Inr ()"], of 0]
  by (simp add: demo_sys_def sys_start_def)

text \<open>
  C2: flow control toward the application. For every receive handle of the application and every handle
  waiting in an accept queue, the bytes received and not yet read fit in the initial window, the limit
  the peer was granted exceeds the consumed bytes by the window at most, and no two handles read from
  the same channel.
\<close>

theorem reachable_unread_within_window:
  assumes "reachable (sys_init server l) (sys_step tx) x"
    and "rv \<in> set (app_recvs (application x) @ queued_recvs (sess x))"
  shows "unread rv (sess x) \<le> initial_stream_window l
    \<and> unat (consumed rv) + unread rv (sess x) \<le> unat (granted rv)
    \<and> unat (granted rv) \<le> unat (consumed rv) + initial_stream_window l
    \<and> distinct (map receiver (app_recvs (application x) @ queued_recvs (sess x)))"
proof -
  have inv: "sys_inv x" by (rule session_system.reachable_inv [OF assms(1)])
  then have link: "recv_link rv (sess x)" and s: "session_inv (sess x)"
    and dist: "distinct (map receiver (app_recvs (application x) @ queued_recvs (sess x)))"
    using assms(2) by (auto simp: sys_inv_def recvs_ok_def)
  have l: "limits_of (sess x) = l" using reachable_config [OF assms(1)] by simp
  then have "unat (initial_window rv) = initial_stream_window l"
    using link session_inv_bounds(2) [OF s] by (simp add: recv_link_def unat_of_nat_u64)
  with link dist show ?thesis by (auto simp: recv_link_def)
qed

theorem reachable_unread_within_window_witness:
  "unread demo_stream demo_session = 3 \<and> unread demo_stream demo_session \<le> initial_stream_window demo_limits"
  using reachable_unread_within_window [OF demo_reachable [of "\<lambda>_ _. Inr ()"], of demo_stream]
  by (simp add: demo_sys_def sys_start_def app_recvs_def)
    (simp add: demo_session_def demo_stream_def unread_def queued_bytes_def)

text \<open>
  C4: the outbound writer never panics. \<open>Frame::encode\<close> panics on a value outside the varint range;
  no reachable session ever queues such a frame, so the writer task does not reach the panic.
\<close>

theorem reachable_writer_no_panic:
  assumes "reachable (sys_init server l) (sys_step tx) x"
  shows "out_task x \<noteq> OutPanic \<and> (\<forall>f. FrameCmd f \<in> set (outbound (sess x)) \<longrightarrow> frame_encode f \<noteq> None)"
  using session_system.reachable_inv [OF assms] frame_codec.enc_total [where w = 64]
  by (auto simp: sys_inv_def session_inv_def queues_inv_def list_all_iff)

theorem reachable_writer_no_panic_witness:
  "out_task demo_sys \<noteq> OutPanic \<and> frame_encode (MaxStreamData (StreamId 2) 4) \<noteq> None
   \<and> outbound demo_session = [FrameCmd (MaxStreamData (StreamId 2) 4)]"
proof -
  have q: "outbound demo_session = [FrameCmd (MaxStreamData (StreamId 2) 4)]"
    by (simp add: demo_session_def)
  show ?thesis
    using reachable_writer_no_panic [OF demo_reachable [of "\<lambda>_ _. Inr ()"]] q
    by (simp add: demo_sys_def sys_start_def)
qed

end
