(* ===== verification/Write_Delivery.thy ===== *)
theory Write_Delivery
  imports Session_Runs
begin

text \<open>
  The sending side of a byte stream: what a write puts on the outbound queue, and what the writer task
  puts on the wire.
\<close>

section \<open>Writes\<close>

text \<open>The data frames of a stream with the given payloads.\<close>

definition data_cmds :: "stream_id \<Rightarrow> bytes list \<Rightarrow> outbound_cmd list" where
  "data_cmds i cs = map (\<lambda>c. FrameCmd (Stream i c False)) cs"

fun wb_rest :: "wb_await \<Rightarrow> bytes" where
  "wb_rest (WbCredit rest) = rest"
| "wb_rest (WbSend rest n) = rest"

text \<open>A suspended send holds the credit of a non-empty piece within the limits.\<close>

fun wb_ok :: "limits \<Rightarrow> wb_await \<Rightarrow> bool" where
  "wb_ok l (WbCredit rest) \<longleftrightarrow> True"
| "wb_ok l (WbSend rest n) \<longleftrightarrow>
     n \<noteq> 0 \<and> n \<le> length rest \<and> n \<le> MAX_WRITE_CHUNK \<and> n \<le> max_stream_data_per_frame l"

text \<open>
  The specification of a write of \<open>d\<close>: the queue grows by frames whose payloads are consecutive pieces
  of \<open>d\<close>, none empty and none above the limits; a write that succeeds has queued all of \<open>d\<close>, one that
  is suspended remembers the rest, one that fails has queued a prefix; and the credit used is exactly
  what is queued or held.
\<close>

definition write_spec ::
  "send_stream \<Rightarrow> bytes \<Rightarrow> session \<Rightarrow> (wb_await, error + unit) async \<times> session \<Rightarrow> bool" where
  "write_spec ss d s r \<longleftrightarrow> (\<exists>cs.
     outbound (snd r) = outbound s @ data_cmds (ss_id ss) cs
     \<and> list_all (\<lambda>c. c \<noteq> [] \<and> length c \<le> MAX_WRITE_CHUNK
          \<and> length c \<le> max_stream_data_per_frame (limits_of s)) cs
     \<and> (case fst r of
          Finished (Inr _) \<Rightarrow> concat cs = d
        | Finished (Inl e) \<Rightarrow> (\<exists>rest. d = concat cs @ rest)
        | Awaiting k \<Rightarrow> d = concat cs @ wb_rest k \<and> wb_ok (limits_of s) k)
     \<and> unat (sent_data (flow_mem (snd r) (ss_flow ss))) =
         unat (sent_data (flow_mem s (ss_flow ss))) + length (concat cs) + wb_held (fst r))"

lemma reserve_flow_frame:
  assumes "reserve_poll wanted ss s = (r, s')"
  shows "outbound s' = outbound s" "limits_of s' = limits_of s"
  using assms by (auto simp: reserve_poll_def flow_update_def Let_def split: prod.splits if_splits)

lemma send_frame_push:
  assumes "send_frame f s = (r, s')"
  shows "outbound s' = (if r = Ready (Inr ()) then outbound s @ [FrameCmd f] else outbound s)"
    "limits_of s' = limits_of s"
  using assms
  by (auto simp: send_frame_def send_frame_resume_def outbound_push_def split: if_splits frame.splits)

lemma send_frame_resume_push:
  assumes "send_frame_resume f s = (r, s')"
  shows "outbound s' = (if r = Ready (Inr ()) then outbound s @ [FrameCmd f] else outbound s)"
    "limits_of s' = limits_of s"
  using assms
  by (auto simp: send_frame_resume_def outbound_push_def split: if_splits frame.splits)

lemma reserve_poll_pos: "reserve_poll wanted ss s = (Ready (Inr n), s') \<Longrightarrow> n \<noteq> 0"
  by (auto simp: reserve_poll_def Let_def split: prod.splits if_splits)

text \<open>One more piece in front.\<close>

lemma write_spec_Cons:
  assumes "write_spec ss rest t r" "c \<noteq> []" "length c \<le> MAX_WRITE_CHUNK"
    and "length c \<le> max_stream_data_per_frame (limits_of s)"
    and "outbound t = outbound s @ [FrameCmd (Stream (ss_id ss) c False)]" "limits_of t = limits_of s"
    and "unat (sent_data (flow_mem t (ss_flow ss))) = unat (sent_data (flow_mem s (ss_flow ss))) + length c"
  shows "write_spec ss (c @ rest) s r"
proof -
  obtain cs where cs: "outbound (snd r) = outbound t @ data_cmds (ss_id ss) cs"
     "list_all (\<lambda>c. c \<noteq> [] \<and> length c \<le> MAX_WRITE_CHUNK
          \<and> length c \<le> max_stream_data_per_frame (limits_of t)) cs"
     "case fst r of
          Finished (Inr _) \<Rightarrow> concat cs = rest
        | Finished (Inl e) \<Rightarrow> (\<exists>rest'. rest = concat cs @ rest')
        | Awaiting k \<Rightarrow> rest = concat cs @ wb_rest k \<and> wb_ok (limits_of t) k"
     "unat (sent_data (flow_mem (snd r) (ss_flow ss))) =
         unat (sent_data (flow_mem t (ss_flow ss))) + length (concat cs) + wb_held (fst r)"
    using assms(1) unfolding write_spec_def by blast
  show ?thesis
    unfolding write_spec_def
    by (rule exI [of _ "c # cs"])
      (use cs assms(2-) in \<open>auto simp: data_cmds_def split: async.splits sum.splits\<close>)
qed

text \<open>Stopping here: nothing more is queued.\<close>

lemma write_spec_stop:
  assumes "outbound (snd r) = outbound s"
    and "case fst r of Finished (Inr _) \<Rightarrow> d = [] | Finished (Inl e) \<Rightarrow> True | Awaiting k \<Rightarrow> wb_rest k = d \<and> wb_ok (limits_of s) k"
    and "unat (sent_data (flow_mem (snd r) (ss_flow ss))) =
      unat (sent_data (flow_mem s (ss_flow ss))) + wb_held (fst r)"
  shows "write_spec ss d s r"
  unfolding write_spec_def
  by (rule exI [of _ "[]"]) (use assms in \<open>auto simp: data_cmds_def split: async.splits sum.splits\<close>)

lemma write_loop_spec:
  "session_inv s \<Longrightarrow> ss_ok ss \<Longrightarrow> write_spec ss rest s (write_loop ss rest s)"
proof (induction ss rest s rule: write_loop.induct)
  case (1 ss rest s)
  let ?w = "write_wanted rest s" and ?r = "ss_flow ss"
  show ?case
  proof (cases "rest = [] \<or> ?w = 0")
    case True
    then show ?thesis by (intro write_spec_stop) (auto simp: write_loop.simps [of ss rest])
  next
    case False
    obtain q s1 where rp: "reserve_poll ?w ss s = (q, s1)" by fastforce
    note res = reserve_poll_ok [OF "1.prems"(1) write_wanted_less rp]
    note fr = reserve_flow_frame [OF rp]
    show ?thesis
    proof (cases "\<exists>n. q = Ready (Inr n)")
      case no: False
      then show ?thesis
        using False rp res(3) fr
        by (intro write_spec_stop) (auto simp: write_loop.simps [of ss rest] split: poll.splits sum.splits)
    next
      case True
      then obtain n where q: "q = Ready (Inr n)" by auto
      then have n: "unat (sent_data (flow_mem s1 ?r)) = unat (sent_data (flow_mem s ?r)) + n" "n \<le> ?w"
          "n \<noteq> 0"
        using res rp reserve_poll_pos by auto
      let ?c = "take n rest"
      have len: "length ?c = n" using n(2) by (simp add: write_wanted_def)
      let ?f = "Stream (ss_id ss) ?c False"
      have wf: "frame_wf 64 ?f"
        using n(2) "1.prems"(2)
        by (intro stream_frame_wf) (auto simp: ss_ok_def write_wanted_def MAX_WRITE_CHUNK_def)
      obtain p s2 where snd: "send_frame ?f s1 = (p, s2)" by fastforce
      have inv2: "session_inv s2" by (rule session_inv_send_frame [OF res(1) wf snd])
      have ev2: "evolves {} s s2" by (rule evolves_then [OF res(2) evolves_send_frame [OF snd]])
      have sent2: "unat (sent_data (flow_mem s2 ?r)) = unat (sent_data (flow_mem s ?r)) + n"
        using n(1) send_frame_flows(1) [OF snd] by simp
      note undo = undo_reservation [OF "1.prems"(1) inv2 ev2 sent2]
      note push = send_frame_push [OF snd]
      show ?thesis
      proof (cases "\<exists>u. p = Ready (Inr u)")
        case True
        then obtain u where u: "p = Ready (Inr u)" by auto
        then have eq: "write_loop ss rest s = write_loop ss (drop n rest) s2"
          using False rp q snd by (auto simp: write_loop.simps [of ss rest])
        have "write_spec ss (drop n rest) s2 (write_loop ss (drop n rest) s2)"
          using "1.IH" [OF _ _ rp [symmetric] q refl snd [symmetric] u refl inv2 "1.prems"(2)] False by simp
        then have "write_spec ss (?c @ drop n rest) s (write_loop ss (drop n rest) s2)"
          by (rule write_spec_Cons) (use n len u push fr sent2 in \<open>auto simp: write_wanted_def\<close>)
        then show ?thesis unfolding eq by simp
      next
        case no: False
        then show ?thesis
          using False rp q snd push fr sent2 undo(3) n(2,3)
          by (intro write_spec_stop)
            (auto simp: write_loop.simps [of ss rest] flow_update_def write_wanted_def split: poll.splits sum.splits)
      qed
    qed
  qed
qed

lemma write_spec_frame:
  assumes "write_spec ss d t r" "outbound t = outbound s" "limits_of t = limits_of s" "flow_mem t = flow_mem s"
  shows "write_spec ss d s r"
  using assms(1) unfolding write_spec_def assms(2-) .

lemma write_spec_end: "write_spec ss d s r \<Longrightarrow> write_spec ss d s (end_guarded ss r)"
  by (cases r; cases "fst r")
    (auto simp: write_spec_def end_guarded_def end_operation_def shared_update_def)

lemma begin_operation_frame:
  assumes "begin_operation mode ss s = (r, s')"
  shows "outbound s' = outbound s" "limits_of s' = limits_of s" "flow_mem s' = flow_mem s"
proof -
  obtain q s1 where sel: "select_api mode ss s = (q, s1)" by fastforce
  then have "outbound s1 = outbound s" "limits_of s1 = limits_of s" "flow_mem s1 = flow_mem s"
    by (auto simp: select_api_def shared_update_def Let_def split: if_splits)
  then show "outbound s' = outbound s" "limits_of s' = limits_of s" "flow_mem s' = flow_mem s"
    using assms sel by (auto simp: begin_operation_def shared_update_def split: sum.splits if_splits)
qed

lemma demo_write:
  "write_buf demo_send [1, 2, 3] demo_client =
     (Finished (Inr ()), demo_client\<lparr>outbound := [FrameCmd (Stream (StreamId 2) [1, 2, 3] False)],
        shared_mem := (shared_mem demo_client)
          (0 := \<lparr>ss_finished = False, operation = False, api_mode = 1, handles = 0\<rparr>),
        flow_mem := (flow_mem demo_client)(0 := (flow_new 5)\<lparr>waker := True, sent_data := 3\<rparr>)\<rparr>)"
  by (simp add: write_buf_def guarded_def begin_operation_def select_api_def shared_update_def demo_client_def
      demo_send_def session_inner_new_def session_is_closed_def write_loop.simps write_wanted_def
      reserve_poll_def MAX_WRITE_CHUNK_def demo_limits_def try_reserve_def flow_update_def waker_register_def
      flow_new_def send_frame_def send_frame_resume_def outbound_full_def outbound_push_def hm_contains_def
      hm_get_def end_guarded_def end_operation_def Let_def)

lemma write_buf_spec:
  assumes "session_inv s" "ss_ok ss"
  shows "write_spec ss d s (write_buf ss d s)"
proof -
  obtain q s1 where b: "begin_operation 1 ss s = (q, s1)" by fastforce
  note fr = begin_operation_frame [OF b]
  show ?thesis
  proof (cases "\<exists>e. q = Inl e")
    case True
    then show ?thesis using b fr by (intro write_spec_stop) (auto simp: write_buf_def guarded_def)
  next
    case False
    then have eq: "write_buf ss d s = end_guarded ss
        (if ss_finished (shared_mem s1 (ss_shared ss)) \<or> session_is_closed s1
         then (Finished (Inl Closed), s1) else write_loop ss d s1)"
      using b by (cases q) (auto simp: write_buf_def guarded_def)
    have "session_inv s1" using begin_operation_ok(1) [OF b] assms(1) by simp
    then have "write_spec ss d s (write_loop ss d s1)"
      by (intro write_spec_frame [OF write_loop_spec]) (use assms fr in auto)
    then show ?thesis
      unfolding eq using fr by (intro write_spec_end) (auto intro!: write_spec_stop)
  qed
qed

text \<open>
  C7: a \<open>write\<close> of \<open>d\<close> queues data frames of its stream whose payloads are consecutive non-empty pieces
  of \<open>d\<close>, each within \<open>MAX_WRITE_CHUNK\<close> and the frame limit. A write that returns successfully has
  queued exactly \<open>d\<close>, a suspended one the part before the rest it remembers, a failed one a prefix; and
  the flow-control counter has grown by exactly the bytes queued plus the bytes still held.
\<close>

theorem write_buf_exact:
  assumes "session_inv s" "ss_ok ss"
  shows "write_spec ss d s (write_buf ss d s)"
  by (rule write_buf_spec [OF assms])

theorem write_buf_exact_witness:
  "write_spec demo_send [1, 2, 3] demo_client (write_buf demo_send [1, 2, 3] demo_client)
   \<and> outbound (snd (write_buf demo_send [1, 2, 3] demo_client)) = [FrameCmd (Stream (StreamId 2) [1, 2, 3] False)]"
proof -
  have "outbound (snd (write_buf demo_send [1, 2, 3] demo_client)) = [FrameCmd (Stream (StreamId 2) [1, 2, 3] False)]"
    by (simp add: demo_write)
  then show ?thesis using write_buf_exact [OF demo_client_inv, of "[1, 2, 3]"] by simp
qed

text \<open>
  Polling a suspended write again continues it: with respect to the state in which its reservation
  is given back, it queues consecutive pieces of the rest and accounts for them exactly, so no byte is
  queued twice or lost across suspensions.
\<close>

lemma write_resume_exact:
  assumes "session_inv s" "ss_ok ss" "wb_ok (limits_of s) k"
    and "wb_await_held k \<le> unat (sent_data (flow_mem s (ss_flow ss)))"
  shows "write_spec ss (wb_rest k) (flow_update (ss_flow ss) (release (wb_await_held k)) s)
           (write_buf_resume ss k s)"
proof (cases k)
  case (WbCredit rest)
  have "flow_update (ss_flow ss) (release 0) s = s" by (cases s) (simp add: flow_update_def release_def)
  then show ?thesis using WbCredit write_spec_end [OF write_loop_spec [OF assms(1,2)]] by simp
next
  case (WbSend rest n)
  let ?r = "ss_flow ss" and ?c = "take n rest"
  let ?f = "Stream (ss_id ss) ?c False" and ?s0 = "flow_update ?r (release n) s"
  have n: "n \<noteq> 0" "n \<le> length rest" "n \<le> MAX_WRITE_CHUNK" "n \<le> max_stream_data_per_frame (limits_of s)"
    "n \<le> unat (sent_data (flow_mem s ?r))" using assms WbSend by simp_all
  have s0: "outbound ?s0 = outbound s" "limits_of ?s0 = limits_of s" by (simp_all add: flow_update_def)
  note r0 = evolves_reserved [OF assms(1) n(5)]
  obtain p s1 where snd: "send_frame_resume ?f s = (p, s1)" by fastforce
  note push = send_frame_resume_push [OF snd]
  have wf: "frame_wf 64 ?f"
    using n(3) assms(2) by (intro stream_frame_wf) (auto simp: ss_ok_def MAX_WRITE_CHUNK_def)
  have inv1: "session_inv s1" by (rule session_inv_send_frame_resume [OF assms(1) wf snd])
  have sent1: "unat (sent_data (flow_mem s1 ?r)) = unat (sent_data (flow_mem ?s0 ?r)) + n"
    using r0(2) n(5) send_frame_resume_flows(1) [OF snd] by simp
  have "p = Ready (Inr ()) \<Longrightarrow> write_spec ss (?c @ drop n rest) ?s0 (write_loop ss (drop n rest) s1)"
    by (rule write_spec_Cons [OF write_loop_spec [OF inv1 assms(2)]])
      (use n push s0 sent1 in \<open>auto simp: min_def\<close>)
  moreover have "unat (sent_data (release n (flow_mem s1 ?r))) = unat (sent_data (flow_mem ?s0 ?r))"
    using r0(2) send_frame_resume_flows(1) [OF snd] by (simp add: flow_update_def)
  ultimately have "write_spec ss rest ?s0 (case p of Pending \<Rightarrow> (Awaiting (WbSend rest n), s1)
       | Ready (Inl e) \<Rightarrow> (Finished (Inl e), flow_update ?r (release n) s1)
       | Ready (Inr _) \<Rightarrow> write_loop ss (drop n rest) s1)"
    using n push s0 sent1
    by (auto intro!: write_spec_stop simp: flow_update_def split: poll.splits sum.splits)
  from write_spec_end [OF this] show ?thesis using WbSend snd by simp
qed

end
