(* ===== verification/Frame_Loop.thy ===== *)
theory Frame_Loop
  imports Frames
begin

text \<open>
  The interface between a loop that takes a binary message apart and the handler of its frames. The
  native and the browser session have such a loop each; both satisfy the laws, and so both handle
  exactly the frames that were encoded.
\<close>

text \<open>
  Handling frames one after the other: a step either goes on, or ends the loop with a result that may
  keep the undecoded rest of the message.
\<close>

fun run_frames :: "(frame \<Rightarrow> 's \<Rightarrow> (bytes \<Rightarrow> 'r) option \<times> 's) \<Rightarrow> 'r \<Rightarrow> frame list \<Rightarrow> 's \<Rightarrow> 'r \<times> 's" where
  "run_frames step done [] s = (done, s)"
| "run_frames step done (f # fs) s = (case step f s of
     (None, s1) \<Rightarrow> run_frames step done fs s1
   | (Some h, s1) \<Rightarrow> (h (the (encode_batch fs)), s1))"

locale frame_loop =
  fixes width :: nat
    and step :: "frame \<Rightarrow> 's \<Rightarrow> (bytes \<Rightarrow> 'r) option \<times> 's"
    and loop :: "bytes \<Rightarrow> 's \<Rightarrow> 'r \<times> 's"
    and complete :: 'r
  assumes loop_end: "loop [] s = (complete, s)"
    and loop_on: "c \<noteq> [] \<Longrightarrow> frame_decode width c = Inr (f, r) \<Longrightarrow> step f s = (None, s1) \<Longrightarrow> loop c s = loop r s1"
    and loop_out: "c \<noteq> [] \<Longrightarrow> frame_decode width c = Inr (f, r) \<Longrightarrow> step f s = (Some h, s1) \<Longrightarrow> loop c s = (h r, s1)"
begin

lemma loop_batch:
  "list_all (frame_wf width) fs \<Longrightarrow> encode_batch fs = Some b \<Longrightarrow> loop b s = run_frames step complete fs s"
proof (induction fs arbitrary: b s)
  case Nil
  then show ?case by (simp add: loop_end)
next
  case (Cons f fs)
  then obtain e b1 where b: "frame_encode f = Some e" "encode_batch fs = Some b1" "b = e @ b1"
    by (auto split: bind_splits)
  have d: "frame_decode width (e @ b1) = Inr (f, b1)" "e @ b1 \<noteq> []"
    using frame_codec.dec_enc [of width f e b1] frame_codec.enc_nonempty [of width f e] b(1) Cons.prems(1) by auto
  obtain h s1 where "step f s = (h, s1)" by fastforce
  then show ?case
    using loop_on [OF d(2,1)] loop_out [OF d(2,1)] Cons b by (cases h) auto
qed

end

end
