(* ===== verification/Wire.thy ===== *)
theory Wire
  imports Session_Runs Frame_Loop
begin

text \<open>
  The wire: the writer task groups queued frames into binary messages, and the inbound task takes
  messages apart again. The byte-level writer refines a grouping of frames, the byte-level inbound
  loop refines a sequence of frame handlers, and together they hand the peer's handler exactly the
  queued frames in order.
\<close>

section \<open>Batches of frames\<close>

definition enc_all :: "frame list \<Rightarrow> bytes" where
  "enc_all fs = concat (map (the \<circ> frame_encode) fs)"

lemma enc_all_simps [simp]:
  "enc_all [] = []" "enc_all (f # fs) = the (frame_encode f) @ enc_all fs" "enc_all (fs @ gs) = enc_all fs @ enc_all gs"
  by (simp_all add: enc_all_def)

lemma enc_all_batch: "list_all (frame_wf w) fs \<Longrightarrow> encode_batch fs = Some (enc_all fs)"
proof (induction fs)
  case (Cons f fs)
  then obtain b where "frame_encode f = Some b" using frame_codec.enc_total [of w f] by auto
  then show ?case using Cons by simp
qed simp

lemma enc_all_Nil_iff: "list_all (frame_wf w) fs \<Longrightarrow> enc_all fs = [] \<longleftrightarrow> fs = []"
proof (cases fs)
  case (Cons f gs)
  assume "list_all (frame_wf w) fs"
  then show ?thesis
    using Cons frame_codec.enc_total [of w f] frame_codec.enc_nonempty [of w f] by auto
qed simp

definition batch_msg :: "frame list \<Rightarrow> sink_op" where
  "batch_msg g = SinkSend (WsBinary (enc_all g))"

text \<open>
  The grouping that the writer implements: a frame that does not fit starts a new group, and a group
  that is full, or that nothing else waits for, is sent.
\<close>

definition batch_step :: "limits \<Rightarrow> bool \<Rightarrow> frame \<Rightarrow> frame list \<Rightarrow> frame list list \<times> frame list" where
  "batch_step l idle f g =
     (let (out, g1) = (if g \<noteq> [] \<and> max_bytes l < length (enc_all g) + length (enc_all [f])
                       then ([g], [f]) else ([], g @ [f]))
      in if max_batch_frames l \<le> length g1 \<or> max_bytes l \<le> length (enc_all g1) \<or> idle
         then (out @ [g1], []) else (out, g1))"

definition batch_rel :: "writer \<Rightarrow> frame list \<Rightarrow> bool" where
  "batch_rel w g \<longleftrightarrow> batch w = enc_all g \<and> batch_frames w = length g \<and> list_all (frame_wf 64) g"

definition sink_works :: "ws_sink \<Rightarrow> bool" where
  "sink_works tx \<longleftrightarrow> (\<forall>h a. tx h a = Inr ())"

lemma flush_reset_works:
  assumes "sink_works tx" "batch_rel w g"
  shows "flush_reset tx w = (Inr (), w\<lparr>batch := [], batch_frames := 0,
           sunk := sunk w @ (if g = [] then [] else [batch_msg g])\<rparr>)"
  using assms enc_all_Nil_iff [of 64 g]
  by (cases w) (auto simp: flush_reset_def flush_batch_def sink_do_def sink_works_def batch_rel_def batch_msg_def)

lemma write_frame_batch:
  assumes "sink_works tx" "batch_rel w g" "frame_wf 64 f" "batch_step l idle f g = (out, g')"
  shows "\<exists>w'. write_frame tx l idle f w = Some (True, w') \<and> batch_rel w' g'
           \<and> sunk w' = sunk w @ map batch_msg out \<and> close_sent w' = close_sent w"
proof -
  obtain e where e: "frame_encode f = Some e" using frame_codec.enc_total [OF assms(3)] by blast
  have g: "batch w = enc_all g" "batch_frames w = length g" "list_all (frame_wf 64) g"
    using assms(2) by (simp_all add: batch_rel_def)
  note ne = enc_all_Nil_iff [OF g(3)]
  define full where "full \<longleftrightarrow> g \<noteq> [] \<and> max_bytes l < length (enc_all g) + length e"
  define w1 where "w1 = (if full then w\<lparr>batch := [], batch_frames := 0, sunk := sunk w @ [batch_msg g]\<rparr> else w)"
  define g1 where "g1 = (if full then [f] else g @ [f])"
  define w2 where "w2 = w1\<lparr>batch := batch w1 @ e, batch_frames := Suc (batch_frames w1)\<rparr>"
  have first: "(if batch w \<noteq> [] \<and> max_bytes l < length (batch w) + length e then flush_reset tx w else (Inr (), w))
      = (Inr (), w1)"
    using flush_reset_works [OF assms(1,2)] g ne by (auto simp: w1_def full_def)
  have rel2: "batch_rel w2 g1"
    using g e assms(3) by (auto simp: batch_rel_def w2_def w1_def g1_def)
  have g1: "g1 \<noteq> []" "batch_frames w2 = length g1" "batch w2 = enc_all g1"
    using rel2 by (auto simp: g1_def batch_rel_def)
  have step: "batch_step l idle f g = (let out = (if full then [g] else []) in
      if max_batch_frames l \<le> length g1 \<or> max_bytes l \<le> length (enc_all g1) \<or> idle
      then (out @ [g1], []) else (out, g1))"
    using e by (auto simp: batch_step_def full_def g1_def Let_def)
  have sunk2: "sunk w2 = sunk w @ (if full then [batch_msg g] else [])" "close_sent w2 = close_sent w"
    by (simp_all add: w2_def w1_def)
  have "write_frame tx l idle f w = Some
      (if max_batch_frames l \<le> batch_frames w2 \<or> max_bytes l \<le> length (batch w2) \<or> idle
       then (case flush_reset tx w2 of (Inl _, w3) \<Rightarrow> (False, w3) | (Inr _, w3) \<Rightarrow> (True, w3)) else (True, w2))"
    unfolding write_frame_def e
    by (simp only: first bind.simps Let_def prod.case sum.case w2_def)
  then show ?thesis
    using flush_reset_works [OF assms(1) rel2] g1 step assms(4) sunk2 rel2
    by (auto simp: Let_def batch_rel_def split: if_splits)
qed


section \<open>Draining the queue\<close>

text \<open>Turns of the writer loop on the queue while it goes on.\<close>

fun writer_run :: "ws_sink \<Rightarrow> nat \<Rightarrow> writer \<Rightarrow> session \<Rightarrow> outbound_task \<times> writer \<times> session" where
  "writer_run tx 0 w s = (OutLoop, w, s)"
| "writer_run tx (Suc n) w s = (case outbound_recv tx w s of
     Some (OutLoop, w1, s1) \<Rightarrow> writer_run tx n w1 s1
   | Some r \<Rightarrow> r
   | None \<Rightarrow> (OutLoop, w, s))"

text \<open>A group that may be sent: whole frames, within the frame limit, and above the byte limit only alone.\<close>

definition group_ok :: "limits \<Rightarrow> frame list \<Rightarrow> bool" where
  "group_ok l g \<longleftrightarrow> g \<noteq> [] \<and> length g \<le> max_batch_frames l
     \<and> (length g = 1 \<or> length (enc_all g) \<le> max_bytes l)"

definition group_open :: "limits \<Rightarrow> frame list \<Rightarrow> bool" where
  "group_open l g \<longleftrightarrow> length g < max_batch_frames l \<and> (g \<noteq> [] \<longrightarrow> length (enc_all g) < max_bytes l)"

lemma batch_step_ok:
  assumes "group_open l g" "batch_step l idle f g = (out, g')" "0 < max_batch_frames l"
  shows "list_all (group_ok l) out" "group_open l g'" "concat out @ g' = g @ [f]" "idle \<Longrightarrow> g' = []"
  using assms
  by (auto simp: batch_step_def group_ok_def group_open_def Let_def not_le split: if_splits)

lemma outbound_recv_frame:
  assumes "sink_works tx" "batch_rel w g" "\<not> close_sent w" "outbound s = FrameCmd f # q" "frame_wf 64 f"
    and "batch_step (limits_of s) (q = []) f g = (out, g')"
  shows "\<exists>w'. outbound_recv tx w s = Some (OutLoop, w', s\<lparr>outbound := q\<rparr>) \<and> batch_rel w' g'
           \<and> sunk w' = sunk w @ map batch_msg out \<and> \<not> close_sent w'"
  using write_frame_batch [OF assms(1,2,5,6)] assms(3,4) by (auto simp: outbound_recv_def write_cmd_def)

lemma writer_run_frames:
  assumes "sink_works tx" "batch_rel w g" "\<not> close_sent w" "outbound s = map FrameCmd fs"
    and "list_all (frame_wf 64) fs" "group_open (limits_of s) g" "0 < max_batch_frames (limits_of s)"
  shows "\<exists>w' gs g'. writer_run tx (length fs) w s = (OutLoop, w', s\<lparr>outbound := []\<rparr>)
     \<and> sunk w' = sunk w @ map batch_msg gs \<and> list_all (group_ok (limits_of s)) gs
     \<and> concat gs @ g' = g @ fs \<and> batch_rel w' g' \<and> (fs \<noteq> [] \<longrightarrow> g' = [])"
  using assms(2-7)
proof (induction fs arbitrary: w g s)
  case Nil
  then have "s\<lparr>outbound := []\<rparr> = s" by (cases s) simp
  with Nil have "writer_run tx (length []) w s = (OutLoop, w, s\<lparr>outbound := []\<rparr>)
     \<and> sunk w = sunk w @ map batch_msg [] \<and> list_all (group_ok (limits_of s)) []
     \<and> concat [] @ g = g @ [] \<and> batch_rel w g \<and> ([] \<noteq> [] \<longrightarrow> g = [])" by simp
  then show ?case by blast
next
  case (Cons f fs)
  let ?l = "limits_of s" and ?s1 = "s\<lparr>outbound := map FrameCmd fs\<rparr>"
  obtain out g1 where st: "batch_step ?l (map FrameCmd fs = []) f g = (out, g1)" by fastforce
  note bs = batch_step_ok [OF Cons.prems(5) st Cons.prems(6)]
  obtain w1 where w1: "outbound_recv tx w s = Some (OutLoop, w1, ?s1)" "batch_rel w1 g1"
      "sunk w1 = sunk w @ map batch_msg out" "\<not> close_sent w1"
    using outbound_recv_frame [OF assms(1) Cons.prems(1,2) _ _ st] Cons.prems by auto
  obtain w' gs g' where r: "writer_run tx (length fs) w1 ?s1 = (OutLoop, w', ?s1\<lparr>outbound := []\<rparr>)"
      "sunk w' = sunk w1 @ map batch_msg gs" "list_all (group_ok ?l) gs" "concat gs @ g' = g1 @ fs"
      "batch_rel w' g'" "fs \<noteq> [] \<longrightarrow> g' = []"
    using Cons.IH [of w1 g1 ?s1] w1 Cons.prems bs(2) by auto
  have "g' = []" using r(4,6) bs(4) by (cases "fs = []") auto
  moreover have "concat (out @ gs) @ g' = g @ f # fs" using r(4) bs(3) by (metis append.assoc append_Cons append_Nil concat_append)
  ultimately show ?case
    using r w1 bs(1) by (intro exI [of _ w'] exI [of _ "out @ gs"] exI [of _ g']) auto
qed

text \<open>
  The writer's treatment of a frame refines the grouping of frames: with a working sink, a batch
  buffer that holds the encoding of the group \<open>g\<close> becomes one that holds the next group, and the
  messages sent are exactly the encodings of the groups that were completed.
\<close>

lemma write_frame_refines:
  assumes "sink_works tx" "batch_rel w g" "frame_wf 64 f" "batch_step l idle f g = (out, g')"
  shows "\<exists>w'. write_frame tx l idle f w = Some (True, w') \<and> batch_rel w' g'
           \<and> sunk w' = sunk w @ map batch_msg out \<and> close_sent w' = close_sent w"
  by (rule write_frame_batch [OF assms])

lemma write_frame_refines_witness:
  "\<exists>w'. write_frame (\<lambda>_ _. Inr ()) demo_limits True (OpenUni (StreamId 2)) writer_new = Some (True, w')
     \<and> sunk w' = [SinkSend (WsBinary [0, 2])]"
proof -
  have "batch_rel writer_new []" by (simp add: batch_rel_def writer_new_def)
  moreover have enc: "enc_all [OpenUni (StreamId 2)] = [0, 2]" by code_simp
  moreover have "batch_step demo_limits True (OpenUni (StreamId 2)) [] = ([[OpenUni (StreamId 2)]], [])"
    by (simp add: batch_step_def)
  ultimately show ?thesis
    using write_frame_refines [of "\<lambda>_ _. Inr ()" writer_new "[]" "OpenUni (StreamId 2)" demo_limits True]
    by (simp add: sink_works_def frame_wf_def in_varint_def writer_new_def batch_msg_def del: enc_all_simps) blast
qed

text \<open>
  C10: with a working sink the writer drains its queue: after one turn per queued frame the queue and the
  batch are empty, and what was sent is a sequence of binary messages whose groups of whole frames are
  the queued frames in order, each within the frame limit and above the byte limit only when it holds a
  single frame. Nothing is left waiting in the batch.
\<close>

theorem writer_drains_queue:
  assumes "sink_works tx" "batch_rel w []" "\<not> close_sent w" "outbound s = map FrameCmd fs"
    and "session_inv s"
  shows "\<exists>w' gs. writer_run tx (length fs) w s = (OutLoop, w', s\<lparr>outbound := []\<rparr>)
     \<and> batch w' = [] \<and> sunk w' = sunk w @ map batch_msg gs \<and> concat gs = fs
     \<and> list_all (group_ok (limits_of s)) gs"
proof -
  have "list_all (frame_wf 64) fs"
    using assms(4,5) by (auto simp: session_inv_def queues_inv_def list_all_iff)
  moreover have "0 < max_batch_frames (limits_of s)" using assms(5) by (simp add: session_inv_def limits_ok_def)
  moreover from this have "group_open (limits_of s) []" by (simp add: group_open_def)
  ultimately obtain w' gs g' where "writer_run tx (length fs) w s = (OutLoop, w', s\<lparr>outbound := []\<rparr>)"
      "sunk w' = sunk w @ map batch_msg gs" "list_all (group_ok (limits_of s)) gs" "concat gs @ g' = fs"
      "batch_rel w' g'" "fs \<noteq> [] \<longrightarrow> g' = []"
    using writer_run_frames [OF assms(1-4), of] by auto
  moreover from this have "g' = []" by (cases "fs = []") auto
  ultimately show ?thesis by (auto simp: batch_rel_def)
qed

theorem writer_drains_queue_witness:
  "\<exists>w' gs. writer_run (\<lambda>_ _. Inr ()) 1 writer_new demo_session = (OutLoop, w', demo_session\<lparr>outbound := []\<rparr>)
     \<and> sunk w' = map batch_msg gs \<and> concat gs = [MaxStreamData (StreamId 2) 4]"
proof -
  have "session_inv demo_session"
    using session_system.reachable_inv [OF demo_reachable] by (simp add: sys_inv_def demo_sys_def sys_start_def)
  then show ?thesis
    using writer_drains_queue [of "\<lambda>_ _. Inr ()" writer_new demo_session "[MaxStreamData (StreamId 2) 4]"]
    by (auto simp: sink_works_def batch_rel_def writer_new_def demo_session_def)
qed


section \<open>Taking messages apart\<close>

definition native_step :: "frame \<Rightarrow> session \<Rightarrow> (bytes \<Rightarrow> inbound_task) option \<times> session" where
  "native_step f s = (case handle_frame f s of
     (Awaiting k, s1) \<Rightarrow> (Some (InFrames k), s1)
   | (Finished (Inl _), s1) \<Rightarrow> (Some (\<lambda>_. InBreak), s1)
   | (Finished (Inr _), s1) \<Rightarrow> (None, s1))"

interpretation native_loop: frame_loop 64 native_step inbound_frames InLoop
proof
  fix c f r s s1 h
  show "inbound_frames [] s = (InLoop, s)" by (simp add: inbound_frames.simps)
  assume c: "c \<noteq> []" "frame_decode 64 c = Inr (f, r)"
  show "native_step f s = (None, s1) \<Longrightarrow> inbound_frames c s = inbound_frames r s1"
    using c by (subst inbound_frames.simps) (auto simp: native_step_def split: async.splits sum.splits prod.splits)
  show "native_step f s = (Some h, s1) \<Longrightarrow> inbound_frames c s = (h r, s1)"
    using c by (subst inbound_frames.simps) (auto simp: native_step_def split: async.splits sum.splits prod.splits)
qed

text \<open>The frame-level view of the inbound task: handle frames in turn until one fails or suspends.\<close>

fun handle_all :: "frame list \<Rightarrow> session \<Rightarrow> inbound_task \<times> session" where
  "handle_all [] s = (InLoop, s)"
| "handle_all (f # fs) s = (case handle_frame f s of
     (Awaiting k, s1) \<Rightarrow> (InFrames k (enc_all fs), s1)
   | (Finished (Inl _), s1) \<Rightarrow> (InBreak, s1)
   | (Finished (Inr _), s1) \<Rightarrow> handle_all fs s1)"

lemma run_frames_handle_all:
  "list_all (frame_wf 64) fs \<Longrightarrow> run_frames native_step InLoop fs s = handle_all fs s"
proof (induction fs arbitrary: s)
  case (Cons f fs)
  then have "the (encode_batch fs) = enc_all fs" using enc_all_batch [of 64 fs] by simp
  then show ?case using Cons by (auto simp: native_step_def split: async.splits sum.splits prod.splits)
qed simp

lemma inbound_frames_handle_all:
  assumes "list_all (frame_wf 64) fs"
  shows "inbound_frames (enc_all fs) s = handle_all fs s"
  using native_loop.loop_batch [OF assms enc_all_batch [OF assms]] run_frames_handle_all [OF assms] by simp

text \<open>Messages arriving one after the other while the loop goes on.\<close>

fun receive_all :: "ws_message list \<Rightarrow> session \<Rightarrow> inbound_task \<times> session" where
  "receive_all [] s = (InLoop, s)"
| "receive_all (m # ms) s = (case inbound_item (Some (Inr m)) s of
     (InLoop, s1) \<Rightarrow> receive_all ms s1 | r \<Rightarrow> r)"

lemma handle_all_append:
  "handle_all fs s = (InLoop, s1) \<Longrightarrow> handle_all (fs @ gs) s = handle_all gs s1"
  by (induction fs arbitrary: s) (auto split: async.splits sum.splits prod.splits)

lemma handle_all_append_stop:
  "fst (handle_all fs s) = InBreak \<Longrightarrow> handle_all (fs @ gs) s = handle_all fs s"
  by (induction fs arbitrary: s) (auto split: async.splits sum.splits prod.splits)

lemma handle_all_task: "fst (handle_all fs s) = InLoop \<or> fst (handle_all fs s) = InBreak
    \<or> (\<exists>k r. fst (handle_all fs s) = InFrames k r)"
  by (induction fs arbitrary: s) (auto split: async.splits sum.splits prod.splits)

lemma grows_handle_all:
  "session_inv s \<Longrightarrow> list_all (frame_wf 64) fs \<Longrightarrow> limits_of (snd (handle_all fs s)) = limits_of s"
proof -
  assume a: "session_inv s" "list_all (frame_wf 64) fs"
  obtain t s' where r: "inbound_frames (enc_all fs) s = (t, s')" by fastforce
  have "grows s s'" using transits_inbound_frames [OF a(1) r, of "[]"] by (simp add: transits_def)
  then show ?thesis using r inbound_frames_handle_all [OF a(2)] by (metis grows_def snd_conv)
qed

lemma receive_groups:
  assumes "session_inv s" "list_all (list_all (frame_wf 64)) gs"
    and "list_all (\<lambda>g. length (enc_all g) \<le> max_ws_message_size (limits_of s)) gs"
    and "\<And>k r. fst (handle_all (concat gs) s) \<noteq> InFrames k r"
  shows "receive_all (map (\<lambda>g. WsBinary (enc_all g)) gs) s = handle_all (concat gs) s"
  using assms
proof (induction gs arbitrary: s)
  case (Cons g gs)
  obtain t s1 where g: "handle_all g s = (t, s1)" by fastforce
  have "inbound_frames (enc_all g) s = (t, s1)" using inbound_frames_handle_all [of g s] Cons.prems(2) g by simp
  then have item: "inbound_item (Some (Inr (WsBinary (enc_all g)))) s = (t, s1)" and inv: "session_inv s1"
    using Cons.prems(1,3) inbound_frames_ok by (auto simp: inbound_message_def)
  have lim: "limits_of s1 = limits_of s" using grows_handle_all [OF Cons.prems(1), of g] Cons.prems(2) g by simp
  have "t \<noteq> InFrames k r" for k r
  proof
    assume t: "t = InFrames k r"
    have "fst (handle_all (g @ concat gs) s) = InFrames k (r @ enc_all (concat gs))"
      using g t by (induction g arbitrary: s) (auto split: async.splits sum.splits prod.splits)
    then show False using Cons.prems(4) [of k "r @ enc_all (concat gs)"] by simp
  qed
  then consider "t = InLoop" | "t = InBreak" using handle_all_task [of g s] g by auto
  then show ?case
  proof cases
    case 1
    then have cat: "handle_all (concat (g # gs)) s = handle_all (concat gs) s1"
      using handle_all_append [of g s s1] g by simp
    have "receive_all (map (\<lambda>g. WsBinary (enc_all g)) gs) s1 = handle_all (concat gs) s1"
      by (rule Cons.IH [OF inv]) (use Cons.prems lim cat in auto)
    then show ?thesis using item 1 cat by simp
  next
    case 2
    then show ?thesis using item handle_all_append_stop [of g s "concat gs"] g by simp
  qed
qed simp

text \<open>
  The inbound loop over the bytes of a message refines the handling of frames: a binary message
  within the size limit that encodes the frames \<open>fs\<close> has exactly the effect of handling \<open>fs\<close> one after
  the other, up to the first frame that fails or suspends.
\<close>

lemma inbound_refines_frames:
  assumes "list_all (frame_wf 64) fs" "length (enc_all fs) \<le> max_ws_message_size (limits_of s)"
  shows "inbound_item (Some (Inr (WsBinary (enc_all fs)))) s = handle_all fs s"
  using inbound_frames_handle_all [OF assms(1)] assms(2) by (simp add: inbound_message_def)

lemma inbound_refines_frames_witness:
  "inbound_item (Some (Inr (WsBinary (enc_all [OpenUni (StreamId 2), Stream (StreamId 2) [7, 8, 9] False]))))
     (session_inner_new True demo_limits) = (InLoop, demo_session\<lparr>accept_uni_queue := [demo_stream]\<rparr>)"
proof -
  let ?fs = "[OpenUni (StreamId 2), Stream (StreamId 2) [7, 8, 9] False]"
  have "frame_encode (OpenUni (StreamId 2)) = Some [0, 2]"
    "frame_encode (Stream (StreamId 2) [7, 8, 9] False) = Some [2, 2, 0, 3, 7, 8, 9]" by code_simp+
  moreover have "list_all (frame_wf 64) ?fs" by (simp add: frame_wf_def in_varint_def)
  moreover have "max_ws_message_size (limits_of (session_inner_new True demo_limits)) = 64"
    by (simp add: session_inner_new_def demo_limits_def)
  ultimately show ?thesis
    using inbound_refines_frames [of ?fs "session_inner_new True demo_limits"] demo_open demo_data by simp
qed

section \<open>End to end\<close>

definition sent_messages :: "sink_op list \<Rightarrow> ws_message list" where
  "sent_messages ops = concat (map (\<lambda>a. case a of SinkSend m \<Rightarrow> [m] | _ \<Rightarrow> []) ops)"

lemma sent_messages_batches: "sent_messages (map batch_msg gs) = map (\<lambda>g. WsBinary (enc_all g)) gs"
  by (induction gs) (auto simp: sent_messages_def batch_msg_def)

lemma group_size:
  assumes "group_ok l g" "max_bytes l \<le> n" "list_all (\<lambda>f. length (enc_all [f]) \<le> n) g"
  shows "length (enc_all g) \<le> n"
proof (cases "length g = 1")
  case True
  then obtain f where "g = [f]" by (cases g) auto
  then show ?thesis using assms(3) by simp
qed (use assms in \<open>auto simp: group_ok_def\<close>)

lemma writer_groups:
  assumes "sink_works tx" "session_inv s" "outbound s = map FrameCmd fs"
    and "max_bytes (limits_of s) \<le> n" "list_all (\<lambda>f. length (enc_all [f]) \<le> n) fs"
  obtains w' gs where "writer_run tx (length fs) writer_new s = (OutLoop, w', s\<lparr>outbound := []\<rparr>)"
    "sent_messages (sunk w') = map (\<lambda>g. WsBinary (enc_all g)) gs" "concat gs = fs"
    "list_all (\<lambda>g. length (enc_all g) \<le> n) gs"
proof -
  have wf: "list_all (frame_wf 64) fs"
    using assms(2,3) by (auto simp: session_inv_def queues_inv_def list_all_iff)
  have pos: "0 < max_batch_frames (limits_of s)" using assms(2) by (simp add: session_inv_def limits_ok_def)
  have new: "batch_rel writer_new []" "\<not> close_sent writer_new" "sunk writer_new = []"
    by (simp_all add: batch_rel_def writer_new_def)
  have "group_open (limits_of s) []" using pos by (simp add: group_open_def)
  from writer_run_frames [OF assms(1) new(1,2) assms(3) wf this pos]
  obtain w' gs g' where w: "writer_run tx (length fs) writer_new s = (OutLoop, w', s\<lparr>outbound := []\<rparr>)"
      "sunk w' = map batch_msg gs" "list_all (group_ok (limits_of s)) gs" "concat gs @ g' = fs"
      "fs \<noteq> [] \<longrightarrow> g' = []"
    using new(3) by auto
  have fs: "concat gs = fs" using w(4,5) by (cases "fs = []") auto
  have "list_all (\<lambda>g. length (enc_all g) \<le> n) gs"
    using w(3) assms(5) fs unfolding list_all_iff
    by (intro ballI group_size [OF _ assms(4)]) (auto simp: list_all_iff)
  then show ?thesis using that w(1,2) fs by (simp add: sent_messages_batches)
qed

text \<open>
  C5: two sessions across the wire. When the queue of a session holds the frames \<open>fs\<close> and its writer
  drains it into a working sink, the messages it produced, received in order by a session whose message
  limit covers the sender's batches and each single frame, have exactly the effect of handling \<open>fs\<close> in
  order: no frame is lost, split, duplicated or reordered. (The statement is about runs that do not
  suspend; a suspended handler is resumed with the rest of its message.)
\<close>

theorem wire_end_to_end:
  assumes "sink_works tx" "session_inv s" "outbound s = map FrameCmd fs" "session_inv r"
    and "max_bytes (limits_of s) \<le> max_ws_message_size (limits_of r)"
    and "list_all (\<lambda>f. length (enc_all [f]) \<le> max_ws_message_size (limits_of r)) fs"
    and "\<forall>k rest. fst (handle_all fs r) \<noteq> InFrames k rest"
  shows "\<exists>w'. writer_run tx (length fs) writer_new s = (OutLoop, w', s\<lparr>outbound := []\<rparr>)
     \<and> receive_all (sent_messages (sunk w')) r = handle_all fs r"
proof -
  obtain w' gs where w: "writer_run tx (length fs) writer_new s = (OutLoop, w', s\<lparr>outbound := []\<rparr>)"
      "sent_messages (sunk w') = map (\<lambda>g. WsBinary (enc_all g)) gs" "concat gs = fs"
      "list_all (\<lambda>g. length (enc_all g) \<le> max_ws_message_size (limits_of r)) gs"
    using writer_groups [OF assms(1-3,5,6)] .
  moreover have "list_all (list_all (frame_wf 64)) gs"
    using assms(2,3) w(3) by (auto simp: session_inv_def queues_inv_def list_all_iff)
  ultimately show ?thesis using receive_groups [OF assms(4), of gs] assms(7) by auto
qed

theorem wire_end_to_end_witness:
  "\<exists>w'. writer_run (\<lambda>_ _. Inr ()) 2 writer_new
       (demo_client\<lparr>outbound := [FrameCmd (OpenUni (StreamId 2)), FrameCmd (Stream (StreamId 2) [7, 8, 9] False)]\<rparr>)
       = (OutLoop, w', demo_client\<lparr>outbound := []\<rparr>)
     \<and> receive_all (sent_messages (sunk w')) (session_inner_new True demo_limits)
       = (InLoop, demo_session\<lparr>accept_uni_queue := [demo_stream]\<rparr>)"
proof -
  let ?fs = "[OpenUni (StreamId 2), Stream (StreamId 2) [7, 8, 9] False]"
  let ?s = "demo_client\<lparr>outbound := map FrameCmd ?fs\<rparr>" and ?r = "session_inner_new True demo_limits"
  have lim: "limits_of demo_client = demo_limits" "limits_of ?r = demo_limits"
    by (simp_all add: demo_client_def session_inner_new_def)
  have "limits_ok 64 demo_limits" by (simp add: limits_ok_def demo_limits_def usize_saturating_add_def)
  then have "session_inv ?r" by (rule session_inv_new)
  moreover have "session_inv ?s"
    using demo_client_inv(1) lim(1)
    by (simp add: session_inv_def queues_inv_def frame_wf_def in_varint_def) (simp add: demo_limits_def)
  moreover have "frame_encode (OpenUni (StreamId 2)) = Some [0, 2]"
    "frame_encode (Stream (StreamId 2) [7, 8, 9] False) = Some [2, 2, 0, 3, 7, 8, 9]" by code_simp+
  moreover have "max_ws_message_size demo_limits = 64" "max_bytes demo_limits = 64"
    by (simp_all add: demo_limits_def max_bytes_def)
  moreover have "handle_all ?fs ?r = (InLoop, demo_session\<lparr>accept_uni_queue := [demo_stream]\<rparr>)"
    by (simp add: demo_open demo_data)
  ultimately show ?thesis
    using wire_end_to_end [of "\<lambda>_ _. Inr ()" ?s ?fs ?r] lim by (simp add: sink_works_def numeral_2_eq_2)
qed

end
