(* ===== verification/Stream_Behaviour.thy ===== *)
theory Stream_Behaviour
  imports Session_Runs
begin

text \<open>
  The behaviour of streams and sessions at their edges: delivery within credit, violations of the
  protocol, stopping and resetting, the renewal of credit by readers, and the effect of closing.
\<close>

section \<open>Delivery\<close>

text \<open>Stream \<open>i\<close> feeds the handle \<open>rv\<close>: its entry is live and its channel is open.\<close>

definition feeds :: "stream_id \<Rightarrow> recv_state \<Rightarrow> recv_stream \<Rightarrow> session \<Rightarrow> bool" where
  "feeds i st rv s \<longleftrightarrow> hm_get (streams s) i = Some st \<and> \<not> stopped st \<and> sender st = receiver rv
     \<and> rx_open (chan_mem s (receiver rv))"

text \<open>The data frames \<open>cs\<close> respect the credit of the stream, the frame limit and the event queue.\<close>

definition within_credit :: "bytes list \<Rightarrow> recv_state \<Rightarrow> recv_stream \<Rightarrow> session \<Rightarrow> bool" where
  "within_credit cs st rv s \<longleftrightarrow>
     unat (received st) + length (concat cs) \<le> unat (chan_max (chan_mem s (receiver rv)))
     \<and> list_all (\<lambda>c. length c \<le> max_stream_data_per_frame (limits_of s)) cs
     \<and> length (items (chan_mem s (receiver rv))) + length cs \<le> recv_event_queue_len (limits_of s)"

fun handle_data :: "stream_id \<Rightarrow> bytes list \<Rightarrow> session \<Rightarrow> (error + unit) \<times> session" where
  "handle_data i [] s = (Inr (), s)"
| "handle_data i (c # cs) s = (case handle_frame (Stream i c False) s of
     (Finished (Inr _), s1) \<Rightarrow> handle_data i cs s1
   | (Finished (Inl e), s1) \<Rightarrow> (Inl e, s1)
   | (Awaiting k, s1) \<Rightarrow> (Inl Closed, s1))"

lemma handle_stream_accepts:
  assumes "feeds i st rv s" "within_credit (c # cs) st rv s"
  obtains st' s' where "handle_stream i c False s = (Inr (), s')" "feeds i st' rv s'" "within_credit cs st' rv s'"
    "contents rv s' = contents rv s @ c" "unat (received st') = unat (received st) + length c"
proof -
  let ?n = "received st + of_nat (length c)" and ?ch = "chan_mem s (receiver rv)"
  have le: "unat (received st) + length c \<le> unat (chan_max ?ch)" using assms(2) by (simp add: within_credit_def)
  then have len: "length c < 2 ^ 64" using unat_u64_less [of "chan_max ?ch"] by linarith
  have add: "checked_add (received st) (of_nat (length c)) = Some ?n" and n: "unat ?n = unat (received st) + length c"
  proof -
    have "unat (received st) + unat (of_nat (length c) :: u64) < 2 ^ 64"
      using le len unat_u64_less [of "chan_max ?ch"] by (simp add: unat_of_nat_u64)
    then show "checked_add (received st) (of_nat (length c)) = Some ?n" by (simp add: checked_add_def)
    then show "unat ?n = unat (received st) + length c"
      using len by (auto simp: checked_add_Some unat_add_no_wrap unat_of_nat_u64)
  qed
  define st' where "st' = st\<lparr>received := ?n\<rparr>"
  define s' where "s' = chan_update (sender st) (\<lambda>c'. c'\<lparr>items := items c' @ [RecvEvent c False]\<rparr>)
      (s\<lparr>streams := hm_insert i st' (streams s)\<rparr>)"
  have "\<not> chan_max ?ch < ?n" using le n by (simp add: word_less_nat_alt)
  then have "handle_stream i c False s = (Inr (), s')"
    using assms add by (auto simp: handle_stream_def feeds_def within_credit_def Let_def s'_def st'_def)
  moreover have "feeds i st' rv s'" "within_credit cs st' rv s'" "contents rv s' = contents rv s @ c"
    using assms n by (auto simp: feeds_def within_credit_def contents_def s'_def st'_def chan_update_def hmap_simps)
  ultimately show ?thesis using that n by (simp add: st'_def)
qed

lemma handle_data_delivers:
  "feeds i st rv s \<Longrightarrow> within_credit cs st rv s \<Longrightarrow>
     \<exists>s'. handle_data i cs s = (Inr (), s') \<and> contents rv s' = contents rv s @ concat cs"
proof (induction cs arbitrary: st s)
  case (Cons c cs)
  obtain st' s1 where h: "handle_stream i c False s = (Inr (), s1)" "feeds i st' rv s1" "within_credit cs st' rv s1"
      "contents rv s1 = contents rv s @ c"
    by (rule handle_stream_accepts [OF Cons.prems])
  then show ?case using Cons.IH [OF h(2,3)] by auto
qed simp

text \<open>
  C9: data frames that respect the granted credit, the frame limit and the room of the event queue are
  all accepted, and the bytes the reader will get grow by exactly their payloads, in order.
\<close>

theorem data_within_credit_delivered:
  assumes "feeds i st rv s" "within_credit cs st rv s"
  shows "\<exists>s'. handle_data i cs s = (Inr (), s') \<and> contents rv s' = contents rv s @ concat cs"
  by (rule handle_data_delivers [OF assms])

lemma demo_feeds:
  "feeds (StreamId 2) \<lparr>stopped = False, sender = 0, received = 3\<rparr> demo_stream demo_session"
  "within_credit [[5]] \<lparr>stopped = False, sender = 0, received = 3\<rparr> demo_stream demo_session"
  "contents demo_stream demo_session = [7, 8, 9]"
  by (simp_all add: feeds_def within_credit_def contents_def demo_stream_def demo_session_def
      session_inner_new_def demo_limits_def hmap_simps)

theorem data_within_credit_delivered_witness:
  "\<exists>s'. handle_data (StreamId 2) [[5]] demo_session = (Inr (), s') \<and> contents demo_stream s' = [7, 8, 9, 5]"
  using data_within_credit_delivered [OF demo_feeds(1,2)] demo_feeds(3) by simp


section \<open>Violations\<close>

text \<open>The state after a protocol error.\<close>

definition shut_down :: "session \<Rightarrow> bool" where
  "shut_down s \<longleftrightarrow> closed s \<and> \<not> accept_uni_tx s \<and> \<not> accept_bi_tx s"

lemma close_all_shut: "session_inv s \<Longrightarrow> shut_down (close_all s)"
  by (auto simp: close_all_def shut_down_def session_inv_def)

lemma protocol_error_shuts:
  assumes "session_inv s" "frame_wf 64 (ConnectionClose code reason)"
  shows "fst (protocol_error code reason s) = Inl (Protocol reason)"
    "shut_down (snd (protocol_error code reason s))"
proof -
  obtain q t where t: "try_send_frame (ConnectionClose code reason) s = (q, t)" by fastforce
  have "session_inv t" by (rule session_inv_try_send_frame [OF assms t])
  then show "fst (protocol_error code reason s) = Inl (Protocol reason)"
    "shut_down (snd (protocol_error code reason s))"
    using t by (simp_all add: protocol_error_def close_all_shut)
qed

lemma protocol_error_announced:
  assumes "\<not> session_is_closed s" "outbound_rx s" "\<not> outbound_full s"
  shows "outbound (snd (protocol_error code reason s)) = outbound s @ [FrameCmd (ConnectionClose code reason)]"
  using assms
  by (simp add: protocol_error_def try_send_frame_def outbound_try_send_def outbound_push_def close_all_def)

text \<open>
  C27: a peer that sends more than its credit on a live stream is refused before any byte is stored: the
  session is closed with a flow-control error, no channel changes, and, if the outbound queue has room,
  the peer is told with code 2.
\<close>

theorem credit_violation_refused:
  assumes "session_inv s" "hm_get (streams s) i = Some st"
    and "length d \<le> max_stream_data_per_frame (limits_of s)"
    and "unat (chan_max (chan_mem s (sender st))) < unat (received st) + length d"
    and "handle_frame (Stream i d fin) s = (r, s')"
  shows "(\<exists>msg. r = Finished (Inl (Protocol msg))) \<and> closed s' \<and> chan_mem s' = chan_mem s
     \<and> (\<not> session_is_closed s \<and> outbound_rx s \<and> \<not> outbound_full s \<longrightarrow>
          (\<exists>msg. outbound s' = outbound s @ [FrameCmd (ConnectionClose 2 msg)]))"
proof -
  have len: "length d < 2 ^ 64" using assms(3) session_inv_bounds(1) [OF assms(1)] by simp
  have err: "\<exists>msg. handle_stream i d fin s = protocol_error 2 msg s"
  proof (cases "checked_add (received st) (of_nat (length d))")
    case None
    then show ?thesis using assms(2,3) by (auto simp: handle_stream_def)
  next
    case (Some n)
    then have "unat n = unat (received st) + length d"
      using len by (auto simp: checked_add_Some unat_add_no_wrap unat_of_nat_u64)
    then have "chan_max (chan_mem s (sender st)) < n" using assms(4) by (simp add: word_less_nat_alt)
    then show ?thesis using Some assms(2,3) by (auto simp: handle_stream_def)
  qed
  then obtain msg where m: "handle_stream i d fin s = protocol_error 2 msg s" by blast
  have "closed (snd (protocol_error 2 msg s))" "chan_mem (snd (protocol_error 2 msg s)) = chan_mem s"
    by (auto simp: protocol_error_def close_all_def try_send_frame_def outbound_try_send_def outbound_push_def)
  then show ?thesis
    using assms(5) m protocol_error_announced [of s 2 msg]
    by (auto simp: apfst_def map_prod_def protocol_error_def split: prod.splits)
qed

lemma demo_session_inv: "session_inv demo_session"
  using session_system.reachable_inv [OF demo_reachable] by (simp add: sys_inv_def demo_sys_def sys_start_def)

theorem credit_violation_refused_witness:
  "closed (snd (handle_frame (Stream (StreamId 2) [1, 2] False) demo_session))"
proof -
  let ?st = "\<lparr>stopped = False, sender = 0, received = 3\<rparr>"
  obtain r s' where h: "handle_frame (Stream (StreamId 2) [1, 2] False) demo_session = (r, s')" by fastforce
  have "hm_get (streams demo_session) (StreamId 2) = Some ?st" using demo_feeds(1) by (simp add: feeds_def)
  moreover have "length [1, 2 :: u8] \<le> max_stream_data_per_frame (limits_of demo_session)"
    "unat (chan_max (chan_mem demo_session (sender ?st))) < unat (received ?st) + length [1, 2 :: u8]"
    by (simp_all add: demo_session_def session_inner_new_def demo_limits_def)
  ultimately show ?thesis using credit_violation_refused [OF demo_session_inv _ _ _ h] h by (metis snd_conv)
qed

lemma evolves_closed: "evolves X s s' \<Longrightarrow> closed s \<Longrightarrow> closed s'"
  by (simp add: evolves_def grows_def)

lemma protocol_error_closed: "protocol_error code reason s = (r, s') \<Longrightarrow> closed s'"
  by (auto simp: protocol_error_def close_all_def)

lemma deliver_error_closes:
  "deliver_uni rv s = (Inl (Protocol msg), s') \<Longrightarrow> closed s'"
  "deliver_bi ss rv s = (Inl (Protocol msg), s') \<Longrightarrow> closed s'"
proof -
  obtain r s1 where pe: "protocol_error 3 ''accept queue full'' s = (r, s1)" by fastforce
  have "closed (recv_stream_drop rv s1)" "closed (drop_pair ss rv s1)"
    using protocol_error_closed [OF pe] evolves_closed [OF evolves_recv_stream_drop]
      evolves_closed [OF evolves_send_stream_drop] by (auto simp: drop_pair_def)
  then show "deliver_uni rv s = (Inl (Protocol msg), s') \<Longrightarrow> closed s'"
    "deliver_bi ss rv s = (Inl (Protocol msg), s') \<Longrightarrow> closed s'"
    using pe by (auto simp: deliver_uni_def deliver_bi_def split: if_splits)
qed

lemma registered_error_closes:
  "open_uni_registered x = (Finished (Inl (Protocol msg)), s') \<Longrightarrow> closed s'"
  "open_bi_registered x = (Finished (Inl (Protocol msg)), s') \<Longrightarrow> closed s'"
proof -
  have pe: "apfst Finished (protocol_error c m t) = (Finished (Inl (Protocol msg)), s') \<Longrightarrow> closed s'" for c m t
    using protocol_error_closed by (cases "protocol_error c m t") auto
  show "open_uni_registered x = (Finished (Inl (Protocol msg)), s') \<Longrightarrow> closed s'"
    using protocol_error_closed deliver_error_closes(1)
    by (auto simp: open_uni_registered_def apfst_def map_prod_def split: prod.splits async.splits sum.splits)
  assume o: "open_bi_registered x = (Finished (Inl (Protocol msg)), s')"
  obtain q s where x: "x = (q, s)" by fastforce
  show "closed s'"
  proof (cases q rule: reg_recvs.cases)
    case (2 rv)
    obtain g s1 where reg: "register_send_flow (rv_id rv) 0 s = (g, s1)" by fastforce
    show ?thesis
    proof (cases g)
      case (Inl e)
      obtain y s2 where p: "protocol_error 3 (error_to_string e) s1 = (y, s2)" by fastforce
      have "closed (recv_stream_drop rv s2)"
        by (rule evolves_closed [OF evolves_recv_stream_drop protocol_error_closed [OF p]])
      then show ?thesis using o x 2 reg Inl p by (simp add: open_bi_registered_def)
    next
      case (Inr flow)
      obtain ss s2 where n: "send_stream_new (rv_id rv) flow s1 = (ss, s2)" by fastforce
      show ?thesis
        using o x 2 reg Inr n deliver_error_closes(2) [of ss rv s2]
        by (cases "deliver_bi ss rv s2") (auto simp: open_bi_registered_def)
    qed
  qed (use o x pe in \<open>auto simp: open_bi_registered_def\<close>)
qed

lemma frame_error_closes:
  assumes "handle_frame f s = (Finished (Inl (Protocol msg)), s')"
  shows "closed s'"
proof -
  have pe: "apfst Finished (protocol_error c m t) = (Finished (Inl (Protocol msg)), s') \<Longrightarrow> closed s'" for c m t
    using protocol_error_closed by (cases "protocol_error c m t") auto
  have stream: "closed s'" if "handle_stream i d fin s = (Inl (Protocol msg), s')" for i d fin
    using that protocol_error_closed
    by (auto simp: handle_stream_def Let_def split: if_splits option.splits)
  show ?thesis
  proof (cases f)
    case (OpenUni i)
    then show ?thesis
      using assms pe registered_error_closes(1)
      by (auto simp: handle_open_uni_def split: if_splits prod.splits bool.splits)
  next
    case (OpenBi i)
    then show ?thesis
      using assms pe registered_error_closes(2)
      by (auto simp: handle_open_bi_def split: if_splits prod.splits bool.splits)
  next
    case (Stream i d fin)
    then show ?thesis using assms stream by (cases "handle_stream i d fin s") auto
  next
    case (ResetStream i c)
    then show ?thesis
      using assms protocol_error_closed
      by (cases "handle_reset i s") (auto simp: handle_reset_def split: if_splits prod.splits)
  next
    case (StopSending i c)
    obtain b s1 where rm: "remove_send_flow i s = (b, s1)" by fastforce
    obtain p s2 where snd: "send_frame (ResetStream i c) s1 = (p, s2)" by fastforce
    have "p \<noteq> Ready (Inl (Protocol msg))"
      using snd by (auto simp: send_frame_def send_frame_resume_def split: if_splits)
    then show ?thesis
      using assms StopSending rm snd pe
      by (auto simp: handle_stop_def await_at_def split: bool.splits if_splits poll.splits)
  qed (use assms in auto)
qed

text \<open>
  C28: whenever the handler of a decoded frame reports a protocol error, it has closed the session and
  disconnected both accept queues, and the session invariant still holds.
\<close>

theorem protocol_violation_closes:
  assumes "session_inv s" "frame_wf 64 f" "handle_frame f s = (Finished (Inl (Protocol msg)), s')"
  shows "session_inv s' \<and> shut_down s'"
  using handle_frame_ok [OF assms] frame_error_closes [OF assms(3)]
  by (auto simp: session_inv_def shut_down_def)

theorem protocol_violation_closes_witness:
  "\<exists>s'. handle_frame (OpenUni (StreamId 3)) demo_session =
     (Finished (Inl (Protocol ''OpenUni with wrong initiator'')), s') \<and> session_inv s' \<and> shut_down s'"
proof -
  have "fst (handle_frame (OpenUni (StreamId 3)) demo_session) =
      Finished (Inl (Protocol ''OpenUni with wrong initiator''))"
    by (simp add: handle_open_uni_def stream_id_dir_def initiator_is_server_def peer_is_server_def
        demo_session_def session_inner_new_def protocol_error_def)
  then obtain s' where "handle_frame (OpenUni (StreamId 3)) demo_session =
      (Finished (Inl (Protocol ''OpenUni with wrong initiator'')), s')"
    by (cases "handle_frame (OpenUni (StreamId 3)) demo_session") simp
  with demo_session_inv show ?thesis
    using protocol_violation_closes [of demo_session "OpenUni (StreamId 3)" "''OpenUni with wrong initiator''" s']
    by (auto simp: frame_wf_def in_varint_def)
qed

section \<open>Stopping and resetting\<close>

lemma write_closed_flow:
  assumes "flow_closed (flow_mem s (ss_flow ss))"
  shows "\<exists>e s'. write_loop ss (b # d) s = (Finished (Inl e), s') \<and> outbound s' = outbound s"
  using assms
  by (auto simp: write_loop.simps [of ss "b # d"] reserve_poll_def try_reserve_def flow_update_def
      waker_register_def Let_def)

text \<open>
  \<open>StopSending\<close> on a live send stream ends it: the send state is removed, a writer that waits for
  credit is woken, the peer is answered with \<open>ResetStream\<close> carrying its code when the queue has room,
  and afterwards every write on the stream fails without queueing a frame.
\<close>

lemma stop_ends_send_stream:
  assumes "session_inv s" "hm_get (send_flows s) i = Some r" "ss_flow ss = r" "ss_id ss = i"
    and "handle_frame (StopSending i code) s = (q, s')"
  shows "\<not> hm_contains i (send_flows s')
    \<and> flow_closed (flow_mem s' r)
    \<and> (waker (flow_mem s r) \<longrightarrow> wakes (flow_mem s' r) = Suc (wakes (flow_mem s r)))
    \<and> (\<not> session_is_closed s \<and> outbound_rx s \<and> \<not> outbound_full s \<longrightarrow>
         outbound s' = outbound s @ [FrameCmd (ResetStream i code)] \<and> q = Finished (Inr ()))
    \<and> (\<forall>b d. \<exists>e t. write_loop ss (b # d) s' = (Finished (Inl e), t) \<and> outbound t = outbound s')"
proof -
  let ?s1 = "flow_update r flow_close (s\<lparr>send_flows := hm_remove i (send_flows s)\<rparr>)"
  have rm: "remove_send_flow i s = (True, ?s1)" using assms(2) by (simp add: remove_send_flow_def)
  obtain p s2 where snd: "send_frame (ResetStream i code) ?s1 = (p, s2)" by fastforce
  have q: "s' = s2" using assms(5) rm snd by (auto simp: handle_stop_def await_at_def split: poll.splits)
  have fl: "send_flows s' = hm_remove i (send_flows s)" "flow_mem s' r = flow_close (flow_mem s r)"
    using send_frame_flows [OF snd] q by (simp_all add: flow_update_def)
  have closed: "flow_closed (flow_mem s' (ss_flow ss))"
    using fl(2) assms(3) by (simp add: flow_close_def waker_wake_def)
  have sent: "\<not> session_is_closed s \<and> outbound_rx s \<and> \<not> outbound_full s \<longrightarrow>
      outbound s' = outbound s @ [FrameCmd (ResetStream i code)] \<and> q = Finished (Inr ())"
    using snd q assms(5) rm
    by (auto simp: send_frame_def send_frame_resume_def session_is_closed_def outbound_full_def outbound_push_def
        flow_update_def handle_stop_def await_at_def split: if_splits)
  show ?thesis
    using fl closed sent assms(3) write_closed_flow [OF closed]
    by (auto simp: hm_contains_def hmap_simps flow_close_def waker_wake_def)
qed

lemma sender_alive_chan [simp]: "sender_alive q (chan_update r g s) = sender_alive q s"
  by (simp add: sender_alive_def chan_update_def)

lemma poll_read_loop_alive:
  "fst (poll_read_loop n rv s) = Pending \<Longrightarrow> sender_alive (receiver rv) s"
proof (induction n rv s rule: poll_read_loop.induct)
  case (1 n rv s)
  show ?case
  proof (cases rule: chan_recv_cases [of "receiver rv" s])
    case (event e s1)
    then have s1: "sender_alive q s1 = sender_alive q s" for q
      by (auto simp: chan_recv_def split: list.splits if_splits)
    obtain rv3 s3 where "on_bytes_consumed (min (length (ev_data e)) n)
        (if min (length (ev_data e)) n < length (ev_data e)
         then (if ev_fin e then rv\<lparr>rv_finished := True\<rparr> else rv)\<lparr>rv_pending := drop (min (length (ev_data e)) n) (ev_data e)\<rparr>
         else (if ev_fin e then rv\<lparr>rv_finished := True\<rparr> else rv)) s1 = (rv3, s3)" by fastforce
    then show ?thesis
      using 1 event s1 by (auto simp: poll_read_loop.simps [of n rv s] Let_def split: if_splits)
  qed (use "1.prems" in \<open>auto simp: poll_read_loop.simps [of n rv s]\<close>)
qed

text \<open>A handle whose sender is gone never suspends a read.\<close>

lemma dead_reader_ready:
  assumes "\<not> sender_alive (receiver rv) s"
  shows "fst (recv_read n rv s) \<noteq> Pending" "fst (recv_read_chunk n rv s) \<noteq> Pending" "fst (poll_read n rv s) \<noteq> Pending"
proof -
  show "fst (recv_read n rv s) \<noteq> Pending" "fst (recv_read_chunk n rv s) \<noteq> Pending"
    using assms recv_read_spec [of n rv s] recv_read_chunk_spec [of n rv s]
    by (auto simp: read_spec_def split: prod.splits poll.splits)
  show "fst (poll_read n rv s) \<noteq> Pending"
    using assms poll_read_loop_alive [of n rv s] by (auto simp: poll_read_def Let_def split: prod.splits)
qed

text \<open>
  A peer's \<open>ResetStream\<close>, and equally the end of the stream, never leaves a reader waiting: the
  entry is gone, what was received before stays readable, and a read on the drained handle reports the
  end instead of suspending.
\<close>

lemma reset_unblocks_reader:
  assumes "session_inv s" "hm_get (streams s) i = Some st" "sender st = receiver rv"
    and "handle_frame (ResetStream i code) s = (q, s')"
  shows "q = Finished (Inr ()) \<and> contents rv s' = contents rv s
    \<and> fst (recv_read n rv s') \<noteq> Pending \<and> fst (recv_read_chunk n rv s') \<noteq> Pending \<and> fst (poll_read n rv s') \<noteq> Pending"
proof -
  have s': "s' = s\<lparr>streams := hm_remove i (streams s)\<rparr>" "q = Finished (Inr ())"
    using assms(2,4) by (auto simp: handle_reset_def remove_recv_stream_def hm_contains_def)
  have dead: "\<not> sender_alive (receiver rv) s'"
  proof
    assume "sender_alive (receiver rv) s'"
    then obtain j st' where e: "(j, st') \<in> set (streams s')" "sender st' = receiver rv"
      by (auto simp: sender_alive_def)
    then have "hm_get (streams s) j = Some st'" "j \<noteq> i"
      using assms(1) s'(1) by (auto simp: hm_remove_def hm_get_def session_inv_def streams_inv_def hm_ok_def)
    then show False using assms(1-3) e(2) by (auto simp: session_inv_def streams_inv_def)
  qed
  show ?thesis using s' dead_reader_ready [OF dead] by (simp add: contents_def)
qed

section \<open>Renewing credit\<close>

text \<open>
  A reader keeps the window open. After any read that returns bytes, unless the stream is finished
  or stopped, the granted limit is less than one update threshold short of the full window beyond the
  consumed bytes (or at the top of the varint range), so a peer that has used up its credit is granted
  more as soon as the application reads.
\<close>

lemma reads_renew_credit:
  assumes "recv_read n rv s = (Ready (Inr (Some out)), rv', s')" "out \<noteq> []"
    and "\<not> rv_finished rv'" "\<not> stop_sent rv'"
  shows "granted rv' \<ge> credit_target rv' \<or> credit_target rv' - granted rv' < update_threshold rv'"
proof -
  have taken: "granted r' \<ge> credit_target r' \<or> credit_target r' - granted r' < update_threshold r'"
    if "take_pending n r t = (out, r', t')" "\<not> rv_finished r'" "\<not> stop_sent r'" for r t r' t'
  proof -
    let ?amt = "min n (length (rv_pending r))"
    have c: "on_bytes_consumed ?amt (r\<lparr>rv_pending := drop ?amt (rv_pending r)\<rparr>) t = (r', t')"
      and "out = take ?amt (rv_pending r)"
      using that(1) by (auto simp: take_pending_def Let_def split: prod.splits)
    then have "?amt \<noteq> 0" using assms(2) by auto
    with c that(2-) show ?thesis by (cases rule: on_bytes_consumed_cases) (auto simp: credit_target_def)
  qed
  show ?thesis
    using assms taken
    by (auto simp: recv_read_def Let_def split: if_splits prod.splits poll.splits sum.splits option.splits)
qed

lemma reads_renew_credit_witness:
  "\<exists>rv' s'. recv_read 3 demo_stream demo_session = (Ready (Inr (Some [7, 8, 9])), rv', s') \<and> granted rv' = 7
     \<and> (granted rv' \<ge> credit_target rv' \<or> credit_target rv' - granted rv' < update_threshold rv')"
proof -
  obtain rv' s' where r: "recv_read 3 demo_stream demo_session = (Ready (Inr (Some [7, 8, 9])), rv', s')"
      "granted rv' = 7" "\<not> rv_finished rv'" "\<not> stop_sent rv'"
    by (simp add: recv_read_def read_chunk_internal_def chan_recv_def demo_stream_def demo_session_def
        take_pending_def on_bytes_consumed_def saturating_add_def min_def Let_def varint_MAX_def)
  then show ?thesis using reads_renew_credit [OF r(1)] by auto
qed

text \<open>
  A renewed limit of a live stream is announced: it is either pending, coalesced with earlier
  announcements of the same stream into the largest limit, so that the writer's next credit for the
  stream carries at least it and exactly once, or the session has been asked to shut down because the
  table of pending credit is full.
\<close>

lemma credit_announced:
  assumes "hm_get (streams s) i = Some st" "\<not> stopped st"
  shows "cancelled (queue_credit i m s)
    \<or> (\<exists>m' t. m \<le> m' \<and> next_credit i (queue_credit i m s) = (Ready (MaxStreamData i m'), t)
         \<and> hm_get (pending_credit t) i = None \<and> credit_notify (queue_credit i m s))"
proof -
  have nc: "next_credit i (t\<lparr>pending_credit := hm_insert i m' p, credit_notify := True\<rparr>) =
      (Ready (MaxStreamData i m'), t\<lparr>pending_credit := hm_remove i (hm_insert i m' p), credit_notify := True\<rparr>)" for t m' p
    by (simp add: next_credit_def hm_insert_def hmap_simps)
  show ?thesis
    using assms by (auto simp: queue_credit_def request_shutdown_def Let_def nc hmap_simps split: option.splits)
qed

lemma credit_announced_witness:
  "\<exists>m' t. 7 \<le> m' \<and> next_credit (StreamId 2) (queue_credit (StreamId 2) 7 demo_session)
     = (Ready (MaxStreamData (StreamId 2) m'), t)"
proof -
  have "\<not> cancelled (queue_credit (StreamId 2) 7 demo_session)"
    by (simp add: queue_credit_def demo_session_def session_inner_new_def demo_limits_def Let_def hmap_simps)
  then show ?thesis
    using credit_announced [of demo_session "StreamId 2" "\<lparr>stopped = False, sender = 0, received = 3\<rparr>" 7] demo_feeds(1)
    by (auto simp: feeds_def)
qed

lemma close_flows_distinct:
  "distinct (map snd fs) \<Longrightarrow> close_flows fs m r = (if r \<in> snd ` set fs then flow_close (m r) else m r)"
  by (induction fs arbitrary: m) (auto simp: close_flows_def image_iff)

lemma close_flows_once:
  assumes "hm_ok fs" "\<forall>i j r. hm_get fs i = Some r \<longrightarrow> hm_get fs j = Some r \<longrightarrow> i = j" "hm_get fs i = Some r"
  shows "close_flows fs m r = flow_close (m r)"
proof -
  have get: "hm_get fs j = Some q" if "(j, q) \<in> set fs" for j q
    using assms(1) that by (simp add: hm_ok_def hm_get_def)
  then have "distinct (map snd fs)"
    using assms(1,2) by (auto simp: distinct_map hm_ok_def inj_on_def)
  moreover have "r \<in> snd ` set fs" using assms(3) map_of_SomeD by (force simp: hm_get_def)
  ultimately show ?thesis by (simp add: close_flows_distinct)
qed

text \<open>
  C29: no wake-up is lost. A poll for credit that suspends leaves its waker registered, and whatever
  makes progress possible wakes it: a larger limit from the peer, the removal of the stream, and the
  closing of the session.
\<close>

theorem suspended_writer_woken:
  assumes "session_inv s" "reserve_poll wanted ss s = (Pending, s1)" "hm_get (send_flows s) i = Some (ss_flow ss)"
  defines "f \<equiv> flow_mem s1 (ss_flow ss)"
  shows "waker f
    \<and> (\<forall>m > max_data f. wakes (flow_mem (handle_max_data i m s1) (ss_flow ss)) = Suc (wakes f))
    \<and> wakes (flow_mem (snd (remove_send_flow i s1)) (ss_flow ss)) = Suc (wakes f)
    \<and> wakes (flow_mem (close_all s1) (ss_flow ss)) = Suc (wakes f)"
proof -
  have s1: "send_flows s1 = send_flows s" "waker f" "\<not> flow_closed f" "\<not> closed s1"
    using assms(2)
    by (auto simp: reserve_poll_def try_reserve_def waker_register_def flow_update_def f_def Let_def
        session_is_closed_def split: if_splits)
  have ok: "hm_ok (send_flows s)" "\<forall>i j r. hm_get (send_flows s) i = Some r \<longrightarrow> hm_get (send_flows s) j = Some r \<longrightarrow> i = j"
    using assms(1) by (auto simp: session_inv_def flows_inv_def)
  have "wakes (close_flows (send_flows s) (flow_mem s1) (ss_flow ss)) = Suc (wakes f)"
    using close_flows_once [OF ok assms(3)] s1(2) by (simp add: f_def flow_close_def waker_wake_def)
  then show ?thesis
    using s1 assms(3)
    by (auto simp: handle_max_data_def flow_update_def update_max_def waker_wake_def remove_send_flow_def
        flow_close_def close_all_def f_def)
qed

theorem suspended_writer_woken_witness:
  "\<exists>s1. reserve_poll 3 demo_send (demo_client\<lparr>flow_mem := (\<lambda>_. flow_new 0)\<rparr>) = (Pending, s1)
     \<and> wakes (flow_mem (handle_max_data (StreamId 2) 9 s1) 0) = 1"
proof -
  let ?s = "demo_client\<lparr>flow_mem := (\<lambda>_. flow_new 0)\<rparr>"
  have inv: "session_inv ?s"
    using demo_client_inv(1)
    by (simp add: session_inv_def flows_inv_def flow_ok_def) (auto simp: demo_client_def flow_new_def)
  obtain s1 where r: "reserve_poll 3 demo_send ?s = (Pending, s1)" "max_data (flow_mem s1 0) = 0"
      "wakes (flow_mem s1 0) = 0"
    by (simp add: reserve_poll_def demo_send_def demo_client_def session_inner_new_def flow_update_def
        waker_register_def try_reserve_def flow_new_def session_is_closed_def Let_def)
  have "hm_get (send_flows ?s) (StreamId 2) = Some (ss_flow demo_send)"
    by (simp add: demo_client_def demo_send_def hmap_simps)
  then show ?thesis
    using suspended_writer_woken [OF inv r(1)] r by (auto simp: demo_send_def)
qed

section \<open>Closing\<close>

lemma write_closed:
  assumes "session_is_closed s"
  shows "fst (write_buf ss d s) \<noteq> Awaiting k"
proof -
  obtain q s1 where b: "begin_operation 1 ss s = (q, s1)" by fastforce
  then have "session_is_closed s1"
    using assms begin_operation_ok(2) [OF b] by (auto simp: session_is_closed_def evolves_def grows_def)
  then show ?thesis using b by (cases q) (auto simp: write_buf_def guarded_def end_guarded_def)
qed

lemma send_frame_closed: "session_is_closed s \<Longrightarrow> send_frame f s = (Ready (Inl Closed), s)"
  by (simp add: send_frame_def)

lemma open_closed:
  assumes "session_is_closed s"
  shows "fst (open_uni s) \<noteq> Awaiting k" "fst (open_bi s) \<noteq> Awaiting q"
proof -
  have keep: "session_is_closed s'" if "evolves {} s s'" for s'
    using that assms by (auto simp: session_is_closed_def evolves_def grows_def)
  have ev: "evolves {} s s2" if "next_stream_id dir s = (r1, s1)" "register_send_flow i m s1 = (r2, s2)" for dir r1 s1 i m r2 s2
    by (rule evolves_then [OF evolves_next_stream_id [OF that(1)] evolves_register_send_flow [OF that(2)]])
  show "fst (open_uni s) \<noteq> Awaiting k"
    using keep [OF ev] send_frame_closed
    by (auto simp: open_uni_def open_uni_result_def split: prod.splits sum.splits)
  show "fst (open_bi s) \<noteq> Awaiting q"
  proof -
    have "session_is_closed s3" if "next_stream_id Bi s = (Inr i, s1)" "register_send_flow i 0 s1 = (Inr f, s2)"
        "register_recv_stream i s2 = (rv, s3)" for i s1 f s2 rv s3
      by (rule keep [OF evolves_then [OF ev [OF that(1,2)] evolves_register_recv_stream [OF that(3)]]])
    then show ?thesis
      using send_frame_closed by (auto simp: open_bi_def open_bi_result_def split: prod.splits sum.splits)
  qed
qed

text \<open>
  C30: closing a session releases every waiter. After \<open>close_all\<close> no accept, no read, no write, no open
  and no finish suspends, whatever handle it is called on; each returns data that was already received,
  the end of the stream, or an error.
\<close>

theorem close_releases_waiters:
  assumes "\<not> closed s"
  defines "s' \<equiv> close_all s"
  shows "fst (accept_uni s') \<noteq> Pending \<and> fst (accept_bi s') \<noteq> Pending
    \<and> fst (recv_read n rv s') \<noteq> Pending \<and> fst (recv_read_chunk n rv s') \<noteq> Pending \<and> fst (poll_read n rv s') \<noteq> Pending
    \<and> fst (write_buf ss d s') \<noteq> Awaiting k \<and> fst (open_uni s') \<noteq> Awaiting ku \<and> fst (open_bi s') \<noteq> Awaiting kb
    \<and> fst (send_finish ss s') \<noteq> Awaiting u"
proof -
  have s': "streams s' = []" "\<not> accept_uni_tx s'" "\<not> accept_bi_tx s'" "session_is_closed s'"
    using assms by (auto simp: close_all_def session_is_closed_def)
  then have "\<not> sender_alive (receiver rv) s'" by (simp add: sender_alive_def)
  note reads = dead_reader_ready [OF this]
  obtain q s1 where b: "begin_operation 1 ss s' = (q, s1)" by fastforce
  then have "session_is_closed s1"
    using s'(4) begin_operation_ok(2) [OF b] by (auto simp: session_is_closed_def evolves_def grows_def)
  then have "fst (send_finish ss s') \<noteq> Awaiting u"
    using b by (cases q) (auto simp: send_finish_def guarded_def end_guarded_def)
  then show ?thesis
    using s' reads write_closed [OF s'(4)] open_closed [OF s'(4)]
    by (auto simp: accept_uni_def accept_bi_def split: list.splits)
qed

theorem close_releases_waiters_witness:
  "fst (recv_read 8 demo_stream (close_all demo_session)) \<noteq> Pending
   \<and> fst (accept_uni (close_all demo_session)) \<noteq> Pending"
proof -
  have "\<not> closed demo_session" by (simp add: demo_session_def session_inner_new_def)
  from close_releases_waiters [OF this] show ?thesis by blast
qed

lemma fold_drop_ack:
  "fold drop_ack q m a = (if FlushCmd a \<in> set q \<or> ShutdownCmd a \<in> set q then AckDropped else m a)"
proof (induction q arbitrary: m)
  case (Cons c q)
  then show ?case by (cases c) auto
qed simp

text \<open>
  C31: when the writer task ends, every acknowledgement still queued is released: the caller of a flush
  or of shutdown that waits for it sees it dropped instead of waiting forever.
\<close>

theorem writer_end_releases_acks:
  assumes "FlushCmd a \<in> set (outbound s) \<or> ShutdownCmd a \<in> set (outbound s)"
  shows "ack_mem (outbound_finish s) a = AckDropped
    \<and> (\<forall>b. fst (shutdown_resume (SdAck a) (outbound_finish s)) \<noteq> Awaiting (SdAck b))
    \<and> fst (poll_flush_waiter a ss (outbound_finish s)) \<noteq> Pending"
proof -
  have "ack_mem (outbound_finish s) = fold drop_ack (outbound s) (ack_mem s)"
    by (simp add: outbound_finish_def task_finished_def close_all_def Let_def)
  then have a: "ack_mem (outbound_finish s) a = AckDropped" using assms by (auto simp: fold_drop_ack)
  then show ?thesis
    by (auto simp: shutdown_ack_def shutdown_tasks_def shutdown_bounded_done_def shutdown_final_def
        poll_flush_waiter_def)
qed

theorem writer_end_releases_acks_witness:
  "ack_mem (outbound_finish (demo_session\<lparr>outbound := [ShutdownCmd 4]\<rparr>)) 4 = AckDropped"
  using writer_end_releases_acks [of 4 "demo_session\<lparr>outbound := [ShutdownCmd 4]\<rparr>"] by simp

section \<open>Identifiers\<close>

text \<open>The identifiers of \<open>n\<close> streams opened in a row, and their admission by the peer.\<close>

fun open_ids :: "nat \<Rightarrow> stream_dir \<Rightarrow> session \<Rightarrow> (stream_id list \<times> session) option" where
  "open_ids 0 d s = Some ([], s)"
| "open_ids (Suc n) d s = (case next_stream_id d s of
     (Inl _, _) \<Rightarrow> None
   | (Inr i, s1) \<Rightarrow> map_option (\<lambda>(ids, s2). (i # ids, s2)) (open_ids n d s1))"

fun admits :: "stream_id list \<Rightarrow> session \<Rightarrow> bool" where
  "admits [] p = True"
| "admits (i # ids) p =
     (let (b, p1) = validate_peer_stream_id i p in b \<and> initiator_is_server i = peer_is_server p \<and> admits ids p1)"

definition next_counter :: "stream_dir \<Rightarrow> session \<Rightarrow> u64" where
  "next_counter d s = (case d of Uni \<Rightarrow> next_uni s | Bi \<Rightarrow> next_bi s)"

lemma next_stream_id_counter:
  assumes "next_stream_id d s = (Inr i, s1)"
  shows "stream_id_counter i = next_counter d s" "stream_id_dir i = d" "initiator_is_server i = is_server s"
    "unat (next_counter d s1) = Suc (unat (next_counter d s))" "is_server s1 = is_server s"
proof -
  show c: "stream_id_counter i = next_counter d s" "stream_id_dir i = d" "initiator_is_server i = is_server s"
    using next_stream_id_result [OF assms] by (simp_all add: next_counter_def)
  show "is_server s1 = is_server s" by (rule next_stream_id_fields [OF assms])
  have "unat (next_counter d s) < 2 ^ 62" using counter_less [of i] c(1) by simp
  then have "unat (next_counter d s + 1) = Suc (unat (next_counter d s))"
    by (subst unat_add_no_wrap) auto
  moreover have "next_counter d s1 = next_counter d s + 1"
    using assms by (auto simp: next_stream_id_def next_counter_def
        split: stream_dir.splits sum.splits varint_bounds_exceeded.splits)
  ultimately show "unat (next_counter d s1) = Suc (unat (next_counter d s))" by simp
qed

lemma validate_peer_frontier:
  assumes "stream_id_dir i = d" "unat (peer_frontier d p) \<le> unat (stream_id_counter i)"
  obtains p1 where "validate_peer_stream_id i p = (True, p1)" "is_server p1 = is_server p"
    "unat (peer_frontier d p1) = Suc (unat (stream_id_counter i))"
proof (cases d)
  case Uni
  show ?thesis
    by (rule that [of "p\<lparr>next_peer_uni := saturating_add (stream_id_counter i) 1\<rparr>"])
      (use assms Uni in \<open>simp_all add: validate_peer_stream_id_def peer_frontier_def word_less_nat_alt unat_counter_succ\<close>)
next
  case Bi
  show ?thesis
    by (rule that [of "p\<lparr>next_peer_bi := saturating_add (stream_id_counter i) 1\<rparr>"])
      (use assms Bi in \<open>simp_all add: validate_peer_stream_id_def peer_frontier_def word_less_nat_alt unat_counter_succ\<close>)
qed

text \<open>
  The two sides agree on identifiers. The streams a session opens in a row in one direction get
  distinct identifiers of that direction with strictly increasing counters from the next one on, and a
  peer in the other role whose frontier has not passed them admits every one of them in order.
\<close>

lemma opened_ids_admitted:
  assumes "open_ids n d s = Some (ids, s')" "is_server p \<noteq> is_server s"
    and "unat (peer_frontier d p) \<le> unat (next_counter d s)"
  shows "admits ids p \<and> length ids = n \<and> list_all (\<lambda>i. stream_id_dir i = d) ids
    \<and> map (\<lambda>i. unat (stream_id_counter i)) ids = [unat (next_counter d s) ..< unat (next_counter d s) + n]"
  using assms
proof (induction n arbitrary: s ids p)
  case (Suc n)
  obtain i s1 ids1 where i: "next_stream_id d s = (Inr i, s1)" "open_ids n d s1 = Some (ids1, s')" "ids = i # ids1"
    using Suc.prems(1) by (auto split: prod.splits sum.splits)
  note c = next_stream_id_counter [OF i(1)]
  obtain p1 where p1: "validate_peer_stream_id i p = (True, p1)" "is_server p1 = is_server p"
      "unat (peer_frontier d p1) = Suc (unat (stream_id_counter i))"
    using validate_peer_frontier [OF c(2)] Suc.prems(3) c(1) by metis
  have "admits ids1 p1 \<and> length ids1 = n \<and> list_all (\<lambda>i. stream_id_dir i = d) ids1
      \<and> map (\<lambda>i. unat (stream_id_counter i)) ids1 = [unat (next_counter d s1) ..< unat (next_counter d s1) + n]"
    by (rule Suc.IH [OF i(2)]) (use Suc.prems(2) c p1 in auto)
  then show ?case
    using i(3) c p1 Suc.prems(2) by (auto simp: peer_is_server_def upt_conv_Cons)
qed simp

end
