(* ===== verification/Wasm_State.thy ===== *)
theory Wasm_State
  imports Session_Api Session_Tasks
begin

text \<open>
  The browser session (\<open>websock-wasm-mux/src/session.rs\<close>): limits, send flow, and the primitive
  operations of \<open>SessionInner\<close>. It is a separate implementation of the protocol for a single-threaded
  client over \<open>Rc\<close> cells and the channels of \<open>futures_channel\<close>. Its state is the record \<open>session\<close> with
  \<open>is_server = False\<close>; \<open>outbound_rx\<close> says that the outbound channel is open, and \<open>active_tasks = 0\<close>
  that the session task has finished.

  Whether a \<open>futures_channel\<close> sender has a free slot depends on the slots of its clones; the answers
  are the parameter \<open>chan_env\<close>, given the number of messages waiting. Every call has its own parameter,
  because it uses one sender, whose reserved slot may have been used before. \<open>chan_env_ok\<close> states what
  the library documents: a channel accepts at least as many messages as its buffer.
\<close>

record chan_env =
  out_room :: "nat \<Rightarrow> bool"
  uni_room :: "nat \<Rightarrow> bool"
  bi_room :: "nat \<Rightarrow> bool"
  ev_room :: "nat \<Rightarrow> bool"

definition chan_env_ok :: "limits \<Rightarrow> chan_env \<Rightarrow> bool" where
  "chan_env_ok l e \<longleftrightarrow>
     (\<forall>n < outbound_queue_len l. out_room e n) \<and> (\<forall>n < accept_uni_queue_len l. uni_room e n)
     \<and> (\<forall>n < accept_bi_queue_len l. bi_room e n) \<and> (\<forall>n < recv_event_queue_len l. ev_room e n)"

section \<open>Limits\<close>

definition wasm_limits_default :: limits where
  "wasm_limits_default = \<lparr>
     max_ws_message_size = 1024 * 1024,
     max_stream_data_per_frame = 256 * 1024,
     max_open_streams = 1024,
     recv_event_queue_len = 128,
     outbound_queue_len = 256,
     max_batch_frames = 64,
     max_batch_bytes = 512 * 1024,
     initial_stream_window = 512 * 1024,
     stream_window_update_threshold = 256 * 1024,
     accept_uni_queue_len = 128,
     accept_bi_queue_len = 128\<rparr>"

definition wasm_limits_validate :: "nat \<Rightarrow> limits \<Rightarrow> error + unit" where
  "wasm_limits_validate w l =
     (let non_zero =
        [(''max_ws_message_size'', max_ws_message_size l),
         (''max_stream_data_per_frame'', max_stream_data_per_frame l),
         (''max_open_streams'', max_open_streams l),
         (''recv_event_queue_len'', recv_event_queue_len l),
         (''outbound_queue_len'', outbound_queue_len l),
         (''max_batch_frames'', max_batch_frames l),
         (''max_batch_bytes'', max_batch_bytes l),
         (''initial_stream_window'', initial_stream_window l),
         (''stream_window_update_threshold'', stream_window_update_threshold l),
         (''accept_uni_queue_len'', accept_uni_queue_len l),
         (''accept_bi_queue_len'', accept_bi_queue_len l)]
      in case find (\<lambda>(_, v). v = 0) non_zero of
           Some (name, _) \<Rightarrow> Inl (Protocol (name @ '' must be greater than zero''))
         | None \<Rightarrow>
             if max_stream_data_per_frame l > max_ws_message_size l then
               Inl (Protocol ''max_stream_data_per_frame must not exceed max_ws_message_size'')
             else if max_batch_bytes l > max_ws_message_size l then
               Inl (Protocol ''max_batch_bytes must not exceed max_ws_message_size'')
             else if max_batch_bytes l < usize_saturating_add w (max_stream_data_per_frame l) 33 then
               Inl (Protocol ''max_batch_bytes must accommodate a maximum-size stream frame'')
             else if stream_window_update_threshold l > initial_stream_window l then
               Inl (Protocol ''stream_window_update_threshold must not exceed initial_stream_window'')
             else if max_ws_message_size l > unat (into_inner varint_MAX)
                   \<or> initial_stream_window l > unat (into_inner varint_MAX) then
               Inl (Protocol ''byte and flow-control limits must fit in a mux varint'')
             else Inr ())"

section \<open>Send flow\<close>

text \<open>On the single thread of the browser a compare-exchange loop succeeds in its first round.\<close>

definition wasm_flow_new :: "u64 \<Rightarrow> send_flow" where
  "wasm_flow_new initial_max =
     \<lparr>max_data = initial_max, sent_data = 0, flow_closed = False, waker = False, wakes = 0\<rparr>"

definition wasm_try_reserve :: "nat \<Rightarrow> send_flow \<Rightarrow> nat \<times> send_flow" where
  "wasm_try_reserve requested f =
     (if requested = 0 \<or> flow_closed f then (0, f)
      else if max_data f \<le> sent_data f then (0, f)
      else let available = max_data f - sent_data f; grant = min available (of_nat requested)
           in (unat grant, f\<lparr>sent_data := sent_data f + grant\<rparr>))"

definition wasm_release :: "nat \<Rightarrow> send_flow \<Rightarrow> send_flow" where
  "wasm_release n f = (if n = 0 then f else f\<lparr>sent_data := sent_data f - of_nat n\<rparr>)"

definition wasm_update_max :: "u64 \<Rightarrow> send_flow \<Rightarrow> send_flow" where
  "wasm_update_max m f =
     (if flow_closed f then f
      else if m > max_data f then waker_wake (f\<lparr>max_data := m\<rparr>) else f)"

definition wasm_flow_close :: "send_flow \<Rightarrow> send_flow" where
  "wasm_flow_close f = waker_wake (f\<lparr>flow_closed := True\<rparr>)"

section \<open>The session\<close>

definition wasm_session_inner_new :: "limits \<Rightarrow> session" where
  "wasm_session_inner_new l = \<lparr>
     is_server = False, limits_of = l, outbound = [], outbound_rx = True,
     pending_credit = [], credit_notify = False, accept_uni_tx = True, accept_bi_tx = True,
     streams = [], send_flows = [],
     next_uni = 0, next_bi = 0, next_peer_uni = 0, next_peer_bi = 0,
     closed = False, shutdown_started = False, peer_closed = False, peer_close_notify = False,
     session_handles = 1, active_tasks = 1, cancelled = False,
     accept_rx = True, accept_uni_queue = [], accept_bi_queue = [],
     flow_mem = (\<lambda>_. wasm_flow_new 0),
     chan_mem = (\<lambda>_. \<lparr>items = [], rx_open = False, chan_max = 0\<rparr>),
     shared_mem = (\<lambda>_. \<lparr>ss_finished = False, operation = False, api_mode = 0, handles = 0\<rparr>),
     ack_mem = (\<lambda>_. AckPending), next_ref = 0\<rparr>"

text \<open>\<open>close_channel\<close> refuses further messages; the receiver still gets those that are queued.\<close>

definition wasm_request_shutdown :: "session \<Rightarrow> session" where
  "wasm_request_shutdown s =
     (if shutdown_started s then s else s\<lparr>shutdown_started := True, outbound_rx := False\<rparr>)"

definition wasm_try_send_frame :: "chan_env \<Rightarrow> frame \<Rightarrow> session \<Rightarrow> (error + unit) \<times> session" where
  "wasm_try_send_frame e f s =
     (if \<not> outbound_rx s \<or> \<not> out_room e (length (outbound s)) then (Inl Closed, s)
      else (Inr (), outbound_push (FrameCmd f) s))"

definition wasm_send_frame :: "chan_env \<Rightarrow> frame \<Rightarrow> session \<Rightarrow> (error + unit) \<times> session" where
  "wasm_send_frame e f s = wasm_try_send_frame e f s"

definition wasm_close_all :: "session \<Rightarrow> session" where
  "wasm_close_all s =
     (if closed s then s
      else let s1 = s\<lparr>closed := True, pending_credit := [], streams := []\<rparr>;
               s2 = s1\<lparr>flow_mem := fold (\<lambda>(_, r) m. m(r := wasm_flow_close (m r))) (send_flows s1) (flow_mem s1),
                       send_flows := []\<rparr>
           in s2\<lparr>accept_uni_tx := False, accept_bi_tx := False\<rparr>)"

definition wasm_protocol_error :: "chan_env \<Rightarrow> u64 \<Rightarrow> string \<Rightarrow> session \<Rightarrow> (error + unit) \<times> session" where
  "wasm_protocol_error e code reason s =
     (Inl (Protocol reason), wasm_close_all (snd (wasm_try_send_frame e (ConnectionClose code reason) s)))"

definition wasm_finish_task :: "session \<Rightarrow> session" where
  "wasm_finish_task s = s\<lparr>active_tasks := 0\<rparr>"

definition wasm_wait_closed :: "session \<Rightarrow> (error + unit) poll" where
  "wasm_wait_closed s = (if active_tasks s = 0 then Ready (Inr ()) else Pending)"

section \<open>Identifiers\<close>

definition wasm_next_stream_id :: "stream_dir \<Rightarrow> session \<Rightarrow> (error + stream_id) \<times> session" where
  "wasm_next_stream_id dir s =
     (let (n, s') = (case dir of
            Uni \<Rightarrow> (next_uni s, s\<lparr>next_uni := next_uni s + 1\<rparr>)
          | Bi \<Rightarrow> (next_bi s, s\<lparr>next_bi := next_bi s + 1\<rparr>))
      in case stream_id_new n False dir of
           Inl _ \<Rightarrow> (Inl (Protocol (''stream id overflow: '' @ ''value too large for varint encoding'')), s')
         | Inr i \<Rightarrow> (Inr i, s'))"

definition wasm_validate_peer_stream_id :: "stream_id \<Rightarrow> session \<Rightarrow> bool \<times> session" where
  "wasm_validate_peer_stream_id i s =
     (let current = (case stream_id_dir i of Uni \<Rightarrow> next_peer_uni s | Bi \<Rightarrow> next_peer_bi s);
          next = saturating_add (stream_id_counter i) 1
      in if stream_id_counter i < current then (False, s)
         else (True, case stream_id_dir i of
                 Uni \<Rightarrow> s\<lparr>next_peer_uni := next\<rparr> | Bi \<Rightarrow> s\<lparr>next_peer_bi := next\<rparr>))"

definition wasm_is_retired_direction :: "stream_id \<Rightarrow> bool \<Rightarrow> session \<Rightarrow> bool" where
  "wasm_is_retired_direction i receiving s =
     (let local = (\<not> initiator_is_server i) in
      if stream_id_dir i = Uni \<and> local = receiving then False
      else let next = (case (local, stream_id_dir i) of
                  (True, Uni) \<Rightarrow> next_uni s | (True, Bi) \<Rightarrow> next_bi s
                | (False, Uni) \<Rightarrow> next_peer_uni s | (False, Bi) \<Rightarrow> next_peer_bi s)
           in stream_id_counter i < next)"

section \<open>Registration\<close>

definition wasm_register_send_flow :: "stream_id \<Rightarrow> u64 \<Rightarrow> session \<Rightarrow> (error + nat) \<times> session" where
  "wasm_register_send_flow i initial_max s =
     (if max_open_streams (limits_of s) \<le> length (send_flows s) then
        (Inl (Protocol ''too many open send streams''), s)
      else if hm_contains i (send_flows s) then (Inl (Protocol ''duplicate send stream''), s)
      else let r = next_ref s in
        (Inr r, s\<lparr>flow_mem := (flow_mem s)(r := wasm_flow_new initial_max), next_ref := Suc r,
                  send_flows := hm_insert i r (send_flows s)\<rparr>))"

definition wasm_remove_send_flow :: "stream_id \<Rightarrow> session \<Rightarrow> bool \<times> session" where
  "wasm_remove_send_flow i s = (case hm_get (send_flows s) i of
     None \<Rightarrow> (False, s)
   | Some r \<Rightarrow> (True, flow_update r wasm_flow_close (s\<lparr>send_flows := hm_remove i (send_flows s)\<rparr>)))"

definition wasm_register_recv_stream :: "stream_id \<Rightarrow> session \<Rightarrow> recv_stream \<times> session" where
  "wasm_register_recv_stream i s =
     (let r = next_ref s; window = of_nat (initial_stream_window (limits_of s)) in
      (\<lparr>rv_id = i, receiver = r, rv_finished = False, rv_pending = [], consumed = 0, granted = window,
        initial_window = window,
        update_threshold = of_nat (stream_window_update_threshold (limits_of s)), stop_sent = False\<rparr>,
       s\<lparr>chan_mem := (chan_mem s)(r := \<lparr>items = [], rx_open = True, chan_max = window\<rparr>),
         next_ref := Suc r,
         streams := hm_insert i \<lparr>stopped = False, sender = r, received = 0\<rparr> (streams s)\<rparr>))"

definition wasm_stop_recv_stream :: "stream_id \<Rightarrow> session \<Rightarrow> bool \<times> session" where
  "wasm_stop_recv_stream i s = (case hm_get (streams s) i of
     None \<Rightarrow> (False, s)
   | Some st \<Rightarrow> (True, s\<lparr>streams := hm_insert i (st\<lparr>stopped := True\<rparr>) (streams s),
                        pending_credit := hm_remove i (pending_credit s)\<rparr>))"

section \<open>Credit\<close>

definition wasm_queue_credit :: "stream_id \<Rightarrow> u64 \<Rightarrow> session \<Rightarrow> session" where
  "wasm_queue_credit i maximum s =
     (if (case hm_get (streams s) i of None \<Rightarrow> True | Some st \<Rightarrow> stopped st) then s
      else let cap = max_open_streams (limits_of s);
               pending = (if cap \<le> length (pending_credit s)
                          then hm_retain (\<lambda>k. hm_contains k (streams s)) (pending_credit s)
                          else pending_credit s)
           in if cap \<le> length pending \<and> \<not> hm_contains i pending
              then wasm_request_shutdown (s\<lparr>pending_credit := pending\<rparr>)
              else let m = (case hm_get pending i of None \<Rightarrow> maximum | Some old \<Rightarrow> max old maximum)
                   in s\<lparr>pending_credit := hm_insert i m pending, credit_notify := True\<rparr>)"

text \<open>\<open>k\<close> is the key that \<open>keys().next()\<close> yields, when it is in the map.\<close>

definition wasm_next_credit :: "stream_id \<Rightarrow> session \<Rightarrow> frame poll \<times> session" where
  "wasm_next_credit k s = (case pending_credit s of
     [] \<Rightarrow> (Pending, s\<lparr>credit_notify := False\<rparr>)
   | (k0, m0) # _ \<Rightarrow>
       (let (i, m) = (case hm_get (pending_credit s) k of Some m \<Rightarrow> (k, m) | None \<Rightarrow> (k0, m0))
        in (Ready (MaxStreamData i m), s\<lparr>pending_credit := hm_remove i (pending_credit s)\<rparr>)))"

end
