(* ===== verification/Wasm_Streams.thy ===== *)
theory Wasm_Streams
  imports Wasm_State
begin

text \<open>
  The stream handles of the browser session. A send handle owns a clone of the outbound sender; its
  answers come from \<open>out_room\<close> like those of the session's own sender. \<open>select_api\<close>, \<open>begin_operation\<close>
  and the operation guard are the same code as in the native session and are shared with it; the field
  \<open>fin_queued\<close> of the handle is \<open>close_in_flight\<close>.
\<close>

section \<open>Writing\<close>

definition wasm_session_closed :: "session \<Rightarrow> bool" where
  "wasm_session_closed s \<longleftrightarrow> closed s \<or> shutdown_started s"

definition wasm_send_stream_new :: "stream_id \<Rightarrow> nat \<Rightarrow> session \<Rightarrow> send_stream \<times> session" where
  "wasm_send_stream_new i flow s =
     (let r = next_ref s in
      (\<lparr>ss_id = i, ss_shared = r, ss_flow = flow, flush_waiter = None, fin_queued = False\<rparr>,
       s\<lparr>shared_mem := (shared_mem s)
            (r := \<lparr>ss_finished = False, operation = False, api_mode = 0, handles = 1\<rparr>),
         next_ref := Suc r\<rparr>))"

text \<open>The first \<open>poll_fn\<close> of the write loop: register, reserve, and decide whether to wait.\<close>

definition wasm_reserve_poll :: "nat \<Rightarrow> send_stream \<Rightarrow> session \<Rightarrow> (error + nat) poll \<times> session" where
  "wasm_reserve_poll wanted ss s =
     (let s1 = flow_update (ss_flow ss) waker_register s;
          (n, flow) = wasm_try_reserve wanted (flow_mem s1 (ss_flow ss));
          s2 = flow_update (ss_flow ss) (\<lambda>_. flow) s1
      in if n = 0 then
           (if flow_closed (flow_mem s2 (ss_flow ss)) \<or> ss_finished (shared_mem s2 (ss_shared ss))
               \<or> wasm_session_closed s2
            then (Ready (Inl Closed), s2) else (Pending, s2))
         else (Ready (Inr n), s2))"

text \<open>The second \<open>poll_fn\<close>: hand the frame to the channel unless the stream was closed meanwhile.\<close>

definition wasm_queue_poll :: "chan_env \<Rightarrow> frame \<Rightarrow> send_stream \<Rightarrow> session \<Rightarrow> (error + unit) poll \<times> session" where
  "wasm_queue_poll e f ss s =
     (let s1 = flow_update (ss_flow ss) waker_register s in
      if flow_closed (flow_mem s1 (ss_flow ss)) then (Ready (Inl Closed), s1)
      else if \<not> outbound_rx s1 then (Ready (Inl Closed), s1)
      else if \<not> out_room e (length (outbound s1)) then (Pending, s1)
      else (Ready (Inr ()), outbound_push (FrameCmd f) s1))"

function wasm_write_loop ::
  "chan_env \<Rightarrow> send_stream \<Rightarrow> bytes \<Rightarrow> session \<Rightarrow> (wb_await, error + unit) async \<times> session" where
  "wasm_write_loop e ss rest s =
     (if rest = [] then (Finished (Inr ()), s)
      else let wanted = min (min (length rest) (16 * 1024)) (max_stream_data_per_frame (limits_of s)) in
        if wanted = 0 then (Finished (Inl (Protocol ''stream frame payload limit is zero'')), s)
        else case wasm_reserve_poll wanted ss s of
          (Pending, s1) \<Rightarrow> (Awaiting (WbCredit rest), s1)
        | (Ready (Inl err), s1) \<Rightarrow> (Finished (Inl err), s1)
        | (Ready (Inr n), s1) \<Rightarrow>
            (case wasm_queue_poll e (Stream (ss_id ss) (take n rest) False) ss s1 of
               (Pending, s2) \<Rightarrow> (Awaiting (WbSend rest n), s2)
             | (Ready (Inl _), s2) \<Rightarrow> (Finished (Inl Closed), flow_update (ss_flow ss) (wasm_release n) s2)
             | (Ready (Inr _), s2) \<Rightarrow> wasm_write_loop e ss (drop n rest) s2))"
  by pat_completeness auto
termination
  by (relation "measure (\<lambda>(e, ss, rest, s). length rest)")
    (auto simp: wasm_reserve_poll_def Let_def split: if_splits prod.splits)

declare wasm_write_loop.simps [simp del]

definition wasm_write_buf ::
  "chan_env \<Rightarrow> send_stream \<Rightarrow> bytes \<Rightarrow> session \<Rightarrow> (wb_await, error + unit) async \<times> session" where
  "wasm_write_buf e ss d = guarded 1 ss (\<lambda>s.
     if ss_finished (shared_mem s (ss_shared ss)) \<or> flow_closed (flow_mem s (ss_flow ss))
        \<or> wasm_session_closed s
     then (Finished (Inl Closed), s) else wasm_write_loop e ss d s)"

fun wasm_write_buf_resume ::
  "chan_env \<Rightarrow> send_stream \<Rightarrow> wb_await \<Rightarrow> session \<Rightarrow> (wb_await, error + unit) async \<times> session" where
  "wasm_write_buf_resume e ss (WbCredit rest) s = end_guarded ss (wasm_write_loop e ss rest s)"
| "wasm_write_buf_resume e ss (WbSend rest n) s =
     end_guarded ss (case wasm_queue_poll e (Stream (ss_id ss) (take n rest) False) ss s of
       (Pending, s1) \<Rightarrow> (Awaiting (WbSend rest n), s1)
     | (Ready (Inl _), s1) \<Rightarrow> (Finished (Inl Closed), flow_update (ss_flow ss) (wasm_release n) s1)
     | (Ready (Inr _), s1) \<Rightarrow> wasm_write_loop e ss (drop n rest) s1)"

text \<open>Dropping a suspended write: the guard of \<open>complete_or_abort\<close> fires, then the operation ends.\<close>

definition wasm_write_cancel :: "send_stream \<Rightarrow> session \<Rightarrow> session" where
  "wasm_write_cancel ss s = end_operation ss (wasm_request_shutdown s)"

section \<open>Finishing and resetting\<close>

text \<open>Operations without suspension: the guard is held from \<open>begin_operation\<close> to the return.\<close>

definition wasm_guarded ::
  "u64 \<Rightarrow> send_stream \<Rightarrow> (session \<Rightarrow> (error + unit) \<times> session) \<Rightarrow> session \<Rightarrow> (error + unit) \<times> session" where
  "wasm_guarded mode ss body s = (case begin_operation mode ss s of
     (Inl err, s1) \<Rightarrow> (Inl err, s1)
   | (Inr _, s1) \<Rightarrow> (let (r, s2) = body s1 in (r, end_operation ss s2)))"

definition wasm_finish :: "chan_env \<Rightarrow> send_stream \<Rightarrow> session \<Rightarrow> (error + unit) \<times> session" where
  "wasm_finish e ss = wasm_guarded 1 ss (\<lambda>s.
     if ss_finished (shared_mem s (ss_shared ss)) then (Inr (), s)
     else if flow_closed (flow_mem s (ss_flow ss)) \<or> wasm_session_closed s then (Inl Closed, s)
     else let s1 = shared_update (ss_shared ss) (\<lambda>c. c\<lparr>ss_finished := True\<rparr>) s in
       case wasm_send_frame e (Stream (ss_id ss) [] True) s1 of
         (Inl err, s2) \<Rightarrow> (Inl err, s2)
       | (Inr _, s2) \<Rightarrow> (Inr (), snd (wasm_remove_send_flow (ss_id ss) s2)))"

definition wasm_reset :: "chan_env \<Rightarrow> u64 \<Rightarrow> send_stream \<Rightarrow> session \<Rightarrow> (error + unit) \<times> session" where
  "wasm_reset e code ss = wasm_guarded 0 ss (\<lambda>s. case from_u64 code of
     Inl _ \<Rightarrow> (Inl (Protocol ''reset code exceeds mux varint range''), s)
   | Inr _ \<Rightarrow>
       (let s1 = shared_update (ss_shared ss) (\<lambda>c. c\<lparr>ss_finished := True\<rparr>) s;
            s2 = snd (wasm_remove_send_flow (ss_id ss) s1)
        in wasm_send_frame e (ResetStream (ss_id ss) code) s2))"

definition wasm_send_closed :: "send_stream \<Rightarrow> session \<Rightarrow> bool" where
  "wasm_send_closed ss s \<longleftrightarrow> ss_finished (shared_mem s (ss_shared ss))
     \<or> flow_closed (flow_mem s (ss_flow ss)) \<or> wasm_session_closed s"

definition wasm_send_stream_clone :: "send_stream \<Rightarrow> session \<Rightarrow> send_stream \<times> session" where
  "wasm_send_stream_clone ss s =
     (ss\<lparr>fin_queued := False\<rparr>,
      shared_update (ss_shared ss) (\<lambda>c. c\<lparr>handles := Suc (handles c)\<rparr>) s)"

definition wasm_send_stream_drop :: "chan_env \<Rightarrow> send_stream \<Rightarrow> session \<Rightarrow> session" where
  "wasm_send_stream_drop e ss s =
     (let sh = shared_mem s (ss_shared ss);
          gone = shared_update (ss_shared ss) (\<lambda>c. c\<lparr>handles := handles c - 1\<rparr>)
      in if handles sh \<noteq> 1 then gone s
         else let s1 = snd (wasm_remove_send_flow (ss_id ss) s) in
           gone (if ss_finished sh then s1
                 else case wasm_try_send_frame e (ResetStream (ss_id ss) 0) s1 of
                   (Inl _, s2) \<Rightarrow> wasm_request_shutdown s2 | (Inr _, s2) \<Rightarrow> s2))"

section \<open>The AsyncWrite interface\<close>

text \<open>\<open>poll_ready\<close> of the handle's own sender.\<close>

definition wasm_poll_ready :: "chan_env \<Rightarrow> session \<Rightarrow> (unit + unit) poll" where
  "wasm_poll_ready e s =
     (if \<not> outbound_rx s then Ready (Inl ())
      else if out_room e (length (outbound s)) then Ready (Inr ()) else Pending)"

definition wasm_poll_write_body ::
  "chan_env \<Rightarrow> send_stream \<Rightarrow> bytes \<Rightarrow> session \<Rightarrow> (io_error + nat) poll \<times> session" where
  "wasm_poll_write_body e ss buf s =
     (if buf = [] then (Ready (Inr 0), s)
      else if wasm_send_closed ss s then (Ready (Inl io_closed), s)
      else let s1 = flow_update (ss_flow ss) waker_register s;
               wanted = min (min (length buf) (16 * 1024)) (max_stream_data_per_frame (limits_of s1))
           in if wanted = 0 then
                (Ready (Inl (IoError InvalidInput ''stream frame payload limit is zero'')), s1)
              else let (n, flow) = wasm_try_reserve wanted (flow_mem s1 (ss_flow ss));
                       s2 = flow_update (ss_flow ss) (\<lambda>_. flow) s1;
                       undo = flow_update (ss_flow ss) (wasm_release n)
                   in if n = 0 then
                        (if flow_closed (flow_mem s2 (ss_flow ss)) \<or> wasm_session_closed s2
                         then (Ready (Inl io_closed), s2) else (Pending, s2))
                      else case wasm_poll_ready e s2 of
                        Pending \<Rightarrow> (Pending, undo s2)
                      | Ready (Inl _) \<Rightarrow> (Ready (Inl io_closed), undo s2)
                      | Ready (Inr _) \<Rightarrow>
                          (Ready (Inr n), outbound_push (FrameCmd (Stream (ss_id ss) (take n buf) False)) s2))"

definition wasm_poll_write ::
  "chan_env \<Rightarrow> send_stream \<Rightarrow> bytes \<Rightarrow> session \<Rightarrow> (io_error + nat) poll \<times> session" where
  "wasm_poll_write e ss buf s = (case select_api 2 ss s of
     (Inl err, s1) \<Rightarrow> (Ready (Inl (io_other err)), s1)
   | (Inr _, s1) \<Rightarrow>
       (case begin_operation 2 ss s1 of
          (Inl err, s2) \<Rightarrow> (Ready (Inl (io_other err)), s2)
        | (Inr _, s2) \<Rightarrow>
            (let (r, s3) = wasm_poll_write_body e ss buf s2 in (r, end_operation ss s3))))"

definition wasm_ready_result :: "(unit + unit) poll \<Rightarrow> (io_error + unit) poll" where
  "wasm_ready_result p = (case p of
     Pending \<Rightarrow> Pending | Ready (Inl _) \<Rightarrow> Ready (Inl io_closed) | Ready (Inr _) \<Rightarrow> Ready (Inr ()))"

definition wasm_poll_flush ::
  "chan_env \<Rightarrow> send_stream \<Rightarrow> session \<Rightarrow> (io_error + unit) poll \<times> session" where
  "wasm_poll_flush e ss s = (case select_api 2 ss s of
     (Inl err, s1) \<Rightarrow> (Ready (Inl (io_other err)), s1)
   | (Inr _, s1) \<Rightarrow> (wasm_ready_result (wasm_poll_ready e s1), s1))"

definition wasm_poll_close ::
  "chan_env \<Rightarrow> send_stream \<Rightarrow> session \<Rightarrow> (io_error + unit) poll \<times> send_stream \<times> session" where
  "wasm_poll_close e ss s = (case select_api 2 ss s of
     (Inl err, s1) \<Rightarrow> (Ready (Inl (io_other err)), ss, s1)
   | (Inr _, s1) \<Rightarrow>
       (let finished = ss_finished (shared_mem s1 (ss_shared ss)) in
        if \<not> finished \<and> (flow_closed (flow_mem s1 (ss_flow ss)) \<or> wasm_session_closed s1)
        then (Ready (Inl io_closed), ss, s1)
        else if \<not> finished \<and> \<not> fin_queued ss then
          (case wasm_poll_ready e s1 of
             Pending \<Rightarrow> (Pending, ss, s1)
           | Ready (Inl _) \<Rightarrow> (Ready (Inl io_closed), ss, s1)
           | Ready (Inr _) \<Rightarrow>
               (let s2 = outbound_push (FrameCmd (Stream (ss_id ss) [] True)) s1;
                    s3 = shared_update (ss_shared ss) (\<lambda>c. c\<lparr>ss_finished := True\<rparr>) s2;
                    s4 = snd (wasm_remove_send_flow (ss_id ss) s3)
                in (wasm_ready_result (wasm_poll_ready e s4), ss\<lparr>fin_queued := True\<rparr>, s4)))
        else (wasm_ready_result (wasm_poll_ready e s1), ss, s1)))"

end
