(* ===== verification/Wasm_Session.thy ===== *)
theory Wasm_Session
  imports Wasm_Streams
begin

text \<open>
  The receive handle, the frame handler, the session handle and the single task of the browser
  session. The handler never suspends: control frames are queued with \<open>try_send\<close>, and the only locks
  it awaits are free on the single thread.
\<close>

section \<open>Reading\<close>

definition wasm_on_bytes_consumed :: "nat \<Rightarrow> recv_stream \<Rightarrow> session \<Rightarrow> recv_stream \<times> session" where
  "wasm_on_bytes_consumed n rv s =
     (if n = 0 then (rv, s)
      else let rv1 = rv\<lparr>consumed := saturating_add (consumed rv) (of_nat n)\<rparr>;
               target = min (saturating_add (consumed rv1) (initial_window rv1)) (into_inner varint_MAX)
           in if target \<le> granted rv1 then (rv1, s)
              else if target - granted rv1 < update_threshold rv1 then (rv1, s)
              else if rv_finished rv1 \<or> stop_sent rv1 then (rv1, s)
              else (rv1\<lparr>granted := target\<rparr>,
                    wasm_queue_credit (rv_id rv1) target
                      (chan_update (receiver rv1) (\<lambda>c. c\<lparr>chan_max := target\<rparr>) s)))"

text \<open>The copy out of \<open>pending\<close> that ends \<open>read\<close>, \<open>read_buf\<close> and the first branch of \<open>poll_read\<close>.\<close>

definition wasm_take_pending :: "nat \<Rightarrow> recv_stream \<Rightarrow> session \<Rightarrow> bytes \<times> recv_stream \<times> session" where
  "wasm_take_pending n rv s =
     (let amt = min n (length (rv_pending rv)); out = take amt (rv_pending rv);
          (rv1, s1) = wasm_on_bytes_consumed amt (rv\<lparr>rv_pending := drop amt (rv_pending rv)\<rparr>) s
      in (out, rv1, s1))"

definition wasm_read_chunk_internal ::
  "recv_stream \<Rightarrow> session \<Rightarrow> (error + bytes option) poll \<times> recv_stream \<times> session" where
  "wasm_read_chunk_internal rv s = (case chan_recv (receiver rv) s of
     (Pending, s1) \<Rightarrow> (Pending, rv, s1)
   | (Ready (Some ev), s1) \<Rightarrow>
       (let rv1 = (if ev_fin ev then rv\<lparr>rv_finished := True\<rparr> else rv) in
        if ev_data ev = [] \<and> ev_fin ev then (Ready (Inr None), rv1, s1)
        else (Ready (Inr (Some (ev_data ev))), rv1, s1))
   | (Ready None, s1) \<Rightarrow> (Ready (Inr None), rv\<lparr>rv_finished := True\<rparr>, s1))"

definition wasm_read ::
  "nat \<Rightarrow> recv_stream \<Rightarrow> session \<Rightarrow> (error + bytes option) poll \<times> recv_stream \<times> session" where
  "wasm_read n rv s =
     (if n = 0 then (Ready (Inr (Some [])), rv, s)
      else if rv_pending rv = [] then
        (if rv_finished rv then (Ready (Inr None), rv, s)
         else case wasm_read_chunk_internal rv s of
           (Ready (Inr (Some chunk)), rv1, s1) \<Rightarrow>
             apfst (\<lambda>out. Ready (Inr (Some out))) (wasm_take_pending n (rv1\<lparr>rv_pending := chunk\<rparr>) s1)
         | other \<Rightarrow> other)
      else apfst (\<lambda>out. Ready (Inr (Some out))) (wasm_take_pending n rv s))"

text \<open>\<open>read_buf\<close> with \<open>n = remaining_mut()\<close>.\<close>

definition wasm_read_buf ::
  "nat \<Rightarrow> recv_stream \<Rightarrow> session \<Rightarrow> (error + bytes option) poll \<times> recv_stream \<times> session" where
  "wasm_read_buf n rv s =
     (if n = 0 then (Ready (Inr (Some [])), rv, s)
      else if rv_pending rv = [] \<and> rv_finished rv then (Ready (Inr None), rv, s)
      else if rv_pending rv = [] then
        (case wasm_read_chunk_internal rv s of
           (Ready (Inr (Some chunk)), rv1, s1) \<Rightarrow>
             apfst (\<lambda>out. Ready (Inr (Some out))) (wasm_take_pending n (rv1\<lparr>rv_pending := chunk\<rparr>) s1)
         | other \<Rightarrow> other)
      else apfst (\<lambda>out. Ready (Inr (Some out))) (wasm_take_pending n rv s))"

definition wasm_read_chunk ::
  "nat \<Rightarrow> recv_stream \<Rightarrow> session \<Rightarrow> (error + bytes option) poll \<times> recv_stream \<times> session" where
  "wasm_read_chunk mx rv s =
     (if mx = 0 then (Ready (Inl (Protocol ''read_chunk max must be greater than zero'')), rv, s)
      else if rv_pending rv \<noteq> [] then
        (let amount = min (length (rv_pending rv)) mx; chunk = take amount (rv_pending rv);
             (rv1, s1) = wasm_on_bytes_consumed (length chunk)
                           (rv\<lparr>rv_pending := drop amount (rv_pending rv)\<rparr>) s
         in (Ready (Inr (Some chunk)), rv1, s1))
      else if rv_finished rv then (Ready (Inr None), rv, s)
      else case chan_recv (receiver rv) s of
        (Pending, s1) \<Rightarrow> (Pending, rv, s1)
      | (Ready None, s1) \<Rightarrow> (Ready (Inr None), rv\<lparr>rv_finished := True\<rparr>, s1)
      | (Ready (Some ev), s1) \<Rightarrow>
          (let rv1 = (if ev_fin ev then rv\<lparr>rv_finished := True\<rparr> else rv) in
           if ev_data ev = [] \<and> ev_fin ev then (Ready (Inr None), rv1, s1)
           else if mx < length (ev_data ev) then
             (let chunk = take mx (ev_data ev);
                  (rv2, s2) = wasm_on_bytes_consumed (length chunk)
                                (rv1\<lparr>rv_pending := drop mx (ev_data ev)\<rparr>) s1
              in (Ready (Inr (Some chunk)), rv2, s2))
           else
             (let (rv2, s2) = wasm_on_bytes_consumed (length (ev_data ev)) rv1 s1
              in (Ready (Inr (Some (ev_data ev))), rv2, s2))))"

function wasm_poll_read_loop ::
  "nat \<Rightarrow> recv_stream \<Rightarrow> session \<Rightarrow> bytes poll \<times> recv_stream \<times> session" where
  "wasm_poll_read_loop n rv s = (case chan_recv (receiver rv) s of
     (Pending, s1) \<Rightarrow> (Pending, rv, s1)
   | (Ready None, s1) \<Rightarrow> (Ready [], rv\<lparr>rv_finished := True\<rparr>, s1)
   | (Ready (Some ev), s1) \<Rightarrow>
       (let rv1 = (if ev_fin ev then rv\<lparr>rv_finished := True\<rparr> else rv) in
        if ev_data ev = [] then
          (if ev_fin ev then (Ready [], rv1, s1) else wasm_poll_read_loop n rv1 s1)
        else
          (let amt = min (length (ev_data ev)) n;
               rv2 = (if amt < length (ev_data ev) then rv1\<lparr>rv_pending := drop amt (ev_data ev)\<rparr> else rv1);
               (rv3, s3) = wasm_on_bytes_consumed amt rv2 s1
           in (Ready (take amt (ev_data ev)), rv3, s3))))"
  by pat_completeness auto
termination
  by (relation "measure (\<lambda>(n, rv, s). length (items (chan_mem s (receiver rv))))")
    (auto simp: chan_recv_def chan_update_def split: list.splits if_splits)

declare wasm_poll_read_loop.simps [simp del]

definition wasm_poll_read :: "nat \<Rightarrow> recv_stream \<Rightarrow> session \<Rightarrow> bytes poll \<times> recv_stream \<times> session" where
  "wasm_poll_read n rv s =
     (if n = 0 then (Ready [], rv, s)
      else if rv_pending rv \<noteq> [] then apfst Ready (wasm_take_pending n rv s)
      else if rv_finished rv then (Ready [], rv, s)
      else wasm_poll_read_loop n rv s)"

definition wasm_stop ::
  "chan_env \<Rightarrow> u64 \<Rightarrow> recv_stream \<Rightarrow> session \<Rightarrow> (error + unit) \<times> recv_stream \<times> session" where
  "wasm_stop e code rv s = (case from_u64 code of
     Inl _ \<Rightarrow> (Inl (Protocol ''stop code exceeds mux varint range''), rv, s)
   | Inr _ \<Rightarrow>
       if stop_sent rv then (Inr (), rv, s)
       else let rv1 = rv\<lparr>stop_sent := True\<rparr>; (live, s1) = wasm_stop_recv_stream (rv_id rv) s
            in if \<not> live then (Inr (), rv1, s1)
               else let (r, s2) = wasm_send_frame e (StopSending (rv_id rv) code) s1 in (r, rv1, s2))"

definition wasm_recv_stream_drop :: "chan_env \<Rightarrow> recv_stream \<Rightarrow> session \<Rightarrow> session" where
  "wasm_recv_stream_drop e rv s =
     (let (needs_stop, s1) = wasm_stop_recv_stream (rv_id rv) s;
          s2 = (if needs_stop \<and> \<not> rv_finished rv \<and> \<not> stop_sent rv then
                  (case wasm_try_send_frame e (StopSending (rv_id rv) 0) s1 of
                     (Inl _, s') \<Rightarrow> wasm_request_shutdown s' | (Inr _, s') \<Rightarrow> s')
                else s1)
      in chan_update (receiver rv) (\<lambda>c. c\<lparr>items := [], rx_open := False\<rparr>) s2)"

section \<open>Frames\<close>

definition wasm_initial_credit :: "stream_id \<Rightarrow> session \<Rightarrow> frame" where
  "wasm_initial_credit i s = MaxStreamData i (of_nat (initial_stream_window (limits_of s)))"

definition wasm_drop_pair :: "chan_env \<Rightarrow> send_stream \<Rightarrow> recv_stream \<Rightarrow> session \<Rightarrow> session" where
  "wasm_drop_pair e ss rv s = wasm_recv_stream_drop e rv (wasm_send_stream_drop e ss s)"

definition wasm_handle_open_uni :: "chan_env \<Rightarrow> stream_id \<Rightarrow> session \<Rightarrow> (error + unit) \<times> session" where
  "wasm_handle_open_uni e i s =
     (if stream_id_dir i \<noteq> Uni then wasm_protocol_error e 1 ''OpenUni with non-uni StreamId'' s
      else if \<not> initiator_is_server i then wasm_protocol_error e 1 ''OpenUni with wrong initiator'' s
      else case wasm_validate_peer_stream_id i s of
        (False, s1) \<Rightarrow> wasm_protocol_error e 1 ''OpenUni with non-monotonic StreamId'' s1
      | (True, s1) \<Rightarrow>
          if max_open_streams (limits_of s1) \<le> length (streams s1) then
            wasm_protocol_error e 3 ''too many open streams'' s1
          else if hm_contains i (streams s1) then wasm_protocol_error e 1 ''duplicate stream open'' s1
          else let (rv, s2) = wasm_register_recv_stream i s1;
                   s3 = snd (wasm_try_send_frame e (wasm_initial_credit i s2) s2)
               in if \<not> accept_uni_tx s3 \<or> \<not> accept_rx s3 then (Inl Closed, wasm_recv_stream_drop e rv s3)
                  else if \<not> uni_room e (length (accept_uni_queue s3)) then
                    (let (r, s4) = wasm_protocol_error e 3 ''accept queue full'' s3
                     in (r, wasm_recv_stream_drop e rv s4))
                  else (Inr (), s3\<lparr>accept_uni_queue := accept_uni_queue s3 @ [rv]\<rparr>))"

definition wasm_handle_open_bi :: "chan_env \<Rightarrow> stream_id \<Rightarrow> session \<Rightarrow> (error + unit) \<times> session" where
  "wasm_handle_open_bi e i s =
     (if stream_id_dir i \<noteq> Bi then wasm_protocol_error e 1 ''OpenBi with non-bi StreamId'' s
      else if \<not> initiator_is_server i then wasm_protocol_error e 1 ''OpenBi with wrong initiator'' s
      else case wasm_validate_peer_stream_id i s of
        (False, s1) \<Rightarrow> wasm_protocol_error e 1 ''OpenBi with non-monotonic StreamId'' s1
      | (True, s1) \<Rightarrow>
          if max_open_streams (limits_of s1) \<le> length (streams s1) then
            wasm_protocol_error e 3 ''too many open streams'' s1
          else if hm_contains i (streams s1) then wasm_protocol_error e 1 ''duplicate stream open'' s1
          else let (rv, s2) = wasm_register_recv_stream i s1;
                   s3 = snd (wasm_try_send_frame e (wasm_initial_credit i s2) s2)
               in case wasm_register_send_flow i 0 s3 of
                 (Inl err, s4) \<Rightarrow>
                   (let (r, s5) = wasm_protocol_error e 3 (error_to_string err) s4
                    in (r, wasm_recv_stream_drop e rv s5))
               | (Inr flow, s4) \<Rightarrow>
                   (let (ss, s5) = wasm_send_stream_new i flow s4 in
                    if \<not> accept_bi_tx s5 \<or> \<not> accept_rx s5 then (Inl Closed, wasm_drop_pair e ss rv s5)
                    else if \<not> bi_room e (length (accept_bi_queue s5)) then
                      (let (r, s6) = wasm_protocol_error e 3 ''accept queue full'' s5
                       in (r, wasm_drop_pair e ss rv s6))
                    else (Inr (), s5\<lparr>accept_bi_queue := accept_bi_queue s5 @ [(ss, rv)]\<rparr>)))"

definition wasm_handle_stream ::
  "chan_env \<Rightarrow> stream_id \<Rightarrow> bytes \<Rightarrow> bool \<Rightarrow> session \<Rightarrow> (error + unit) \<times> session" where
  "wasm_handle_stream e i d fin s =
     (if max_stream_data_per_frame (limits_of s) < length d then
        wasm_protocol_error e 2 ''stream data too large'' s
      else case hm_get (streams s) i of
        None \<Rightarrow> wasm_protocol_error e 2 ''Stream data on unknown stream'' s
      | Some st \<Rightarrow>
          (case checked_add (received st) (of_nat (length d)) of
             None \<Rightarrow> wasm_protocol_error e 2 ''stream data overflow'' s
           | Some rcvd \<Rightarrow>
               if chan_max (chan_mem s (sender st)) < rcvd then
                 wasm_protocol_error e 2 ''stream flow-control limit exceeded'' s
               else
                 let s1 = s\<lparr>streams := hm_insert i (st\<lparr>received := rcvd\<rparr>) (streams s)\<rparr>;
                     chan = chan_mem s (sender st);
                     sent = (\<not> stopped st \<and> rx_open chan \<and> ev_room e (length (items chan)));
                     overflow = (\<not> stopped st \<and> rx_open chan \<and> \<not> ev_room e (length (items chan)));
                     s2 = (if sent then chan_update (sender st)
                             (\<lambda>c. c\<lparr>items := items c @ [RecvEvent d fin]\<rparr>) s1 else s1);
                     s3 = (if fin then s2\<lparr>streams := hm_remove i (streams s2)\<rparr> else s2)
                 in if overflow then wasm_protocol_error e 3 ''receive queue full'' s3 else (Inr (), s3)))"

fun wasm_handle_frame :: "chan_env \<Rightarrow> frame \<Rightarrow> session \<Rightarrow> (error + unit) \<times> session" where
  "wasm_handle_frame e (OpenUni i) s = wasm_handle_open_uni e i s"
| "wasm_handle_frame e (OpenBi i) s = wasm_handle_open_bi e i s"
| "wasm_handle_frame e (Stream i d fin) s = wasm_handle_stream e i d fin s"
| "wasm_handle_frame e (ResetStream i _) s =
     (let removed = hm_contains i (streams s); s1 = s\<lparr>streams := hm_remove i (streams s)\<rparr> in
      if \<not> removed \<and> \<not> wasm_is_retired_direction i True s1
      then wasm_protocol_error e 1 ''reset on unknown stream'' s1 else (Inr (), s1))"
| "wasm_handle_frame e (StopSending i code) s = (case wasm_remove_send_flow i s of
     (True, s1) \<Rightarrow> wasm_send_frame e (ResetStream i code) s1
   | (False, s1) \<Rightarrow>
       if \<not> wasm_is_retired_direction i False s1
       then wasm_protocol_error e 1 ''stop on unknown stream'' s1 else (Inr (), s1))"
| "wasm_handle_frame e (MaxStreamData i m) s = (case hm_get (send_flows s) i of
     None \<Rightarrow> (Inr (), s) | Some r \<Rightarrow> (Inr (), flow_update r (wasm_update_max m) s))"
| "wasm_handle_frame e (ConnectionClose _ _) s = (Inl Closed, wasm_close_all s)"

end
