(* ===== verification/Wasm_Task.thy ===== *)
theory Wasm_Task
  imports Wasm_Session
begin

text \<open>
  The session handle of the browser session and its single task, which alternates between receiving a
  message and sending a batch. The WebSocket is third-party code: what it receives is the argument of
  \<open>wasm_recv_item\<close>, and whether a send succeeds is the argument of \<open>wasm_send_batch\<close>.
\<close>

section \<open>The session handle\<close>

definition wasm_session_new :: "limits \<Rightarrow> error + session" where
  "wasm_session_new l = try_bind (wasm_limits_validate 32 l) (\<lambda>_. Inr (wasm_session_inner_new l))"

definition wasm_open_uni :: "chan_env \<Rightarrow> session \<Rightarrow> (error + send_stream) \<times> session" where
  "wasm_open_uni e s = (case wasm_next_stream_id Uni s of
     (Inl err, s1) \<Rightarrow> (Inl err, s1)
   | (Inr i, s1) \<Rightarrow>
       (case wasm_register_send_flow i 0 s1 of
          (Inl err, s2) \<Rightarrow> (Inl err, s2)
        | (Inr flow, s2) \<Rightarrow>
            (case wasm_send_frame e (OpenUni i) s2 of
               (Inl err, s3) \<Rightarrow> (Inl err, snd (wasm_remove_send_flow i s3))
             | (Inr _, s3) \<Rightarrow> apfst Inr (wasm_send_stream_new i flow s3))))"

text \<open>The two error exits of \<open>open_bi\<close>: retire both directions, then the receive handle is dropped.\<close>

definition wasm_open_bi_abandon :: "chan_env \<Rightarrow> stream_id \<Rightarrow> recv_stream \<Rightarrow> session \<Rightarrow> session" where
  "wasm_open_bi_abandon e i rv s =
     wasm_recv_stream_drop e rv
       (snd (wasm_remove_send_flow i (s\<lparr>streams := hm_remove i (streams s)\<rparr>)))"

definition wasm_open_bi :: "chan_env \<Rightarrow> session \<Rightarrow> (error + (send_stream \<times> recv_stream)) \<times> session" where
  "wasm_open_bi e s = (case wasm_next_stream_id Bi s of
     (Inl err, s1) \<Rightarrow> (Inl err, s1)
   | (Inr i, s1) \<Rightarrow>
       (case wasm_register_send_flow i 0 s1 of
          (Inl err, s2) \<Rightarrow> (Inl err, s2)
        | (Inr flow, s2) \<Rightarrow>
            (let (rv, s3) = wasm_register_recv_stream i s2 in
             case wasm_send_frame e (OpenBi i) s3 of
               (Inl err, s4) \<Rightarrow> (Inl err, wasm_open_bi_abandon e i rv s4)
             | (Inr _, s4) \<Rightarrow>
                 (case wasm_send_frame e (wasm_initial_credit i s4) s4 of
                    (Inl err, s5) \<Rightarrow> (Inl err, wasm_open_bi_abandon e i rv s5)
                  | (Inr _, s5) \<Rightarrow>
                      (let (ss, s6) = wasm_send_stream_new i flow s5 in (Inr (ss, rv), s6))))))"

definition wasm_accept_uni :: "session \<Rightarrow> (error + recv_stream) poll \<times> session" where
  "wasm_accept_uni s = (case accept_uni_queue s of
     rv # q \<Rightarrow> (Ready (Inr rv), s\<lparr>accept_uni_queue := q\<rparr>)
   | [] \<Rightarrow> (if accept_uni_tx s then Pending else Ready (Inl Closed), s))"

definition wasm_accept_bi :: "session \<Rightarrow> (error + (send_stream \<times> recv_stream)) poll \<times> session" where
  "wasm_accept_bi s = (case accept_bi_queue s of
     p # q \<Rightarrow> (Ready (Inr p), s\<lparr>accept_bi_queue := q\<rparr>)
   | [] \<Rightarrow> (if accept_bi_tx s then Pending else Ready (Inl Closed), s))"

text \<open>The first poll of \<open>shutdown\<close>; later polls repeat \<open>wasm_wait_closed\<close>.\<close>

definition wasm_shutdown :: "session \<Rightarrow> (error + unit) poll \<times> session" where
  "wasm_shutdown s = (let s1 = wasm_request_shutdown s in (wasm_wait_closed s1, s1))"

definition wasm_is_closed :: "session \<Rightarrow> bool" where
  "wasm_is_closed s \<longleftrightarrow> active_tasks s = 0"

definition wasm_session_clone :: "session \<Rightarrow> session" where
  "wasm_session_clone s = s\<lparr>session_handles := session_handles s + 1\<rparr>"

text \<open>Dropping the last handle requests shutdown and drops the accept receivers with what is queued.\<close>

definition wasm_session_drop :: "chan_env \<Rightarrow> session \<Rightarrow> session" where
  "wasm_session_drop e s =
     (let remaining = session_handles s - 1; s1 = s\<lparr>session_handles := remaining\<rparr> in
      if remaining = 0 then
        let s2 = wasm_request_shutdown s1;
            s3 = s2\<lparr>accept_rx := False, accept_uni_queue := [], accept_bi_queue := []\<rparr>;
            s4 = fold (wasm_recv_stream_drop e) (accept_uni_queue s2) s3
        in fold (\<lambda>(ss, rv). wasm_drop_pair e ss rv) (accept_bi_queue s2) s4
      else s1)"

section \<open>Receiving\<close>

text \<open>The frames of a binary message; the result tells whether the loop of the task goes on.\<close>

function wasm_frames :: "chan_env \<Rightarrow> bytes \<Rightarrow> session \<Rightarrow> bool \<times> session" where
  "wasm_frames e cursor s =
     (if cursor = [] then (True, s)
      else case frame_decode 32 cursor of
        Inl _ \<Rightarrow> (False, snd (wasm_protocol_error e 1 ''invalid frame'' s))
      | Inr (f, r) \<Rightarrow>
          (case wasm_handle_frame e f s of
             (Inl _, s1) \<Rightarrow> (False, s1) | (Inr _, s1) \<Rightarrow> wasm_frames e r s1))"
  by pat_completeness auto
termination
  by (relation "measure (\<lambda>(e, cursor, s). length cursor)") (auto dest: frame_codec.dec_shorter)

declare wasm_frames.simps [simp del]

text \<open>The outcome of \<open>conn.recv()\<close>.\<close>

fun wasm_recv_item :: "chan_env \<Rightarrow> error + message \<Rightarrow> session \<Rightarrow> bool \<times> session" where
  "wasm_recv_item e (Inr (Binary d)) s =
     (if max_ws_message_size (limits_of s) < length d
      then (False, snd (wasm_protocol_error e 2 ''ws message too large'' s))
      else wasm_frames e d s)"
| "wasm_recv_item e (Inr (Text _)) s =
     (False, snd (wasm_protocol_error e 1 ''text message not supported'' s))"
| "wasm_recv_item e (Inl _) s = (False, s)"

section \<open>Sending\<close>

text \<open>
  The next frame to send: the one left over from the last batch, a queued one, or pending credit.
  \<open>credit_first\<close> is the choice of \<open>select!\<close> when both a queued frame and credit are ready, \<open>k\<close> the choice
  of \<open>keys().next()\<close>. \<open>Ready None\<close> is the end of the closed channel.
\<close>

definition wasm_next_out ::
  "bool \<Rightarrow> stream_id \<Rightarrow> frame option \<Rightarrow> session \<Rightarrow> frame option poll \<times> session" where
  "wasm_next_out credit_first k pend s = (case pend of
     Some f \<Rightarrow> (Ready (Some f), s)
   | None \<Rightarrow>
       (if credit_first \<and> pending_credit s \<noteq> [] then
          (case wasm_next_credit k s of
             (Ready f, s1) \<Rightarrow> (Ready (Some f), s1) | (Pending, s1) \<Rightarrow> (Pending, s1))
        else case outbound s of
          FrameCmd f # q \<Rightarrow> (Ready (Some f), s\<lparr>outbound := q\<rparr>)
        | _ \<Rightarrow>
            (if \<not> outbound_rx s then (Ready None, s)
             else case wasm_next_credit k s of
               (Ready f, s1) \<Rightarrow> (Ready (Some f), s1) | (Pending, s1) \<Rightarrow> (Pending, s1))))"

text \<open>
  The inner loop that fills the batch from the queue: the batch, the frame that did not fit, and the
  rest of the queue. \<open>None\<close> is the panic of \<open>Frame::encode\<close>.
\<close>

fun wasm_fill ::
  "limits \<Rightarrow> bytes \<Rightarrow> nat \<Rightarrow> outbound_cmd list \<Rightarrow> (bytes \<times> frame option \<times> outbound_cmd list) option" where
  "wasm_fill l b n (FrameCmd f # q) =
     (if max_batch_frames l \<le> n \<or> min (max_batch_bytes l) (max_ws_message_size l) \<le> length b
      then Some (b, None, FrameCmd f # q)
      else do {
        next \<leftarrow> frame_encode f;
        (if b \<noteq> [] \<and> min (max_batch_bytes l) (max_ws_message_size l) < length b + length next
         then Some (b, Some f, q)
         else wasm_fill l (b @ next) (Suc n) q)
      })"
| "wasm_fill l b n q = Some (b, None, q)"

text \<open>A batch that starts with \<open>f\<close>: the message, the frame left over, and the session.\<close>

definition wasm_batch :: "frame \<Rightarrow> session \<Rightarrow> (bytes \<times> frame option \<times> session) option" where
  "wasm_batch f s = do {
     encoded \<leftarrow> frame_encode f;
     (b, pend, q) \<leftarrow> wasm_fill (limits_of s) encoded 1 (outbound s);
     Some (b, pend, s\<lparr>outbound := q\<rparr>)
   }"

section \<open>The task\<close>

text \<open>Where the task is: in the loop with the left-over frame, after it, or dead from a panic.\<close>

datatype wasm_task = WasmLoop "frame option" | WasmBreak | WasmPanic

text \<open>One turn of the loop that sends; \<open>ok\<close> is the outcome of \<open>conn.send\<close>.\<close>

definition wasm_send_turn ::
  "bool \<Rightarrow> bool \<Rightarrow> stream_id \<Rightarrow> frame option \<Rightarrow> session \<Rightarrow> (wasm_task \<times> bytes option \<times> session) option" where
  "wasm_send_turn ok credit_first k pend s = (case wasm_next_out credit_first k pend s of
     (Pending, _) \<Rightarrow> None
   | (Ready None, s1) \<Rightarrow> Some (WasmBreak, None, s1)
   | (Ready (Some f), s1) \<Rightarrow>
       (case wasm_batch f s1 of
          None \<Rightarrow> Some (WasmPanic, None, s1)
        | Some (b, pend', s2) \<Rightarrow>
            Some (if ok then (WasmLoop pend', Some b, s2) else (WasmBreak, None, s2))))"

text \<open>After the loop: the connection is closed or times out, the channel is dropped, and waiters are told.\<close>

definition wasm_task_end :: "session \<Rightarrow> session" where
  "wasm_task_end s = wasm_finish_task (wasm_close_all (s\<lparr>outbound := [], outbound_rx := False\<rparr>))"

end
