(* ===== verification/Wasm_Agreement.thy ===== *)
theory Wasm_Agreement
  imports Wasm_Task Wire
begin

text \<open>
  The browser session against the native one: the copied primitives are the same functions, the frame
  handlers agree on everything the native one accepts, and the batches of the browser task are groups
  of whole frames in order. One difference is a defect: initial credit is dropped when the outbound
  channel is full.
\<close>

section \<open>Copied primitives\<close>

lemma wasm_flow_eq:
  "wasm_flow_new = flow_new" "wasm_try_reserve = try_reserve" "wasm_release = release"
  "wasm_update_max = update_max" "wasm_flow_close = flow_close"
  by (intro ext; simp add: wasm_flow_new_def flow_new_def wasm_try_reserve_def try_reserve_def
      wasm_release_def release_def wasm_update_max_def update_max_def wasm_flow_close_def flow_close_def)+

lemma wasm_state_eq:
  "wasm_close_all = close_all" "wasm_register_send_flow = register_send_flow"
  "wasm_remove_send_flow = remove_send_flow" "wasm_register_recv_stream = register_recv_stream"
  "wasm_stop_recv_stream = stop_recv_stream" "wasm_send_stream_new = send_stream_new"
  "wasm_validate_peer_stream_id = validate_peer_stream_id" "wasm_next_credit = next_credit"
  "wasm_session_closed = session_is_closed"
  by (intro ext; simp add: wasm_close_all_def close_all_def close_flows_def wasm_flow_eq wasm_register_send_flow_def
      register_send_flow_def wasm_remove_send_flow_def remove_send_flow_def wasm_register_recv_stream_def
      register_recv_stream_def recv_stream_new_def wasm_stop_recv_stream_def stop_recv_stream_def
      wasm_send_stream_new_def send_stream_new_def wasm_validate_peer_stream_id_def validate_peer_stream_id_def
      wasm_next_credit_def next_credit_def wasm_session_closed_def session_is_closed_def Let_def
      split: stream_dir.splits option.splits)+

lemma wasm_retired_eq: "\<not> is_server s \<Longrightarrow> wasm_is_retired_direction i r s = is_retired_direction i r s"
  by (simp add: wasm_is_retired_direction_def is_retired_direction_def)

text \<open>
  The browser session's copies of the limits check, of the send flow, of identifier validation and
  of stream registration compute the same as the native ones, on every input and at every pointer
  width, so the two ends of a connection apply the same rules.
\<close>

lemma wasm_copies_agree:
  "wasm_limits_validate = limits_validate \<and> wasm_limits_default = limits_default
   \<and> wasm_try_reserve = try_reserve \<and> wasm_release = release \<and> wasm_update_max = update_max
   \<and> wasm_flow_close = flow_close \<and> wasm_validate_peer_stream_id = validate_peer_stream_id
   \<and> wasm_register_send_flow = register_send_flow \<and> wasm_register_recv_stream = register_recv_stream
   \<and> wasm_stop_recv_stream = stop_recv_stream \<and> wasm_remove_send_flow = remove_send_flow
   \<and> wasm_close_all = close_all \<and> wasm_next_credit = next_credit"
proof -
  have "wasm_limits_validate = limits_validate"
    by (intro ext) (simp add: wasm_limits_validate_def limits_validate_def)
  moreover have "wasm_limits_default = limits_default" by (simp add: wasm_limits_default_def limits_default_def)
  ultimately show ?thesis by (simp add: wasm_flow_eq wasm_state_eq)
qed

section \<open>Frames\<close>

lemma wasm_send_room:
  assumes "chan_env_ok (limits_of s) e" "outbound_rx s" "\<not> outbound_full s"
  shows "wasm_try_send_frame e f s = (Inr (), outbound_push (FrameCmd f) s)"
  using assms by (auto simp: wasm_try_send_frame_def chan_env_ok_def outbound_full_def)

lemma send_frame_room:
  assumes "\<not> session_is_closed s" "outbound_rx s" "\<not> outbound_full s" "\<forall>i d fin. f \<noteq> Stream i d fin"
  shows "send_frame f s = (Ready (Inr ()), outbound_push (FrameCmd f) s)"
  using assms by (cases f) (auto simp: send_frame_def send_frame_resume_def)

lemma register_recv_room:
  assumes "register_recv_stream i s = (rv, s1)"
  shows "outbound s1 = outbound s" "outbound_rx s1 = outbound_rx s" "limits_of s1 = limits_of s"
    "session_is_closed s1 = session_is_closed s" "outbound_full s1 = outbound_full s"
  using assms by (auto simp: register_recv_stream_def session_is_closed_def outbound_full_def Let_def)

lemma validate_room:
  assumes "validate_peer_stream_id i s = (b, s1)"
  shows "outbound s1 = outbound s" "outbound_rx s1 = outbound_rx s" "limits_of s1 = limits_of s"
    "session_is_closed s1 = session_is_closed s" "outbound_full s1 = outbound_full s"
  using assms by (auto simp: validate_peer_stream_id_def session_is_closed_def outbound_full_def
      split: stream_dir.splits if_splits)

text \<open>The common part of the two open frames, when the native handler gets through it.\<close>

lemma try_register_room:
  assumes "\<not> session_is_closed s" "outbound_rx s" "\<not> outbound_full s"
    and "try_register_inbound_recv_stream i s = (Finished (Inr rv), s2)"
  obtains s1 where "register_recv_stream i s = (rv, s1)" "length (streams s) < max_open_streams (limits_of s)"
    "\<not> hm_contains i (streams s)" "s2 = outbound_push (FrameCmd (initial_credit_frame i s1)) s1"
proof -
  obtain rv1 s1 where reg: "register_recv_stream i s = (rv1, s1)" by fastforce
  have "send_frame (initial_credit_frame i s1) s1 = (Ready (Inr ()), outbound_push (FrameCmd (initial_credit_frame i s1)) s1)"
    using register_recv_room [OF reg] assms(1-3) by (intro send_frame_room) (auto simp: initial_credit_frame_def)
  then show ?thesis
    using assms(4) reg that
    by (auto simp: try_register_inbound_recv_stream_def initial_credit_result_def split: if_splits)
qed

lemma try_register_pending:
  assumes "\<not> session_is_closed s" "outbound_rx s" "\<not> outbound_full s"
  shows "fst (try_register_inbound_recv_stream i s) \<noteq> Awaiting k"
proof -
  obtain rv1 s1 where reg: "register_recv_stream i s = (rv1, s1)" by fastforce
  have "send_frame (initial_credit_frame i s1) s1 = (Ready (Inr ()), outbound_push (FrameCmd (initial_credit_frame i s1)) s1)"
    using register_recv_room [OF reg] assms by (intro send_frame_room) (auto simp: initial_credit_frame_def)
  then show ?thesis
    using reg by (auto simp: try_register_inbound_recv_stream_def initial_credit_result_def split: if_splits)
qed

lemma protocol_error_not_ok: "apfst Finished (protocol_error c m t) \<noteq> (Finished (Inr u), s')"
  by (simp add: protocol_error_def)

lemma wasm_open_uni_agrees:
  assumes "chan_env_ok (limits_of s) e" "\<not> is_server s" "\<not> session_is_closed s" "outbound_rx s" "\<not> outbound_full s"
    and "handle_open_uni i s = (Finished (Inr ()), s')"
  shows "wasm_handle_open_uni e i s = (Inr (), s')"
proof -
  have dir: "stream_id_dir i = Uni" "initiator_is_server i"
    using assms(2,6) protocol_error_not_ok
    by (auto simp: handle_open_uni_def peer_is_server_def split: if_splits)
  obtain b s1 where v: "validate_peer_stream_id i s = (b, s1)" by fastforce
  then have b: b using assms(2,6) dir protocol_error_not_ok
    by (cases b) (auto simp: handle_open_uni_def peer_is_server_def)
  note room = validate_room [OF v]
  obtain q s2 where r: "try_register_inbound_recv_stream i s1 = (q, s2)" by fastforce
  have h: "open_uni_registered (q, s2) = (Finished (Inr ()), s')"
    using assms(2,6) dir v b r by (simp add: handle_open_uni_def peer_is_server_def)
  then obtain rv where q: "q = Finished (Inr rv)"
    using protocol_error_not_ok by (cases q rule: reg_recvs.cases) (auto simp: open_uni_registered_def)
  obtain s0 where s0: "register_recv_stream i s1 = (rv, s0)" "length (streams s1) < max_open_streams (limits_of s1)"
      "\<not> hm_contains i (streams s1)" "s2 = outbound_push (FrameCmd (initial_credit_frame i s0)) s0"
    using try_register_room [OF _ _ _ r [unfolded q]] assms(3-5) room by auto
  note room0 = register_recv_room [OF s0(1)]
  have send: "wasm_try_send_frame e (wasm_initial_credit i s0) s0 = (Inr (), s2)"
    using wasm_send_room [of s0 e] assms room room0 s0(4) by (simp add: wasm_initial_credit_def initial_credit_frame_def)
  have "accept_uni_tx s2" "accept_rx s2" "length (accept_uni_queue s2) < accept_uni_queue_len (limits_of s2)"
      "s' = s2\<lparr>accept_uni_queue := accept_uni_queue s2 @ [rv]\<rparr>"
    using h q by (auto simp: open_uni_registered_def deliver_uni_def protocol_error_def split: if_splits)
  moreover from this(3) have "uni_room e (length (accept_uni_queue s2))"
    using assms(1) room room0 s0(4) by (simp add: chan_env_ok_def outbound_push_def)
  ultimately show ?thesis
    using dir v b s0 send by (simp add: wasm_handle_open_uni_def wasm_state_eq Let_def)
qed

lemma wasm_open_bi_agrees:
  assumes "chan_env_ok (limits_of s) e" "\<not> is_server s" "\<not> session_is_closed s" "outbound_rx s" "\<not> outbound_full s"
    and "handle_open_bi i s = (Finished (Inr ()), s')"
  shows "wasm_handle_open_bi e i s = (Inr (), s')"
proof -
  have dir: "stream_id_dir i = Bi" "initiator_is_server i"
    using assms(2,6) protocol_error_not_ok
    by (auto simp: handle_open_bi_def peer_is_server_def split: if_splits)
  obtain b s1 where v: "validate_peer_stream_id i s = (b, s1)" by fastforce
  then have b: b using assms(2,6) dir protocol_error_not_ok
    by (cases b) (auto simp: handle_open_bi_def peer_is_server_def)
  note room = validate_room [OF v]
  obtain q s2 where r: "try_register_inbound_recv_stream i s1 = (q, s2)" by fastforce
  have h: "open_bi_registered (q, s2) = (Finished (Inr ()), s')"
    using assms(2,6) dir v b r by (simp add: handle_open_bi_def peer_is_server_def)
  then obtain rv where q: "q = Finished (Inr rv)"
    using protocol_error_not_ok by (cases q rule: reg_recvs.cases) (auto simp: open_bi_registered_def)
  obtain s0 where s0: "register_recv_stream i s1 = (rv, s0)" "length (streams s1) < max_open_streams (limits_of s1)"
      "\<not> hm_contains i (streams s1)" "s2 = outbound_push (FrameCmd (initial_credit_frame i s0)) s0"
    using try_register_room [OF _ _ _ r [unfolded q]] assms(3-5) room by auto
  note room0 = register_recv_room [OF s0(1)]
  have rid: "rv_id rv = i" using register_recv_fields(1) [OF s0(1)] by simp
  have send: "wasm_try_send_frame e (wasm_initial_credit i s0) s0 = (Inr (), s2)"
    using wasm_send_room [of s0 e] assms room room0 s0(4) by (simp add: wasm_initial_credit_def initial_credit_frame_def)
  obtain g s3 where g: "register_send_flow i 0 s2 = (g, s3)" by fastforce
  obtain flow where flow: "g = Inr flow"
    using h q rid g by (cases g) (auto simp: open_bi_registered_def protocol_error_def Let_def)
  obtain ss s4 where ss: "send_stream_new i flow s3 = (ss, s4)" by fastforce
  have lim: "limits_of s4 = limits_of s"
    using g flow ss room room0 s0(4)
    by (auto simp: register_send_flow_def send_stream_new_def outbound_push_def Let_def split: if_splits)
  have "deliver_bi ss rv s4 = (Inr (), s')"
    using h q rid g flow ss by (cases "deliver_bi ss rv s4") (auto simp: open_bi_registered_def)
  then have "accept_bi_tx s4" "accept_rx s4" "length (accept_bi_queue s4) < accept_bi_queue_len (limits_of s4)"
      "s' = s4\<lparr>accept_bi_queue := accept_bi_queue s4 @ [(ss, rv)]\<rparr>"
    by (auto simp: deliver_bi_def protocol_error_def split: if_splits)
  moreover from this(3) have "bi_room e (length (accept_bi_queue s4))"
    using assms(1) lim by (simp add: chan_env_ok_def)
  ultimately show ?thesis
    using dir v b s0 send g flow ss by (simp add: wasm_handle_open_bi_def wasm_state_eq Let_def)
qed

lemma wasm_stream_agrees:
  assumes "chan_env_ok (limits_of s) e" "handle_stream i d fin s = (Inr (), s')"
  shows "wasm_handle_stream e i d fin s = (Inr (), s')"
proof -
  obtain st where st: "hm_get (streams s) i = Some st"
    using assms(2) by (cases "hm_get (streams s) i") (auto simp: handle_stream_def protocol_error_def split: if_splits)
  obtain rcvd where rcvd: "checked_add (received st) (of_nat (length d)) = Some rcvd"
    using assms(2) st by (cases "checked_add (received st) (of_nat (length d))")
      (auto simp: handle_stream_def protocol_error_def split: if_splits)
  show ?thesis
    using assms st rcvd
    by (auto simp: handle_stream_def wasm_handle_stream_def remove_recv_stream_def protocol_error_def chan_env_ok_def
        Let_def not_le split: if_splits)
qed

lemma wasm_frame_agrees:
  assumes "chan_env_ok (limits_of s) e" "\<not> is_server s" "\<not> session_is_closed s" "outbound_rx s" "\<not> outbound_full s"
    and "handle_frame f s = (Finished (Inr ()), s')"
  shows "wasm_handle_frame e f s = (Inr (), s')"
proof (cases f)
  case (OpenUni i)
  then show ?thesis using wasm_open_uni_agrees [of s e i s'] assms by simp
next
  case (OpenBi i)
  then show ?thesis using wasm_open_bi_agrees [of s e i s'] assms by simp
next
  case (Stream i d fin)
  then show ?thesis
    using wasm_stream_agrees [of s e i d fin s'] assms(1,6) by (cases "handle_stream i d fin s") simp
next
  case (ResetStream i c)
  then show ?thesis
    using assms(2,6) by (auto simp: handle_reset_def remove_recv_stream_def protocol_error_def wasm_retired_eq Let_def
        split: if_splits)
next
  case (StopSending i c)
  obtain b s1 where r: "remove_send_flow i s = (b, s1)" by fastforce
  have same: "limits_of s1 = limits_of s" "outbound s1 = outbound s" "outbound_rx s1 = outbound_rx s"
      "is_server s1 = is_server s" "session_is_closed s1 = session_is_closed s"
    using r by (auto simp: remove_send_flow_def session_is_closed_def flow_update_def split: option.splits)
  then have room: "\<not> outbound_full s1" using assms(5) by (simp add: outbound_full_def)
  show ?thesis
    using assms same room StopSending r send_frame_room [of s1 "ResetStream i c"] wasm_send_room [of s1 e]
    by (auto simp: handle_stop_def await_at_def wasm_state_eq wasm_send_frame_def wasm_retired_eq protocol_error_def
        split: bool.splits if_splits)
next
  case (MaxStreamData i m)
  then show ?thesis using assms(6) by (auto simp: handle_max_data_def wasm_flow_eq split: option.splits)
next
  case (ConnectionClose c r)
  then show ?thesis using assms(6) by simp
qed

text \<open>
  C11: while there is room in the outbound channel, every frame that the native handler of a client
  accepts without waiting is accepted by the browser handler, and the two leave the session in the
  same state. The futures channels only have to hold at least the number of elements they were made for.
\<close>

theorem wasm_agrees_with_native:
  assumes "chan_env_ok (limits_of s) e" "\<not> is_server s" "\<not> session_is_closed s" "outbound_rx s" "\<not> outbound_full s"
    and "handle_frame f s = (Finished (Inr ()), s')"
  shows "wasm_handle_frame e f s = (Inr (), s')"
  by (rule wasm_frame_agrees [OF assms])

definition demo_channels :: chan_env where
  "demo_channels = \<lparr>out_room = (\<lambda>n. n \<le> 8), uni_room = (\<lambda>n. n \<le> 2), bi_room = (\<lambda>n. n \<le> 2), ev_room = (\<lambda>n. n \<le> 2)\<rparr>"

definition demo_browser :: session where
  "demo_browser = wasm_session_inner_new demo_limits"

lemma demo_channels_ok: "chan_env_ok demo_limits demo_channels"
  by (simp add: chan_env_ok_def demo_channels_def demo_limits_def)

lemma demo_browser_fields:
  "limits_of demo_browser = demo_limits" "\<not> is_server demo_browser" "\<not> session_is_closed demo_browser"
  "outbound_rx demo_browser" "outbound demo_browser = []" "\<not> outbound_full demo_browser"
  "pending_credit demo_browser = []"
  by (simp_all add: demo_browser_def wasm_session_inner_new_def session_is_closed_def outbound_full_def demo_limits_def)

lemma demo_peer_id:
  "stream_id_dir (StreamId 3) = Uni" "initiator_is_server (StreamId 3)" "stream_id_counter (StreamId 3) = 0"
  by (simp_all add: stream_id_dir_def initiator_is_server_def stream_id_counter_def)

theorem wasm_agrees_with_native_witness:
  "\<exists>s'. handle_frame (OpenUni (StreamId 3)) demo_browser = (Finished (Inr ()), s')
     \<and> wasm_handle_frame demo_channels (OpenUni (StreamId 3)) demo_browser = (Inr (), s')"
proof -
  obtain s' where h: "handle_frame (OpenUni (StreamId 3)) demo_browser = (Finished (Inr ()), s')"
  proof -
    have "fst (handle_frame (OpenUni (StreamId 3)) demo_browser) = Finished (Inr ())"
      by (simp add: demo_peer_id open_run demo_browser_def wasm_session_inner_new_def demo_limits_def Let_def hmap_simps)
    then show thesis using that by (cases "handle_frame (OpenUni (StreamId 3)) demo_browser") simp
  qed
  then show ?thesis
    using wasm_agrees_with_native [of demo_browser demo_channels "OpenUni (StreamId 3)" s']
      demo_channels_ok demo_browser_fields by auto
qed

section \<open>Dropped credit\<close>

lemma register_recv_accept:
  assumes "register_recv_stream i s = (rv, s1)"
  shows "accept_uni_queue s1 = accept_uni_queue s" "accept_uni_tx s1 = accept_uni_tx s" "accept_rx s1 = accept_rx s"
    "pending_credit s1 = pending_credit s" "hm_contains i (streams s1)" "rv_id rv = i"
  using assms by (auto simp: register_recv_stream_def recv_stream_new_def Let_def hmap_simps)

lemma validate_accept:
  assumes "validate_peer_stream_id i s = (b, s1)"
  shows "accept_uni_queue s1 = accept_uni_queue s" "accept_uni_tx s1 = accept_uni_tx s" "accept_rx s1 = accept_rx s"
    "pending_credit s1 = pending_credit s" "streams s1 = streams s"
  using assms by (auto simp: validate_peer_stream_id_def split: stream_dir.splits if_splits)

text \<open>
  C38: when the outbound channel is full, the browser handler still accepts a new stream of the peer,
  but the announcement of its initial credit is lost: nothing is queued, and nothing is left
  pending that would announce it later.
\<close>

theorem wasm_initial_credit_dropped:
  assumes "\<not> out_room e (length (outbound s))"
    and "stream_id_dir i = Uni" "initiator_is_server i" "fst (validate_peer_stream_id i s)"
    and "length (streams s) < max_open_streams (limits_of s)" "\<not> hm_contains i (streams s)"
    and "accept_uni_tx s" "accept_rx s" "uni_room e (length (accept_uni_queue s))"
  shows "\<exists>rv s'. wasm_handle_frame e (OpenUni i) s = (Inr (), s') \<and> rv_id rv = i
           \<and> accept_uni_queue s' = accept_uni_queue s @ [rv] \<and> hm_contains i (streams s')
           \<and> outbound s' = outbound s \<and> pending_credit s' = pending_credit s"
proof -
  obtain s1 where v: "validate_peer_stream_id i s = (True, s1)"
    using assms(4) by (cases "validate_peer_stream_id i s") simp
  obtain rv s2 where r: "register_recv_stream i s1 = (rv, s2)" by fastforce
  note f1 = validate_room [OF v] validate_accept [OF v]
  note f2 = register_recv_room [OF r] register_recv_accept [OF r]
  have "wasm_try_send_frame e (wasm_initial_credit i s2) s2 = (Inl Closed, s2)"
    using assms(1) f1 f2 by (simp add: wasm_try_send_frame_def)
  then have "wasm_handle_frame e (OpenUni i) s = (Inr (), s2\<lparr>accept_uni_queue := accept_uni_queue s2 @ [rv]\<rparr>)"
    using assms v r f1 f2 by (simp add: wasm_handle_open_uni_def wasm_state_eq Let_def)
  then show ?thesis using f1 f2 by simp
qed

definition demo_full :: session where
  "demo_full = demo_browser\<lparr>outbound := replicate 9 (FrameCmd (OpenUni (StreamId 2)))\<rparr>"

theorem wasm_initial_credit_dropped_witness:
  "\<exists>rv s'. wasm_handle_frame demo_channels (OpenUni (StreamId 3)) demo_full = (Inr (), s') \<and> rv_id rv = StreamId 3
     \<and> accept_uni_queue s' = [rv] \<and> outbound s' = outbound demo_full"
  using wasm_initial_credit_dropped [of demo_channels demo_full "StreamId 3"] demo_peer_id
  by (auto simp: demo_full_def demo_browser_def wasm_session_inner_new_def demo_channels_def demo_limits_def
      validate_peer_stream_id_def hmap_simps)

section \<open>Batches\<close>

lemma wasm_fill_groups:
  assumes "b = enc_all g" "length g = n" "g \<noteq> []" "list_all (frame_wf 64) (g @ fs)" "group_ok l g"
  shows "\<exists>gs pend rest. wasm_fill l b n (map FrameCmd fs) = Some (enc_all (g @ gs), pend, map FrameCmd rest)
           \<and> group_ok l (g @ gs) \<and> fs = gs @ (case pend of None \<Rightarrow> [] | Some p \<Rightarrow> [p]) @ rest"
  using assms
proof (induction fs arbitrary: b g n)
  case Nil
  then show ?case by (intro exI [of _ "[]"] exI [of _ None]) simp
next
  case (Cons f fs)
  obtain e where e: "frame_encode f = Some e" using Cons.prems(4) frame_codec.enc_total [of 64 f] by auto
  have ne: "enc_all g \<noteq> []" using enc_all_Nil_iff [of 64 g] Cons.prems(3,4) by simp
  show ?case
  proof (cases "max_batch_frames l \<le> n \<or> min (max_batch_bytes l) (max_ws_message_size l) \<le> length b")
    case True
    then show ?thesis
      using Cons.prems by (intro exI [of _ "[]"] exI [of _ None] exI [of _ "f # fs"]) simp
  next
    case open_g: False
    show ?thesis
    proof (cases "min (max_batch_bytes l) (max_ws_message_size l) < length b + length e")
      case True
      then show ?thesis
        using Cons.prems open_g e ne by (intro exI [of _ "[]"] exI [of _ "Some f"] exI [of _ fs]) simp
    next
      case False
      have "group_ok l (g @ [f])"
        using Cons.prems open_g e False by (auto simp: group_ok_def max_bytes_def)
      then obtain gs pend rest where "wasm_fill l (b @ e) (Suc n) (map FrameCmd fs) = Some (enc_all ((g @ [f]) @ gs), pend, map FrameCmd rest)"
          "group_ok l ((g @ [f]) @ gs)" "fs = gs @ (case pend of None \<Rightarrow> [] | Some p \<Rightarrow> [p]) @ rest"
        using Cons.IH [of "b @ e" "g @ [f]" "Suc n"] Cons.prems e by auto
      then show ?thesis
        using open_g False e by (intro exI [of _ "f # gs"] exI [of _ pend] exI [of _ rest]) simp
    qed
  qed
qed

text \<open>Turns of the browser loop that send, while there is something to send and the connection works.\<close>

fun wasm_run :: "nat \<Rightarrow> stream_id \<Rightarrow> frame option \<Rightarrow> session \<Rightarrow> bytes list \<times> wasm_task \<times> session" where
  "wasm_run 0 k pend s = ([], WasmLoop pend, s)"
| "wasm_run (Suc n) k pend s = (case wasm_send_turn True False k pend s of
     None \<Rightarrow> ([], WasmLoop pend, s)
   | Some (WasmLoop pend', Some b, s1) \<Rightarrow> apfst ((#) b) (wasm_run n k pend' s1)
   | Some (t, _, s1) \<Rightarrow> ([], t, s1))"

lemma wasm_turn_groups:
  assumes "wasm_next_out False k pend s = (Ready (Some f), s1)" "outbound s1 = map FrameCmd fs"
    and "list_all (frame_wf 64) (f # fs)" "0 < max_batch_frames (limits_of s1)"
  shows "\<exists>gs pend' rest. wasm_send_turn True False k pend s
             = Some (WasmLoop pend', Some (enc_all (f # gs)), s1\<lparr>outbound := map FrameCmd rest\<rparr>)
           \<and> group_ok (limits_of s1) (f # gs) \<and> fs = gs @ (case pend' of None \<Rightarrow> [] | Some p \<Rightarrow> [p]) @ rest"
proof -
  obtain e where e: "frame_encode f = Some e" using assms(3) frame_codec.enc_total [of 64 f] by auto
  have "group_ok (limits_of s1) [f]" using assms(4) by (simp add: group_ok_def Suc_le_eq)
  then obtain gs pend' rest where
      "wasm_fill (limits_of s1) e 1 (map FrameCmd fs) = Some (enc_all ([f] @ gs), pend', map FrameCmd rest)"
      "group_ok (limits_of s1) ([f] @ gs)" "fs = gs @ (case pend' of None \<Rightarrow> [] | Some p \<Rightarrow> [p]) @ rest"
    using wasm_fill_groups [of e "[f]" 1 fs "limits_of s1"] assms(3) e by auto
  then show ?thesis
    using e assms(1,2) by (auto simp: wasm_send_turn_def wasm_batch_def)
qed

lemma wasm_run_groups:
  assumes "pending_credit s = []" "outbound_rx s" "outbound s = map FrameCmd fs" "0 < max_batch_frames (limits_of s)"
    and "list_all (frame_wf 64) (case_option [] (\<lambda>f. [f]) pend @ fs)"
    and "length (case_option [] (\<lambda>f. [f]) pend @ fs) \<le> n"
  shows "\<exists>gs. wasm_run n k pend s = (map enc_all gs, WasmLoop None, s\<lparr>outbound := []\<rparr>)
           \<and> concat gs = case_option [] (\<lambda>f. [f]) pend @ fs \<and> list_all (group_ok (limits_of s)) gs"
  using assms
proof (induction n arbitrary: pend fs s)
  case 0
  then have "pend = None" "fs = []" by (auto split: option.splits)
  with 0 show ?case by (intro exI [of _ "[]"]) simp
next
  case (Suc n)
  show ?case
  proof (cases "case_option [] (\<lambda>f. [f]) pend @ fs")
    case Nil
    then have "pend = None" "fs = []" by (auto split: option.splits)
    with Suc.prems(1-3) show ?thesis
      by (intro exI [of _ "[]"]) (simp add: wasm_send_turn_def wasm_next_out_def wasm_next_credit_def)
  next
    case (Cons f fs')
    define s1 where "s1 = s\<lparr>outbound := map FrameCmd fs'\<rparr>"
    have next_f: "wasm_next_out False k pend s = (Ready (Some f), s1)"
      using Cons Suc.prems(3) by (cases pend) (auto simp: wasm_next_out_def s1_def)
    obtain gs pend' rest where t: "wasm_send_turn True False k pend s
             = Some (WasmLoop pend', Some (enc_all (f # gs)), s1\<lparr>outbound := map FrameCmd rest\<rparr>)"
        "group_ok (limits_of s1) (f # gs)" "fs' = gs @ case_option [] (\<lambda>p. [p]) pend' @ rest"
      using wasm_turn_groups [OF next_f, of fs'] Suc.prems(4,5) Cons by (auto simp: s1_def)
    have "list_all (frame_wf 64) (f # fs')" "length (f # fs') \<le> Suc n" using Suc.prems(5,6) Cons by metis+
    then obtain hs where "wasm_run n k pend' (s1\<lparr>outbound := map FrameCmd rest\<rparr>)
          = (map enc_all hs, WasmLoop None, s1\<lparr>outbound := map FrameCmd rest, outbound := []\<rparr>)"
        "concat hs = case_option [] (\<lambda>p. [p]) pend' @ rest" "list_all (group_ok (limits_of s)) hs"
      using Suc.IH [of "s1\<lparr>outbound := map FrameCmd rest\<rparr>" rest pend'] Suc.prems(1,2,4) t(3) by (auto simp: s1_def)
    then show ?thesis
      using t Cons by (intro exI [of _ "(f # gs) # hs"]) (simp add: s1_def)
  qed
qed

text \<open>
  The browser task, left to run on a queue of frames with a working connection, sends all of them,
  in order and each in one message, in messages that hold whole frames, keep to the frame limit and
  exceed the byte limit only for a single frame; one turn per frame is enough.
\<close>

lemma wasm_task_drains_queue:
  assumes "pending_credit s = []" "outbound_rx s" "outbound s = map FrameCmd fs" "0 < max_batch_frames (limits_of s)"
    and "list_all (frame_wf 64) fs" "length fs \<le> n"
  shows "\<exists>gs. wasm_run n k None s = (map enc_all gs, WasmLoop None, s\<lparr>outbound := []\<rparr>)
           \<and> concat gs = fs \<and> list_all (group_ok (limits_of s)) gs"
  using wasm_run_groups [of s fs None n k] assms by simp

end
