(* ===== verification/Wasm_Wire.thy ===== *)
theory Wasm_Wire
  imports Wasm_Agreement Frame_Loop
begin

text \<open>
  A native peer and a browser across the wire: the browser's task takes apart what the native writer
  produced, frame by frame, and the native inbound loop what the browser's task sent.
\<close>

section \<open>The frame loop\<close>

definition browser_step :: "chan_env \<Rightarrow> frame \<Rightarrow> session \<Rightarrow> (bytes \<Rightarrow> bool) option \<times> session" where
  "browser_step e f s = (case wasm_handle_frame e f s of
     (Inl _, s1) \<Rightarrow> (Some (\<lambda>_. False), s1) | (Inr _, s1) \<Rightarrow> (None, s1))"

interpretation browser_loop: frame_loop 32 "browser_step e" "wasm_frames e" True for e
proof
  fix c f r s s1 h
  show "wasm_frames e [] s = (True, s)" by (simp add: wasm_frames.simps)
  assume c: "c \<noteq> []" "frame_decode 32 c = Inr (f, r)"
  show "browser_step e f s = (None, s1) \<Longrightarrow> wasm_frames e c s = wasm_frames e r s1"
    using c by (subst wasm_frames.simps) (auto simp: browser_step_def split: sum.splits prod.splits)
  show "browser_step e f s = (Some h, s1) \<Longrightarrow> wasm_frames e c s = (h r, s1)"
    using c by (subst wasm_frames.simps) (auto simp: browser_step_def split: sum.splits prod.splits)
qed

section \<open>Receiving\<close>

lemma wasm_limits [simp]:
  "limits_of (snd (wasm_try_send_frame e f s)) = limits_of s"
  "limits_of (snd (wasm_send_frame e f s)) = limits_of s"
  "limits_of (wasm_request_shutdown s) = limits_of s"
  "limits_of (close_all s) = limits_of s"
  "limits_of (snd (wasm_protocol_error e c m s)) = limits_of s"
  "limits_of (snd (stop_recv_stream i s)) = limits_of s"
  "limits_of (snd (remove_send_flow i s)) = limits_of s"
  "limits_of (snd (register_send_flow i n s)) = limits_of s"
  "limits_of (snd (register_recv_stream i s)) = limits_of s"
  "limits_of (snd (send_stream_new i r s)) = limits_of s"
  "limits_of (snd (validate_peer_stream_id i s)) = limits_of s"
  "limits_of (chan_update r h s) = limits_of s"
  "limits_of (flow_update r k s) = limits_of s"
  "limits_of (shared_update r j s) = limits_of s"
  by (auto simp: wasm_try_send_frame_def wasm_send_frame_def outbound_push_def wasm_request_shutdown_def close_all_def
      close_flows_def wasm_protocol_error_def wasm_state_eq stop_recv_stream_def remove_send_flow_def register_send_flow_def
      register_recv_stream_def send_stream_new_def validate_peer_stream_id_def chan_update_def flow_update_def
      shared_update_def Let_def split: option.splits stream_dir.splits prod.splits)

lemma wasm_limits_eqs:
  "wasm_try_send_frame e f s = (x, s1) \<Longrightarrow> limits_of s1 = limits_of s"
  "wasm_protocol_error e c m s = (x, s1) \<Longrightarrow> limits_of s1 = limits_of s"
  "stop_recv_stream i s = (b, s1) \<Longrightarrow> limits_of s1 = limits_of s"
  "remove_send_flow i s = (b, s1) \<Longrightarrow> limits_of s1 = limits_of s"
  "register_send_flow i n s = (y, s1) \<Longrightarrow> limits_of s1 = limits_of s"
  "register_recv_stream i s = (rv, s1) \<Longrightarrow> limits_of s1 = limits_of s"
  "send_stream_new i r s = (ss, s1) \<Longrightarrow> limits_of s1 = limits_of s"
  "validate_peer_stream_id i s = (b, s1) \<Longrightarrow> limits_of s1 = limits_of s"
  using wasm_limits by (metis snd_conv)+

lemma wasm_recv_drop_limits [simp]: "limits_of (wasm_recv_stream_drop e rv s) = limits_of s"
proof -
  obtain b s1 where "stop_recv_stream (rv_id rv) s = (b, s1)" by fastforce
  then show ?thesis using wasm_limits_eqs(3)
    by (auto simp: wasm_recv_stream_drop_def wasm_state_eq split: prod.splits sum.splits dest: wasm_limits_eqs(1))
qed

lemma wasm_send_drop_limits [simp]: "limits_of (wasm_send_stream_drop e ss s) = limits_of s"
  by (auto simp: wasm_send_stream_drop_def wasm_state_eq Let_def split: prod.splits sum.splits dest!: wasm_limits_eqs(1))

lemma wasm_open_limits:
  "limits_of (snd (wasm_handle_open_uni e i s)) = limits_of s"
  "limits_of (snd (wasm_handle_open_bi e i s)) = limits_of s"
  by (auto simp: wasm_handle_open_uni_def wasm_handle_open_bi_def wasm_state_eq wasm_drop_pair_def Let_def
      split: prod.splits bool.splits sum.splits dest!: wasm_limits_eqs)

lemma wasm_handle_limits: "limits_of (snd (wasm_handle_frame e f s)) = limits_of s"
  by (cases f) (auto simp: wasm_open_limits wasm_handle_stream_def wasm_state_eq wasm_flow_eq wasm_send_frame_def Let_def
      split: prod.splits bool.splits sum.splits option.splits dest!: wasm_limits_eqs)

text \<open>The frame-level view of the browser's loop, and messages that arrive one after the other; the
  channels may answer differently for each message.\<close>

fun wasm_handle_all :: "chan_env \<Rightarrow> frame list \<Rightarrow> session \<Rightarrow> bool \<times> session" where
  "wasm_handle_all e [] s = (True, s)"
| "wasm_handle_all e (f # fs) s = (case wasm_handle_frame e f s of
     (Inl _, s1) \<Rightarrow> (False, s1) | (Inr _, s1) \<Rightarrow> wasm_handle_all e fs s1)"

fun wasm_handle_groups :: "chan_env list \<Rightarrow> frame list list \<Rightarrow> session \<Rightarrow> bool \<times> session" where
  "wasm_handle_groups (e # es) (g # gs) s = (case wasm_handle_all e g s of
     (True, s1) \<Rightarrow> wasm_handle_groups es gs s1 | r \<Rightarrow> r)"
| "wasm_handle_groups _ _ s = (True, s)"

fun wasm_receive_all :: "chan_env list \<Rightarrow> ws_message list \<Rightarrow> session \<Rightarrow> bool \<times> session" where
  "wasm_receive_all (e # es) (WsBinary b # ms) s = (case wasm_recv_item e (Inr (Binary b)) s of
     (True, s1) \<Rightarrow> wasm_receive_all es ms s1 | r \<Rightarrow> r)"
| "wasm_receive_all _ _ s = (True, s)"

lemma wasm_handle_all_limits: "limits_of (snd (wasm_handle_all e fs s)) = limits_of s"
proof (induction fs arbitrary: s)
  case (Cons f fs)
  then show ?case using wasm_handle_limits [of e f s] by (auto split: prod.splits sum.splits)
qed simp

lemma wasm_frames_handle_all:
  assumes "list_all (frame_wf 32) fs"
  shows "wasm_frames e (enc_all fs) s = wasm_handle_all e fs s"
proof -
  have "run_frames (browser_step e) True fs s = wasm_handle_all e fs s" for s
    by (induction fs arbitrary: s) (auto simp: browser_step_def split: sum.splits prod.splits)
  then show ?thesis using browser_loop.loop_batch [OF assms enc_all_batch [OF assms]] by simp
qed

lemma wasm_receive_groups:
  assumes "list_all (list_all (frame_wf 32)) gs"
    and "list_all (\<lambda>g. length (enc_all g) \<le> max_ws_message_size (limits_of r)) gs"
  shows "wasm_receive_all es (map (\<lambda>g. WsBinary (enc_all g)) gs) r = wasm_handle_groups es gs r"
  using assms
proof (induction es gs r rule: wasm_handle_groups.induct)
  case (1 e es g gs s)
  have "limits_of s1 = limits_of s" if "wasm_handle_all e g s = (b, s1)" for b s1
    using wasm_handle_all_limits [of e g s] that by simp
  then show ?case using 1 wasm_frames_handle_all [of g e s] by (auto split: prod.splits bool.splits)
qed auto

text \<open>
  C12: a native session and a browser across the wire. When the queue of a native session holds the
  frames \<open>fs\<close> and its writer drains it into a working sink, the messages that come out carry a grouping
  of \<open>fs\<close>, and a browser whose message limit covers them handles exactly these frames in order, whatever
  room its channels have for each message; the frames must be representable on a 32-bit target.
\<close>

theorem wire_to_browser:
  assumes "sink_works tx" "session_inv s" "outbound s = map FrameCmd fs" "list_all (frame_wf 32) fs"
    and "max_bytes (limits_of s) \<le> max_ws_message_size (limits_of r)"
    and "list_all (\<lambda>f. length (enc_all [f]) \<le> max_ws_message_size (limits_of r)) fs"
  shows "\<exists>w' gs. writer_run tx (length fs) writer_new s = (OutLoop, w', s\<lparr>outbound := []\<rparr>) \<and> concat gs = fs
     \<and> length (sent_messages (sunk w')) = length gs
     \<and> (\<forall>es. wasm_receive_all es (sent_messages (sunk w')) r = wasm_handle_groups es gs r)"
proof -
  obtain w' gs where w: "writer_run tx (length fs) writer_new s = (OutLoop, w', s\<lparr>outbound := []\<rparr>)"
      "sent_messages (sunk w') = map (\<lambda>g. WsBinary (enc_all g)) gs" "concat gs = fs"
      "list_all (\<lambda>g. length (enc_all g) \<le> max_ws_message_size (limits_of r)) gs"
    using writer_groups [OF assms(1-3,5,6)] .
  moreover have "list_all (list_all (frame_wf 32)) gs" using assms(4) w(3) by (auto simp: list_all_iff)
  ultimately show ?thesis using wasm_receive_groups [of gs r] by auto
qed

theorem wire_to_browser_witness:
  "\<exists>w' gs. writer_run (\<lambda>_ _. Inr ()) 1 writer_new demo_session = (OutLoop, w', demo_session\<lparr>outbound := []\<rparr>)
     \<and> concat gs = [MaxStreamData (StreamId 2) 4]
     \<and> (\<forall>es. wasm_receive_all es (sent_messages (sunk w')) demo_browser = wasm_handle_groups es gs demo_browser)"
proof -
  let ?f = "MaxStreamData (StreamId 2) 4"
  have "session_inv demo_session"
    using session_system.reachable_inv [OF demo_reachable] by (simp add: sys_inv_def demo_sys_def sys_start_def)
  moreover have "frame_encode ?f = Some [6, 2, 4]" by code_simp
  moreover have "max_bytes (limits_of demo_session) = 64" "outbound demo_session = [FrameCmd ?f]"
      "max_ws_message_size (limits_of demo_browser) = 64"
    by (simp_all add: demo_session_def session_inner_new_def demo_limits_def max_bytes_def demo_browser_fields)
  ultimately show ?thesis
    using wire_to_browser [of "\<lambda>_ _. Inr ()" demo_session "[?f]" demo_browser]
    by (auto simp: sink_works_def frame_wf_def in_varint_def)
qed

text \<open>
  C13: a browser and a native session across the wire, in the other direction. When the queue of a browser
  session holds the frames \<open>fs\<close>, its task sends them within one turn per frame, and a native session whose
  message limit covers the batches of the browser and each single frame, receiving the messages in order,
  is left as by handling \<open>fs\<close> in order. (As for two native sessions, the handler does not suspend.)
\<close>

theorem wire_from_browser:
  assumes "pending_credit s = []" "outbound_rx s" "outbound s = map FrameCmd fs" "0 < max_batch_frames (limits_of s)"
    and "list_all (frame_wf 64) fs" "session_inv r" "max_bytes (limits_of s) \<le> max_ws_message_size (limits_of r)"
    and "list_all (\<lambda>f. length (enc_all [f]) \<le> max_ws_message_size (limits_of r)) fs"
    and "\<forall>k rest. fst (handle_all fs r) \<noteq> InFrames k rest"
  shows "\<exists>bs. wasm_run (length fs) k None s = (bs, WasmLoop None, s\<lparr>outbound := []\<rparr>)
     \<and> receive_all (map WsBinary bs) r = handle_all fs r"
proof -
  obtain gs where gs: "wasm_run (length fs) k None s = (map enc_all gs, WasmLoop None, s\<lparr>outbound := []\<rparr>)"
      "concat gs = fs" "list_all (group_ok (limits_of s)) gs"
    using wasm_task_drains_queue [OF assms(1-5) order_refl] by blast
  have "list_all (\<lambda>g. length (enc_all g) \<le> max_ws_message_size (limits_of r)) gs"
    using gs(2,3) assms(8) unfolding list_all_iff
    by (intro ballI group_size [OF _ assms(7)]) (auto simp: list_all_iff)
  moreover have "list_all (list_all (frame_wf 64)) gs" using assms(5) gs(2) by (auto simp: list_all_iff)
  ultimately have "receive_all (map (\<lambda>g. WsBinary (enc_all g)) gs) r = handle_all fs r"
    using receive_groups [OF assms(6), of gs] assms(9) gs(2) by auto
  then show ?thesis using gs(1) by (simp add: comp_def)
qed

theorem wire_from_browser_witness:
  "\<exists>bs. wasm_run 2 (StreamId 0) None
       (demo_browser\<lparr>outbound := [FrameCmd (OpenUni (StreamId 2)), FrameCmd (Stream (StreamId 2) [7, 8, 9] False)]\<rparr>)
       = (bs, WasmLoop None, demo_browser\<lparr>outbound := []\<rparr>)
     \<and> receive_all (map WsBinary bs) (session_inner_new True demo_limits)
       = (InLoop, demo_session\<lparr>accept_uni_queue := [demo_stream]\<rparr>)"
proof -
  let ?fs = "[OpenUni (StreamId 2), Stream (StreamId 2) [7, 8, 9] False]"
  let ?s = "demo_browser\<lparr>outbound := map FrameCmd ?fs\<rparr>" and ?r = "session_inner_new True demo_limits"
  have s: "pending_credit ?s = []" "outbound_rx ?s" "limits_of ?s = demo_limits" "limits_of ?r = demo_limits"
    by (simp_all add: demo_browser_def wasm_session_inner_new_def session_inner_new_def)
  have "limits_ok 64 demo_limits" by (simp add: limits_ok_def demo_limits_def usize_saturating_add_def)
  then have inv: "session_inv ?r" by (rule session_inv_new)
  have enc: "frame_encode (OpenUni (StreamId 2)) = Some [0, 2]"
    "frame_encode (Stream (StreamId 2) [7, 8, 9] False) = Some [2, 2, 0, 3, 7, 8, 9]" by code_simp+
  have lim: "0 < max_batch_frames (limits_of ?s)" "max_bytes (limits_of ?s) \<le> max_ws_message_size (limits_of ?r)"
      "max_ws_message_size (limits_of ?r) = 64"
    unfolding s(3,4) by (simp_all add: demo_limits_def max_bytes_def)
  have wf: "list_all (frame_wf 64) ?fs" "list_all (\<lambda>f. length (enc_all [f]) \<le> max_ws_message_size (limits_of ?r)) ?fs"
    using enc lim(3) by (simp_all add: frame_wf_def in_varint_def)
  have all: "handle_all ?fs ?r = (InLoop, demo_session\<lparr>accept_uni_queue := [demo_stream]\<rparr>)"
    by (simp add: demo_open demo_data)
  then have "\<forall>k rest. fst (handle_all ?fs ?r) \<noteq> InFrames k rest" by simp
  from wire_from_browser [OF s(1,2) _ lim(1) wf(1) inv lim(2) wf(2) this, of "StreamId 0"]
  show ?thesis unfolding all by (simp add: numeral_2_eq_2)
qed

end
