(* ===== verification/Handshake.thy ===== *)
theory Handshake
  imports Session_Api Session_Tasks Session_Inv
begin

text \<open>
  The opening handshake of the native endpoints (\<open>websock-tungstenite\<close> and \<open>websock-tungstenite-mux\<close>:
  \<open>client.rs\<close>, \<open>connection.rs\<close>, \<open>server.rs\<close>): request headers, the negotiation of the subprotocol, and
  the checks that an endpoint makes before it creates a session.

  Header names, values and maps belong to the \<open>http\<close> package. They are the parameter \<open>http_api\<close>;
  \<open>http_ok\<close> states what its documentation says of \<open>insert\<close>, \<open>append\<close>, \<open>get\<close> and of converting a value
  back to a string.
\<close>

section \<open>Strings\<close>

text \<open>\<open>str::split\<close> on a character, \<open>join\<close>, \<open>str::trim\<close> and \<open>eq_ignore_ascii_case\<close>, on ASCII strings.\<close>

fun split_on :: "char \<Rightarrow> string \<Rightarrow> string list" where
  "split_on c [] = [[]]"
| "split_on c (x # xs) =
     (if x = c then [] # split_on c xs
      else case split_on c xs of p # ps \<Rightarrow> (x # p) # ps | [] \<Rightarrow> [[x]])"

fun join_with :: "string \<Rightarrow> string list \<Rightarrow> string" where
  "join_with sep [] = []"
| "join_with sep [p] = p"
| "join_with sep (p # q # ps) = p @ sep @ join_with sep (q # ps)"

definition is_whitespace :: "char \<Rightarrow> bool" where
  "is_whitespace c \<longleftrightarrow> of_char c \<in> {9, 10, 11, 12, 13, 32 :: nat}"

definition trim :: "string \<Rightarrow> string" where
  "trim s = rev (dropWhile is_whitespace (rev (dropWhile is_whitespace s)))"

definition to_ascii_lowercase :: "char \<Rightarrow> char" where
  "to_ascii_lowercase c =
     (if 65 \<le> (of_char c :: nat) \<and> (of_char c :: nat) \<le> 90 then char_of ((of_char c :: nat) + 32) else c)"

definition eq_ignore_ascii_case :: "string \<Rightarrow> string \<Rightarrow> bool" where
  "eq_ignore_ascii_case a b \<longleftrightarrow> map to_ascii_lowercase a = map to_ascii_lowercase b"

text \<open>A subprotocol name that survives being listed: no comma, and nothing that \<open>trim\<close> removes.\<close>

definition clean_name :: "string \<Rightarrow> bool" where
  "clean_name p \<longleftrightarrow> CHR '','' \<notin> set p \<and> trim p = p"

lemma split_on_not_Nil [simp]: "split_on c s \<noteq> []"
  by (induction s) (auto split: list.splits)

lemma split_on_fresh: "c \<notin> set p \<Longrightarrow> split_on c p = [p]"
  by (induction p) auto

lemma split_on_append: "c \<notin> set p \<Longrightarrow> split_on c (p @ c # s) = p # split_on c s"
  by (induction p) (auto split: list.splits)

lemma split_join:
  "list_all (\<lambda>p. c \<notin> set p) ps \<Longrightarrow> ps \<noteq> [] \<Longrightarrow> split_on c (join_with [c] ps) = ps"
  by (induction "[c]" ps rule: join_with.induct) (auto simp: split_on_fresh split_on_append)

lemma split_join_clean:
  assumes "list_all clean_name ps" "ps \<noteq> []"
  shows "map trim (split_on CHR '','' (join_with '','' ps)) = ps"
proof -
  have "split_on CHR '','' (join_with '','' ps) = ps"
    using assms by (intro split_join) (auto simp: list_all_iff clean_name_def)
  then show ?thesis using assms(1) by (simp add: list_all_iff clean_name_def map_idI)
qed

section \<open>HTTP headers\<close>

record ('n, 'v, 'h) http_api =
  name_from_bytes :: "string \<Rightarrow> string + 'n"
  value_from_str :: "string \<Rightarrow> string + 'v"
  value_to_str :: "'v \<Rightarrow> string option"
  sec_websocket_protocol :: 'n
  headers_append :: "'n \<Rightarrow> 'v \<Rightarrow> 'h \<Rightarrow> 'h"
  headers_insert :: "'n \<Rightarrow> 'v \<Rightarrow> 'h \<Rightarrow> 'h"
  headers_get :: "'n \<Rightarrow> 'h \<Rightarrow> 'v option"

definition http_ok :: "('n, 'v, 'h) http_api \<Rightarrow> bool" where
  "http_ok a \<longleftrightarrow>
     (\<forall>n v h. headers_get a n (headers_insert a n v h) = Some v)
     \<and> (\<forall>n m v h. n \<noteq> m \<longrightarrow> headers_get a n (headers_insert a m v h) = headers_get a n h)
     \<and> (\<forall>n m v h. n \<noteq> m \<longrightarrow> headers_get a n (headers_append a m v h) = headers_get a n h)
     \<and> (\<forall>s v. value_from_str a s = Inr v \<longrightarrow> value_to_str a v = Some s)"

text \<open>Configured headers: \<open>prepare_headers\<close> of the servers, and the loop of the clients.\<close>

fun prepare_headers :: "('n, 'v, 'h) http_api \<Rightarrow> (string \<times> string) list \<Rightarrow> error + ('n \<times> 'v) list" where
  "prepare_headers a [] = Inr []"
| "prepare_headers a ((k, v) # hs) = (case name_from_bytes a k of
     Inl e \<Rightarrow> Inl (Protocol (''invalid header name: '' @ e))
   | Inr n \<Rightarrow>
       (case value_from_str a v of
          Inl e \<Rightarrow> Inl (Protocol (''invalid header value: '' @ e))
        | Inr x \<Rightarrow> try_bind (prepare_headers a hs) (\<lambda>r. Inr ((n, x) # r))))"

fun append_headers :: "('n, 'v, 'h) http_api \<Rightarrow> (string \<times> string) list \<Rightarrow> 'h \<Rightarrow> error + 'h" where
  "append_headers a [] h = Inr h"
| "append_headers a ((k, v) # hs) h = (case name_from_bytes a k of
     Inl e \<Rightarrow> Inl (Protocol (''invalid header name: '' @ e))
   | Inr n \<Rightarrow>
       (case value_from_str a v of
          Inl e \<Rightarrow> Inl (Protocol (''invalid header value: '' @ e))
        | Inr x \<Rightarrow> append_headers a hs (headers_append a n x h)))"

fun validate_protocols :: "('n, 'v, 'h) http_api \<Rightarrow> string list \<Rightarrow> error + unit" where
  "validate_protocols a [] = Inr ()"
| "validate_protocols a (p # ps) = (case value_from_str a p of
     Inl e \<Rightarrow> Inl (Protocol (''invalid protocol value: '' @ e))
   | Inr _ \<Rightarrow> validate_protocols a ps)"

definition apply_protocols :: "('n, 'v, 'h) http_api \<Rightarrow> string list \<Rightarrow> 'h \<Rightarrow> error + 'h" where
  "apply_protocols a ps h =
     (if ps = [] then Inr h
      else case value_from_str a (join_with '','' ps) of
        Inl e \<Rightarrow> Inl (Protocol (''invalid protocol value: '' @ e))
      | Inr v \<Rightarrow> Inr (headers_insert a (sec_websocket_protocol a) v h))"

text \<open>The headers of a request, from the ones \<open>into_client_request\<close> starts with.\<close>

definition client_request :: "('n, 'v, 'h) http_api \<Rightarrow> connect_options \<Rightarrow> 'h \<Rightarrow> error + 'h" where
  "client_request a opts h = try_bind (append_headers a (co_headers opts) h) (apply_protocols a (co_protocols opts))"

text \<open>\<open>select_protocol\<close>: the first requested protocol that is allowed.\<close>

definition select_protocol :: "('n, 'v, 'h) http_api \<Rightarrow> string set \<Rightarrow> 'h \<Rightarrow> string option" where
  "select_protocol a allowed req =
     (if allowed = {} then None
      else do {
        v \<leftarrow> headers_get a (sec_websocket_protocol a) req;
        header \<leftarrow> value_to_str a v;
        find (\<lambda>c. c \<in> allowed) (map trim (split_on CHR '','' header))
      })"

lemma validate_protocols_ok: "validate_protocols a ps = Inr () \<Longrightarrow> p \<in> set ps \<Longrightarrow> \<exists>v. value_from_str a p = Inr v"
  by (induction ps) (auto split: sum.splits)

lemma select_protocol_in: "select_protocol a allowed req = Some p \<Longrightarrow> p \<in> allowed"
  by (auto simp: select_protocol_def find_Some_iff split: if_splits option.splits bind_splits)

lemma apply_protocols_select:
  assumes "http_ok a" "apply_protocols a ps h = Inr req" "ps \<noteq> []" "list_all clean_name ps" "allowed \<noteq> {}"
  shows "select_protocol a allowed req = find (\<lambda>p. p \<in> allowed) ps"
proof -
  obtain v where "value_from_str a (join_with '','' ps) = Inr v" "req = headers_insert a (sec_websocket_protocol a) v h"
    using assms(2,3) by (auto simp: apply_protocols_def split: sum.splits)
  then show ?thesis
    using assms(1,5) split_join_clean [OF assms(4,3)] by (simp add: select_protocol_def http_ok_def)
qed

lemma client_request_select:
  assumes "http_ok a" "client_request a copts h = Inr req" "co_protocols copts \<noteq> []"
    and "list_all clean_name (co_protocols copts)" "allowed \<noteq> {}"
  shows "select_protocol a allowed req = find (\<lambda>p. p \<in> allowed) (co_protocols copts)"
  using apply_protocols_select [OF assms(1) _ assms(3-5)] assms(2) by (auto simp: client_request_def try_bind_Inr_iff)

section \<open>The two ends of a handshake\<close>

text \<open>Socket addresses of the standard library: octets or segments, and a port.\<close>

datatype socket_addr = AddrV4 "u8 list" u16 | AddrV6 "u16 list" u16

text \<open>
  What tungstenite reports to a server: the accepted TCP stream, the TLS handshake, the parsed request
  with the response it prepared, the outcome of answering, and what arrives afterwards. A rejected
  request ends in an error.
\<close>

record http_reject =
  status :: nat
  body :: string

record ('h, 'tls, 'addr) incoming =
  tcp_accept :: "io_error + unit"
  tcp_peer :: "io_error + 'addr"
  tcp_local :: "io_error + 'addr"
  tls_accept :: "'tls \<Rightarrow> string + unit"
  hs_request :: "ws_config \<Rightarrow> tungstenite_error + ('h \<times> 'h)"
  hs_reply :: "'h \<Rightarrow> tungstenite_error + unit"
  hs_reject :: "http_reject \<Rightarrow> tungstenite_error"
  hs_items :: "(tungstenite_error + ws_message) list"

text \<open>\<open>accept_hdr_async_with_config\<close> with a callback; \<open>None\<close> is a panic of the callback.\<close>

definition accept_hdr ::
  "('h, 'tls, 'addr) incoming \<Rightarrow> ('h \<Rightarrow> 'h \<Rightarrow> (http_reject + 'h \<times> 'b) option) \<Rightarrow> ws_config \<Rightarrow> (tungstenite_error + 'b) option" where
  "accept_hdr inc callback cfg = (case hs_request inc cfg of
     Inl e \<Rightarrow> Some (Inl e)
   | Inr (req, resp) \<Rightarrow>
       (case callback req resp of
          None \<Rightarrow> None
        | Some (Inl r) \<Rightarrow> Some (Inl (hs_reject inc r))
        | Some (Inr (resp', b)) \<Rightarrow> Some (try_bind (hs_reply inc resp') (\<lambda>_. Inr b))))"

lemma accept_hdr_total:
  assumes "\<And>req resp. callback req resp \<noteq> None"
  shows "\<exists>r. accept_hdr inc callback cfg = Some r"
proof (cases "hs_request inc cfg")
  case (Inr p)
  then show ?thesis
    using assms [of "fst p" "snd p"] by (cases p) (auto simp: accept_hdr_def split: sum.splits)
qed (simp add: accept_hdr_def)

text \<open>The TLS handshake of a server with an acceptor.\<close>

definition tls_upgrade :: "('h, 'tls, 'addr) incoming \<Rightarrow> 'tls option \<Rightarrow> error + bool" where
  "tls_upgrade inc acceptor = (case acceptor of
     None \<Rightarrow> Inr False
   | Some t \<Rightarrow> (case tls_accept inc t of Inl e \<Rightarrow> Inl (Tls e) | Inr _ \<Rightarrow> Inr True))"

definition map_io :: "io_error + 'a \<Rightarrow> error + 'a" where
  "map_io r = (case r of Inl e \<Rightarrow> Inl (Io e) | Inr x \<Rightarrow> Inr x)"

definition map_ws :: "tungstenite_error + 'a \<Rightarrow> error + 'a" where
  "map_ws r = (case r of Inl e \<Rightarrow> Inl (map_tungstenite_err e) | Inr x \<Rightarrow> Inr x)"

definition response_headers :: "('n, 'v, 'h) http_api \<Rightarrow> ('n \<times> 'v) list \<Rightarrow> 'h \<Rightarrow> 'h" where
  "response_headers a hs resp = fold (\<lambda>(n, v). headers_append a n v) hs resp"

end
