(* ===== verification/Mux_Endpoints.thy ===== *)
theory Mux_Endpoints
  imports Handshake Session_Runs
begin

text \<open>
  The multiplexing endpoints of \<open>websock-tungstenite-mux\<close>: the builders (\<open>builder.rs\<close>), the client
  (\<open>client.rs\<close>) and the server (\<open>server.rs\<close>), up to the session that each of them creates. The
  configuration of TLS is a type parameter; the outcomes of dialling and of listening are parameters.
\<close>

definition SUBPROTOCOL :: string where
  "SUBPROTOCOL = ''websock-mux-1''"

section \<open>Client\<close>

record 'tls mux_client =
  mc_opts :: connect_options
  mc_tls :: "'tls option"
  mc_limits :: limits

definition negotiated_protocol :: "('n, 'v, 'h) http_api \<Rightarrow> 'h \<Rightarrow> string option" where
  "negotiated_protocol a resp = do {
     v \<leftarrow> headers_get a (sec_websocket_protocol a) resp;
     s \<leftarrow> value_to_str a v;
     Some (trim s)
   }"

definition is_protocol_ok :: "string \<Rightarrow> bool" where
  "is_protocol_ok p \<longleftrightarrow> eq_ignore_ascii_case p SUBPROTOCOL"

definition mux_connect_with_tls ::
  "('n, 'v, 'h) http_api \<Rightarrow> (string \<Rightarrow> string + 'h) \<Rightarrow> ('tls option \<Rightarrow> ws_config \<Rightarrow> 'h \<Rightarrow> tungstenite_error + 'h)
   \<Rightarrow> 'tls option \<Rightarrow> 'tls mux_client \<Rightarrow> string \<Rightarrow> error + session" where
  "mux_connect_with_tls a into_client_request dial tls c url =
     try_bind (limits_validate 64 (mc_limits c)) (\<lambda>_.
     try_bind (validate_protocols a (co_protocols (mc_opts c))) (\<lambda>_.
     case into_client_request url of
       Inl e \<Rightarrow> Inl (Transport e)
     | Inr h \<Rightarrow>
         try_bind (client_request a (mc_opts c) h) (\<lambda>req.
         try_bind (map_ws (dial tls (limits_websocket_config 64 (mc_limits c)) req)) (\<lambda>resp.
         case negotiated_protocol a resp of
           None \<Rightarrow> Inl (Protocol ''missing SEC_WEBSOCKET_PROTOCOL in response'')
         | Some p \<Rightarrow>
             if \<not> is_protocol_ok p then Inl (Protocol (''subprotocol mismatch: '' @ p))
             else session_new False (mc_limits c)))))"

definition mux_connect ::
  "('n, 'v, 'h) http_api \<Rightarrow> (string \<Rightarrow> string + 'h) \<Rightarrow> ('tls option \<Rightarrow> ws_config \<Rightarrow> 'h \<Rightarrow> tungstenite_error + 'h)
   \<Rightarrow> 'tls mux_client \<Rightarrow> string \<Rightarrow> error + session" where
  "mux_connect a into_client_request dial c = mux_connect_with_tls a into_client_request dial (mc_tls c) c"

section \<open>Server\<close>

record ('n, 'v, 'tls) mux_server =
  ms_listener :: "io_error + socket_addr"
  ms_allowed :: "string set"
  ms_headers :: "('n \<times> 'v) list"
  ms_acceptor :: "'tls option"
  ms_limits :: limits

text \<open>
  \<open>listening\<close> is the outcome of \<open>TcpListener::bind\<close>; a listener is represented by what it reports as its
  address.
\<close>

definition mux_bind ::
  "('n, 'v, 'h) http_api \<Rightarrow> io_error + (io_error + socket_addr) \<Rightarrow> server_options \<Rightarrow> 'tls option \<Rightarrow> limits
   \<Rightarrow> error + ('n, 'v, 'tls) mux_server" where
  "mux_bind a listening opts tls l =
     try_bind (limits_validate 64 l) (\<lambda>_.
     try_bind (map_io listening) (\<lambda>listener.
     try_bind (prepare_headers a (so_headers opts)) (\<lambda>headers.
     try_bind (validate_protocols a (so_protocols opts)) (\<lambda>_.
     if SUBPROTOCOL \<notin> set (so_protocols opts) then Inl (Protocol ''SUBPROTOCOL missing in ServerOptions'')
     else Inr \<lparr>ms_listener = listener, ms_allowed = set (so_protocols opts), ms_headers = headers, ms_acceptor = tls, ms_limits = l\<rparr>))))"

definition protocol_required :: http_reject where
  "protocol_required = \<lparr>status = 400, body = [CHR 0x27] @ SUBPROTOCOL @ [CHR 0x27] @ '' protocol required''\<rparr>"

text \<open>The handshake callback; \<open>None\<close> is the panic of \<open>expect\<close>.\<close>

definition mux_callback ::
  "('n, 'v, 'h) http_api \<Rightarrow> ('n, 'v, 'tls) mux_server \<Rightarrow> 'h \<Rightarrow> 'h \<Rightarrow> (http_reject + 'h \<times> unit) option" where
  "mux_callback a srv req resp =
     (let resp1 = response_headers a (ms_headers srv) resp in
      case select_protocol a (ms_allowed srv) req of
        None \<Rightarrow> Some (Inl protocol_required)
      | Some p \<Rightarrow>
          if \<not> eq_ignore_ascii_case p SUBPROTOCOL then Some (Inl protocol_required)
          else case value_from_str a p of
            Inl _ \<Rightarrow> None
          | Inr v \<Rightarrow> Some (Inr (headers_insert a (sec_websocket_protocol a) v resp1, ())))"

definition mux_accept ::
  "('n, 'v, 'h) http_api \<Rightarrow> ('h, 'tls, 'addr) incoming \<Rightarrow> ('n, 'v, 'tls) mux_server \<Rightarrow> (error + session) option" where
  "mux_accept a inc srv = (case try_bind (map_io (tcp_accept inc)) (\<lambda>_. tls_upgrade inc (ms_acceptor srv)) of
     Inl e \<Rightarrow> Some (Inl e)
   | Inr _ \<Rightarrow>
       (case accept_hdr inc (mux_callback a srv) (limits_websocket_config 64 (ms_limits srv)) of
          None \<Rightarrow> None
        | Some r \<Rightarrow> Some (try_bind (map_ws r) (\<lambda>_. session_new True (ms_limits srv)))))"

definition mux_local_addr :: "('n, 'v, 'tls) mux_server \<Rightarrow> error + socket_addr" where
  "mux_local_addr srv = map_io (ms_listener srv)"

section \<open>Builders\<close>

record ('tls) mux_client_builder =
  cb_opts :: connect_options
  cb_tls :: "'tls option"
  cb_alpn :: "bytes list option"
  cb_limits :: limits

definition mux_client_builder_new :: "'tls mux_client_builder" where
  "mux_client_builder_new =
     \<lparr>cb_opts = connect_options_default\<lparr>co_protocols := SUBPROTOCOL # co_protocols connect_options_default\<rparr>,
      cb_tls = None, cb_alpn = None, cb_limits = limits_default\<rparr>"

definition mux_client_with_options :: "connect_options \<Rightarrow> 'tls mux_client_builder \<Rightarrow> 'tls mux_client_builder" where
  "mux_client_with_options opts b =
     b\<lparr>cb_opts := (if SUBPROTOCOL \<in> set (co_protocols opts) then opts
                   else opts\<lparr>co_protocols := SUBPROTOCOL # co_protocols opts\<rparr>)\<rparr>"

definition mux_client_with_tls :: "'tls \<Rightarrow> 'tls mux_client_builder \<Rightarrow> 'tls mux_client_builder" where
  "mux_client_with_tls t b = b\<lparr>cb_tls := Some t\<rparr>"

definition mux_client_with_alpn :: "bytes list \<Rightarrow> 'tls mux_client_builder \<Rightarrow> 'tls mux_client_builder" where
  "mux_client_with_alpn p b = b\<lparr>cb_alpn := Some p\<rparr>"

definition mux_client_with_default_alpn :: "'tls mux_client_builder \<Rightarrow> 'tls mux_client_builder" where
  "mux_client_with_default_alpn b = b\<lparr>cb_alpn := Some default_ws_alpn\<rparr>"

definition mux_client_with_limits :: "limits \<Rightarrow> 'tls mux_client_builder \<Rightarrow> 'tls mux_client_builder" where
  "mux_client_with_limits l b = b\<lparr>cb_limits := l\<rparr>"

definition mux_client_with_header :: "string \<Rightarrow> string \<Rightarrow> 'tls mux_client_builder \<Rightarrow> 'tls mux_client_builder" where
  "mux_client_with_header n v b = b\<lparr>cb_opts := (cb_opts b)\<lparr>co_headers := co_headers (cb_opts b) @ [(n, v)]\<rparr>\<rparr>"

definition mux_client_with_protocol :: "string \<Rightarrow> 'tls mux_client_builder \<Rightarrow> 'tls mux_client_builder" where
  "mux_client_with_protocol p b = b\<lparr>cb_opts := (cb_opts b)\<lparr>co_protocols := co_protocols (cb_opts b) @ [p]\<rparr>\<rparr>"

text \<open>\<open>build_tls_config\<close>: \<open>set_alpn\<close> is the assignment of \<open>alpn_protocols\<close>.\<close>

definition build_tls_config :: "(bytes list \<Rightarrow> 'tls \<Rightarrow> 'tls) \<Rightarrow> 'tls option \<Rightarrow> bytes list option \<Rightarrow> 'tls option" where
  "build_tls_config set_alpn tls alpn = do {
     cfg \<leftarrow> tls;
     Some (case alpn of None \<Rightarrow> cfg | Some p \<Rightarrow> set_alpn p cfg)
   }"

definition mux_client_build :: "(bytes list \<Rightarrow> 'tls \<Rightarrow> 'tls) \<Rightarrow> 'tls mux_client_builder \<Rightarrow> 'tls mux_client" where
  "mux_client_build set_alpn b =
     \<lparr>mc_opts = cb_opts b, mc_tls = build_tls_config set_alpn (cb_tls b) (cb_alpn b), mc_limits = cb_limits b\<rparr>"

record ('tls) mux_server_builder =
  sb_addr :: socket_addr
  sb_opts :: server_options
  sb_tls :: "'tls option"
  sb_alpn :: "bytes list option"
  sb_limits :: limits

definition mux_server_builder_new :: "'tls mux_server_builder" where
  "mux_server_builder_new =
     \<lparr>sb_addr = AddrV4 [127, 0, 0, 1] 0,
      sb_opts = server_options_default\<lparr>so_protocols := so_protocols server_options_default @ [SUBPROTOCOL]\<rparr>,
      sb_tls = None, sb_alpn = None, sb_limits = limits_default\<rparr>"

definition mux_server_with_addr :: "socket_addr \<Rightarrow> 'tls mux_server_builder \<Rightarrow> 'tls mux_server_builder" where
  "mux_server_with_addr x b = b\<lparr>sb_addr := x\<rparr>"

definition mux_server_with_options :: "server_options \<Rightarrow> 'tls mux_server_builder \<Rightarrow> 'tls mux_server_builder" where
  "mux_server_with_options opts b =
     b\<lparr>sb_opts := (if SUBPROTOCOL \<in> set (so_protocols opts) then opts
                   else opts\<lparr>so_protocols := SUBPROTOCOL # so_protocols opts\<rparr>)\<rparr>"

definition mux_server_with_tls :: "'tls \<Rightarrow> 'tls mux_server_builder \<Rightarrow> 'tls mux_server_builder" where
  "mux_server_with_tls t b = b\<lparr>sb_tls := Some t\<rparr>"

definition mux_server_with_alpn :: "bytes list \<Rightarrow> 'tls mux_server_builder \<Rightarrow> 'tls mux_server_builder" where
  "mux_server_with_alpn p b = b\<lparr>sb_alpn := Some p\<rparr>"

definition mux_server_with_default_alpn :: "'tls mux_server_builder \<Rightarrow> 'tls mux_server_builder" where
  "mux_server_with_default_alpn b = b\<lparr>sb_alpn := Some default_ws_alpn\<rparr>"

definition mux_server_with_limits :: "limits \<Rightarrow> 'tls mux_server_builder \<Rightarrow> 'tls mux_server_builder" where
  "mux_server_with_limits l b = b\<lparr>sb_limits := l\<rparr>"

definition mux_server_with_header :: "string \<Rightarrow> string \<Rightarrow> 'tls mux_server_builder \<Rightarrow> 'tls mux_server_builder" where
  "mux_server_with_header n v b = b\<lparr>sb_opts := (sb_opts b)\<lparr>so_headers := so_headers (sb_opts b) @ [(n, v)]\<rparr>\<rparr>"

definition mux_server_with_protocol :: "string \<Rightarrow> 'tls mux_server_builder \<Rightarrow> 'tls mux_server_builder" where
  "mux_server_with_protocol p b = b\<lparr>sb_opts := (sb_opts b)\<lparr>so_protocols := so_protocols (sb_opts b) @ [p]\<rparr>\<rparr>"

definition mux_server_build ::
  "('n, 'v, 'h) http_api \<Rightarrow> (bytes list \<Rightarrow> 'tls \<Rightarrow> 'tls) \<Rightarrow> (socket_addr \<Rightarrow> io_error + (io_error + socket_addr)) \<Rightarrow> 'tls mux_server_builder
   \<Rightarrow> error + ('n, 'v, 'tls) mux_server" where
  "mux_server_build a set_alpn tcp_bind b =
     mux_bind a (tcp_bind (sb_addr b)) (sb_opts b) (build_tls_config set_alpn (sb_tls b) (sb_alpn b)) (sb_limits b)"

section \<open>Negotiation\<close>

lemma mux_bind_server:
  assumes "mux_bind a listening opts tls l = Inr srv"
  shows "limits_validate 64 l = Inr ()" "validate_protocols a (so_protocols opts) = Inr ()"
    "SUBPROTOCOL \<in> set (so_protocols opts)" "ms_allowed srv = set (so_protocols opts)" "ms_limits srv = l"
    "ms_acceptor srv = tls"
  using assms by (auto simp: mux_bind_def try_bind_Inr_iff split: if_splits)

lemma mux_callback_total:
  assumes "mux_bind a listening opts tls l = Inr srv"
  shows "mux_callback a srv req resp \<noteq> None"
proof (cases "select_protocol a (ms_allowed srv) req")
  case (Some p)
  then have "p \<in> set (so_protocols opts)"
    using select_protocol_in [OF Some] mux_bind_server(4) [OF assms] by simp
  then obtain v where "value_from_str a p = Inr v"
    using validate_protocols_ok [OF mux_bind_server(2) [OF assms]] by blast
  then show ?thesis using Some by (simp add: mux_callback_def Let_def)
qed (simp add: mux_callback_def)

lemma negotiated_inserted:
  assumes "http_ok a" "value_from_str a p = Inr v" "trim p = p"
  shows "negotiated_protocol a (headers_insert a (sec_websocket_protocol a) v h) = Some p"
  using assms by (simp add: negotiated_protocol_def http_ok_def)

lemma mux_callback_selected:
  assumes "http_ok a" "mux_bind a listening opts tls l = Inr srv"
    and "select_protocol a (ms_allowed srv) req = Some p" "is_protocol_ok p" "trim p = p"
  shows "\<exists>resp'. mux_callback a srv req resp = Some (Inr (resp', ())) \<and> negotiated_protocol a resp' = Some p"
proof -
  have "p \<in> set (so_protocols opts)"
    using select_protocol_in [OF assms(3)] mux_bind_server(4) [OF assms(2)] by simp
  then obtain v where "value_from_str a p = Inr v"
    using validate_protocols_ok [OF mux_bind_server(2) [OF assms(2)]] by blast
  then show ?thesis
    using assms negotiated_inserted [OF assms(1)] by (auto simp: mux_callback_def is_protocol_ok_def Let_def)
qed

text \<open>
  Negotiation is decided by the first protocol of the client's list that the server allows. If it
  is the multiplexing protocol up to ASCII case, the server answers with it and the client reads exactly
  it out of the response; in every other case the server rejects the request with status 400.
\<close>

lemma mux_handshake_agrees:
  assumes "http_ok a" "mux_bind a listening opts tls l = Inr srv" "client_request a copts h = Inr req"
    and "co_protocols copts \<noteq> []" "list_all clean_name (co_protocols copts)"
  shows "case find (\<lambda>p. p \<in> set (so_protocols opts)) (co_protocols copts) of
      Some p \<Rightarrow>
        if is_protocol_ok p
        then \<exists>resp'. mux_callback a srv req resp = Some (Inr (resp', ())) \<and> negotiated_protocol a resp' = Some p
        else mux_callback a srv req resp = Some (Inl protocol_required)
    | None \<Rightarrow> mux_callback a srv req resp = Some (Inl protocol_required)"
proof -
  let ?allowed = "set (so_protocols opts)"
  note srv = mux_bind_server [OF assms(2)]
  have "?allowed \<noteq> {}" using srv(3) by auto
  then have sel: "select_protocol a (ms_allowed srv) req = find (\<lambda>p. p \<in> ?allowed) (co_protocols copts)"
    using client_request_select [OF assms(1,3-5)] srv(4) by simp
  show ?thesis
  proof (cases "find (\<lambda>p. p \<in> ?allowed) (co_protocols copts)")
    case (Some p)
    then have "p \<in> set (co_protocols copts)" by (auto simp: find_Some_iff)
    then have "trim p = p" using assms(5) by (auto simp: list_all_iff clean_name_def)
    with Some sel mux_callback_selected [OF assms(1,2), of req p resp] show ?thesis
      by (auto simp: mux_callback_def is_protocol_ok_def)
  qed (simp add: sel mux_callback_def)
qed

definition demo_http :: "(string, string, (string \<times> string) list) http_api" where
  "demo_http = \<lparr>name_from_bytes = Inr, value_from_str = Inr, value_to_str = Some,
     sec_websocket_protocol = ''sec-websocket-protocol'', headers_append = (\<lambda>n v h. h @ [(n, v)]),
     headers_insert = (\<lambda>n v h. (n, v) # filter (\<lambda>(m, _). m \<noteq> n) h), headers_get = (\<lambda>n h. map_of h n)\<rparr>"

lemma demo_http_ok: "http_ok demo_http"
proof -
  have "map_of (filter (\<lambda>(k, _). k \<noteq> m) h) n = map_of h n" if "n \<noteq> m" for n m :: string and h :: "(string \<times> string) list"
    using that by (induction h) auto
  then show ?thesis by (simp add: http_ok_def demo_http_def map_add_def split: option.splits)
qed

lemma demo_value [simp]: "value_from_str demo_http v = Inr v"
  by (simp add: demo_http_def)

lemma limits_default_valid: "limits_validate 64 limits_default = Inr ()"
  by (simp add: limits_validate_ok_iff limits_ok_def limits_default_def usize_saturating_add_def)

definition demo_server_opts :: server_options where
  "demo_server_opts = server_options_default\<lparr>so_protocols := [''json'', SUBPROTOCOL]\<rparr>"

definition demo_client_opts :: connect_options where
  "demo_client_opts = connect_options_default\<lparr>co_protocols := [''cbor'', SUBPROTOCOL]\<rparr>"

definition demo_listener :: "io_error + socket_addr" where
  "demo_listener = Inr (AddrV4 [127, 0, 0, 1] 80)"

lemma demo_bound: "\<exists>srv. mux_bind demo_http (Inr demo_listener) demo_server_opts (None :: unit option) limits_default = Inr srv"
  by (simp add: mux_bind_def limits_default_valid map_io_def demo_server_opts_def server_options_default_def)

text \<open>Whatever request arrives and whatever the network does, the value behind \<open>expect\<close> is there.\<close>

lemma mux_accept_total:
  assumes "mux_bind a listening opts tls l = Inr srv"
  shows "\<exists>r. mux_accept a inc srv = Some r"
  using accept_hdr_total [of "mux_callback a srv" inc "limits_websocket_config 64 (ms_limits srv)"] mux_callback_total [OF assms]
  by (auto simp: mux_accept_def split: sum.splits option.splits)

section \<open>Connecting\<close>

lemma session_new_ok:
  assumes "limits_validate 64 l = Inr ()"
  obtains s where "session_new server l = Inr s" "is_server s = server" "limits_of s = l" "session_inv s"
  using assms session_inv_new [of l server]
  by (auto simp: session_new_def session_inner_new_def limits_validate_ok_iff)


definition demo_incoming :: "((string \<times> string) list, unit, nat) incoming" where
  "demo_incoming = \<lparr>tcp_accept = Inr (), tcp_peer = Inr 1, tcp_local = Inr 2, tls_accept = (\<lambda>_. Inr ()),
     hs_request = (\<lambda>_. Inr ([(''sec-websocket-protocol'', SUBPROTOCOL)], [])), hs_reply = (\<lambda>_. Inr ()),
     hs_reject = (\<lambda>r. TOther (body r)), hs_items = []\<rparr>"

definition demo_dial :: "unit option \<Rightarrow> ws_config \<Rightarrow> (string \<times> string) list \<Rightarrow> tungstenite_error + (string \<times> string) list" where
  "demo_dial tls cfg req = Inr req"


end
