(* ===== verification/Plain_Connection.thy ===== *)
theory Plain_Connection
  imports Handshake
begin

text \<open>
  The plain native connection (\<open>websock-tungstenite/src/connection.rs\<close>). The WebSocket stream of
  tungstenite is a parameter: the items it will still yield (its end when there are none left), and the
  outcome of every operation on its sink, as in the session tasks.
\<close>

section \<open>Connections\<close>

record connection_info =
  info_peer :: socket_addr
  info_local :: socket_addr
  info_is_tls :: bool
  info_subprotocol :: "string option"

record plain_conn =
  ws_in :: "(tungstenite_error + ws_message) list"
  ws_out :: "sink_op list"
  conn_info :: connection_info
  conn_close_frame :: "close_frame option"

definition conn_sink :: "ws_sink \<Rightarrow> sink_op \<Rightarrow> plain_conn \<Rightarrow> (tungstenite_error + unit) \<times> plain_conn" where
  "conn_sink tx a c = (case tx (ws_out c) a of
     Inl e \<Rightarrow> (Inl e, c) | Inr _ \<Rightarrow> (Inr (), c\<lparr>ws_out := ws_out c @ [a]\<rparr>))"

fun to_ws :: "message \<Rightarrow> ws_message" where
  "to_ws (Text s) = WsText s"
| "to_ws (Binary b) = WsBinary b"

definition conn_send :: "ws_sink \<Rightarrow> message \<Rightarrow> plain_conn \<Rightarrow> (error + unit) \<times> plain_conn" where
  "conn_send tx m c = apfst map_result (conn_sink tx (SinkSend (to_ws m)) c)"

function conn_recv :: "ws_sink \<Rightarrow> plain_conn \<Rightarrow> (error + message) \<times> plain_conn" where
  "conn_recv tx c = (case ws_in c of
     [] \<Rightarrow> (Inl Closed, c)
   | item # rest \<Rightarrow>
       (let c1 = c\<lparr>ws_in := rest\<rparr> in
        case item of
          Inl e \<Rightarrow> (Inl (map_tungstenite_err e), c1)
        | Inr (WsPing p) \<Rightarrow>
            (case conn_sink tx (SinkSend (WsPong p)) c1 of
               (Inl e, c2) \<Rightarrow> (Inl (map_tungstenite_err e), c2)
             | (Inr _, c2) \<Rightarrow> conn_recv tx c2)
        | Inr (WsPong _) \<Rightarrow> conn_recv tx c1
        | Inr (WsText s) \<Rightarrow> (Inr (Text s), c1)
        | Inr (WsBinary b) \<Rightarrow> (Inr (Binary b), c1)
        | Inr (WsClose f) \<Rightarrow>
            (Inl Closed, snd (conn_sink tx SinkClose
               (c1\<lparr>conn_close_frame := map_option (\<lambda>(k, r). \<lparr>cf_code = k, cf_reason = r\<rparr>) f\<rparr>)))
        | Inr _ \<Rightarrow> (Inl (Protocol ''unsupported ws message''), c1)))"
  by pat_completeness auto
termination
  by (relation "measure (\<lambda>(tx, c). length (ws_in c))") (auto simp: conn_sink_def split: sum.splits)

declare conn_recv.simps [simp del]

definition conn_close :: "ws_sink \<Rightarrow> plain_conn \<Rightarrow> (error + unit) \<times> plain_conn" where
  "conn_close tx c = apfst map_result (conn_sink tx SinkClose c)"

section \<open>What a connection delivers\<close>

text \<open>
  The messages an item sequence carries, and how it ends: the first error, close, unsupported message or
  the end of the stream.
\<close>

fun delivered :: "(tungstenite_error + ws_message) list \<Rightarrow> message list \<times> error" where
  "delivered [] = ([], Closed)"
| "delivered (Inl e # r) = ([], map_tungstenite_err e)"
| "delivered (Inr (WsText s) # r) = apfst ((#) (Text s)) (delivered r)"
| "delivered (Inr (WsBinary b) # r) = apfst ((#) (Binary b)) (delivered r)"
| "delivered (Inr (WsPing p) # r) = delivered r"
| "delivered (Inr (WsPong p) # r) = delivered r"
| "delivered (Inr (WsClose f) # r) = ([], Closed)"
| "delivered (Inr (WsRawFrame b) # r) = ([], Protocol ''unsupported ws message'')"

text \<open>The pongs owed for the pings up to that end, and the closing of the sink after a close frame.\<close>

fun replies :: "(tungstenite_error + ws_message) list \<Rightarrow> sink_op list" where
  "replies [] = []"
| "replies (Inl e # r) = []"
| "replies (Inr (WsPing p) # r) = SinkSend (WsPong p) # replies r"
| "replies (Inr (WsClose f) # r) = [SinkClose]"
| "replies (Inr (WsRawFrame b) # r) = []"
| "replies (Inr _ # r) = replies r"

lemma conn_recv_eqs:
  "ws_in c = [] \<Longrightarrow> conn_recv tx c = (Inl Closed, c)"
  "ws_in c = Inl e # r \<Longrightarrow> conn_recv tx c = (Inl (map_tungstenite_err e), c\<lparr>ws_in := r\<rparr>)"
  "ws_in c = Inr (WsText t) # r \<Longrightarrow> conn_recv tx c = (Inr (Text t), c\<lparr>ws_in := r\<rparr>)"
  "ws_in c = Inr (WsBinary b) # r \<Longrightarrow> conn_recv tx c = (Inr (Binary b), c\<lparr>ws_in := r\<rparr>)"
  "ws_in c = Inr (WsPong p) # r \<Longrightarrow> conn_recv tx c = conn_recv tx (c\<lparr>ws_in := r\<rparr>)"
  "ws_in c = Inr (WsPing p) # r \<Longrightarrow> conn_recv tx c = (case tx (ws_out c) (SinkSend (WsPong p)) of
      Inl e \<Rightarrow> (Inl (map_tungstenite_err e), c\<lparr>ws_in := r\<rparr>)
    | Inr _ \<Rightarrow> conn_recv tx (c\<lparr>ws_in := r, ws_out := ws_out c @ [SinkSend (WsPong p)]\<rparr>))"
  "ws_in c = Inr (WsClose f) # r \<Longrightarrow> conn_recv tx c = (Inl Closed, snd (conn_sink tx SinkClose
      (c\<lparr>ws_in := r, conn_close_frame := map_option (\<lambda>(k, m). \<lparr>cf_code = k, cf_reason = m\<rparr>) f\<rparr>)))"
  "ws_in c = Inr (WsRawFrame b) # r \<Longrightarrow> conn_recv tx c = (Inl (Protocol ''unsupported ws message''), c\<lparr>ws_in := r\<rparr>)"
  by (subst conn_recv.simps, simp add: conn_sink_def split: sum.splits)+

lemma conn_recv_shorter:
  "conn_recv tx c = (Inr m, c') \<Longrightarrow> length (ws_in c') < length (ws_in c)"
proof (induction "ws_in c" arbitrary: c)
  case (Cons item rest)
  note [simp] = Cons.hyps(2) [symmetric]
  have step: "length (ws_in c') < Suc (length rest)" if "conn_recv tx d = (Inr m, c')" "ws_in d = rest" for d
    using Cons.hyps(1) [of d] that by simp
  show ?case
  proof (cases item)
    case (Inr w)
    then show ?thesis using Cons.prems step by (cases w) (auto simp: conn_recv_eqs split: sum.splits)
  qed (use Cons.prems in \<open>simp add: conn_recv_eqs\<close>)
qed (simp add: conn_recv_eqs)

text \<open>Receiving until an error is returned.\<close>

function recv_until_error :: "ws_sink \<Rightarrow> plain_conn \<Rightarrow> message list \<times> error \<times> plain_conn" where
  "recv_until_error tx c = (case conn_recv tx c of
     (Inl e, c1) \<Rightarrow> ([], e, c1)
   | (Inr m, c1) \<Rightarrow> apfst ((#) m) (recv_until_error tx c1))"
  by pat_completeness auto
termination
  by (relation "measure (\<lambda>(tx, c). length (ws_in c))") (auto dest: conn_recv_shorter [OF sym])

declare recv_until_error.simps [simp del]

lemma recv_until_error_control:
  assumes "conn_recv tx c = conn_recv tx d"
  shows "recv_until_error tx c = recv_until_error tx d"
  using assms by (simp add: recv_until_error.simps)

text \<open>
  C22: a connection over a working sink delivers, by repeated calls of \<open>recv\<close>, exactly the text and
  binary messages that arrive, in order, up to the first error, close frame, unsupported message or end
  of the stream, and then reports that end. Meanwhile it answers every ping with a pong of the same
  payload in order, and a close frame by closing, and it sends nothing else.
\<close>

theorem connection_delivers:
  assumes "\<forall>h a. tx h a = Inr ()"
  shows "\<exists>c'. recv_until_error tx c = (fst (delivered (ws_in c)), snd (delivered (ws_in c)), c')
           \<and> ws_out c' = ws_out c @ replies (ws_in c)"
proof (induction "ws_in c" arbitrary: c)
  case (Cons item rest)
  note [simp] = Cons.hyps(2) [symmetric]
  have go: "\<exists>c'. recv_until_error tx d = (fst (delivered rest), snd (delivered rest), c')
      \<and> ws_out c' = ws_out d @ replies rest" if "ws_in d = rest" for d
    using Cons.hyps(1) [of d] that by simp
  show ?case
  proof (cases item)
    case (Inl e)
    then show ?thesis by (simp add: recv_until_error.simps [of tx c] conn_recv_eqs)
  next
    case item: (Inr w)
    show ?thesis
    proof (cases w)
      case (WsPing p)
      then show ?thesis
        using item assms go [of "c\<lparr>ws_in := rest, ws_out := ws_out c @ [SinkSend (WsPong p)]\<rparr>"]
          recv_until_error_control [of tx c "c\<lparr>ws_in := rest, ws_out := ws_out c @ [SinkSend (WsPong p)]\<rparr>"]
        by (simp add: conn_recv_eqs(6) [of c p rest])
    next
      case (WsPong p)
      then show ?thesis
        using item go [of "c\<lparr>ws_in := rest\<rparr>"] recv_until_error_control [of tx c "c\<lparr>ws_in := rest\<rparr>"]
        by (simp add: conn_recv_eqs(5) [of c p rest])
    next
      case (WsClose f)
      then show ?thesis
        using item assms by (simp add: recv_until_error.simps [of tx c] conn_recv_eqs conn_sink_def)
    qed (use item go [of "c\<lparr>ws_in := rest\<rparr>"] in \<open>force simp: recv_until_error.simps [of tx c] conn_recv_eqs\<close>)+
  qed
qed (simp add: recv_until_error.simps conn_recv_eqs)

definition demo_info :: connection_info where
  "demo_info = \<lparr>info_peer = AddrV4 [127, 0, 0, 1] 80, info_local = AddrV4 [127, 0, 0, 1] 90, info_is_tls = False,
     info_subprotocol = None\<rparr>"

theorem connection_delivers_witness:
  "\<exists>c'. recv_until_error (\<lambda>_ _. Inr ())
      \<lparr>ws_in = [Inr (WsPing [1]), Inr (WsText ''a''), Inr (WsPong []), Inr (WsBinary [2]), Inr (WsClose None)],
       ws_out = [], conn_info = demo_info, conn_close_frame = None\<rparr> = ([Text ''a'', Binary [2]], Closed, c')
     \<and> ws_out c' = [SinkSend (WsPong [1]), SinkClose]"
  using connection_delivers [of "\<lambda>_ _. Inr ()"
      "\<lparr>ws_in = [Inr (WsPing [1]), Inr (WsText ''a''), Inr (WsPong []), Inr (WsBinary [2]), Inr (WsClose None)],
       ws_out = [], conn_info = demo_info, conn_close_frame = None\<rparr>"] by simp

end
