(* ===== verification/Tls_Setup.thy ===== *)
theory Tls_Setup
  imports Handshake
begin

text \<open>
  The TLS helpers of the plain native transport (\<open>websock-tungstenite/src/tls\<close> and \<open>crypto.rs\<close>):
  loading certificates and keys, the choice of a cryptography provider, and the builders of client and
  server configurations. The packages \<open>rustls\<close>, \<open>rustls-native-certs\<close> and \<open>rcgen\<close> are the parameter
  \<open>tls_env\<close>, the file system is the parameter \<open>read_file\<close>. A result \<open>None\<close> is a panic.
\<close>

section \<open>Panicking and failing computations\<close>

definition panic_bind :: "('e + 'a) option \<Rightarrow> ('a \<Rightarrow> ('e + 'b) option) \<Rightarrow> ('e + 'b) option" where
  "panic_bind r f = (case r of None \<Rightarrow> None | Some (Inl e) \<Rightarrow> Some (Inl e) | Some (Inr x) \<Rightarrow> f x)"

lemma panic_bind_simps [simp]:
  "panic_bind None f = None" "panic_bind (Some (Inl e)) f = Some (Inl e)" "panic_bind (Some (Inr x)) f = f x"
  by (simp_all add: panic_bind_def)

lemma panic_bind_Some_Inr: "panic_bind r f = Some (Inr y) \<longleftrightarrow> (\<exists>x. r = Some (Inr x) \<and> f x = Some (Inr y))"
  by (auto simp: panic_bind_def split: option.splits sum.splits)

lemma panic_bind_None: "panic_bind r f = None \<longleftrightarrow> r = None \<or> (\<exists>x. r = Some (Inr x) \<and> f x = None)"
  by (auto simp: panic_bind_def split: option.splits sum.splits)

definition map_tls :: "string + 'a \<Rightarrow> error + 'a" where
  "map_tls r = (case r of Inl e \<Rightarrow> Inl (Tls e) | Inr x \<Rightarrow> Inr x)"

lemma map_tls_Inr [simp]: "map_tls r = Inr x \<longleftrightarrow> r = Inr x"
  by (auto simp: map_tls_def split: sum.splits)

section \<open>The environment\<close>

text \<open>Certificates and keys are byte strings; a key in PEM may have any encoding, a raw one is PKCS#8.\<close>

type_synonym certificate_der = bytes

datatype private_key_der = Pkcs1 bytes | Sec1 bytes | Pkcs8 bytes

text \<open>How a client verifies its server: against roots, by a given verifier, or not at all.\<close>

datatype ('r, 'v, 'p) verifier = RootCertificates 'r | WebPkiVerifier 'v | SkipServerVerification 'p

text \<open>A configuration: the list of ALPN identifiers and the part that the sources never read.\<close>

record 'c tls_config =
  alpn_protocols :: "bytes list"
  tls_inner :: 'c

record rcgen_pair =
  cert_as_der :: bytes
  cert_as_pem :: string
  key_as_der :: bytes
  key_as_pem :: string

record ('p, 'r, 'v, 'c, 's) tls_env =
  installed_provider :: "'p option"
  feature_ring :: bool
  ring_provider :: 'p
  feature_aws_lc_rs :: bool
  aws_lc_rs_provider :: 'p
  empty_roots :: 'r
  add_root :: "certificate_der \<Rightarrow> 'r \<Rightarrow> string + 'r"
  native_certs :: "certificate_der list"
  pem_certs :: "bytes \<Rightarrow> (string + certificate_der) list"
  pem_key :: "bytes \<Rightarrow> string + private_key_der"
  self_signed :: "string list \<Rightarrow> string + rcgen_pair"
  client_config :: "'p \<Rightarrow> ('r, 'v, 'p) verifier \<Rightarrow> string + 'c tls_config"
  server_config :: "'p \<Rightarrow> certificate_der list \<Rightarrow> private_key_der \<Rightarrow> string + 's tls_config"

text \<open>The process default, else ring, else aws-lc-rs, each of the latter when its feature is enabled.\<close>

definition default_provider :: "('p, 'r, 'v, 'c, 's) tls_env \<Rightarrow> 'p option" where
  "default_provider e = (case installed_provider e of
     Some p \<Rightarrow> Some p
   | None \<Rightarrow>
       (if feature_ring e then Some (ring_provider e)
        else if feature_aws_lc_rs e then Some (aws_lc_rs_provider e) else None))"

text \<open>The first TLS 1.3 suite whose hash is SHA-256.\<close>

fun find_map :: "('a \<Rightarrow> 'b option) \<Rightarrow> 'a list \<Rightarrow> 'b option" where
  "find_map f [] = None"
| "find_map f (x # xs) = (case f x of None \<Rightarrow> find_map f xs | Some y \<Rightarrow> Some y)"

definition sha256 ::
  "'suite list \<Rightarrow> ('suite \<Rightarrow> 'hash option) \<Rightarrow> ('hash \<Rightarrow> bool) \<Rightarrow> ('hash \<Rightarrow> bytes \<Rightarrow> bytes) \<Rightarrow> certificate_der \<Rightarrow> bytes option" where
  "sha256 cipher_suites tls13_hash is_sha256 hash cert =
     (case find_map (\<lambda>suite. case tls13_hash suite of
          None \<Rightarrow> None | Some h \<Rightarrow> if is_sha256 h then Some h else None) cipher_suites of
        Some h \<Rightarrow> Some (hash h cert)
      | None \<Rightarrow> None)"

section \<open>Files\<close>

text \<open>\<open>Path::extension\<close>: the last component, then what follows its last dot unless that dot starts it.\<close>

definition file_name :: "string \<Rightarrow> string option" where
  "file_name path = (case rev (filter (\<lambda>c. c \<noteq> [] \<and> c \<noteq> ''.'') (split_on CHR ''/'' path)) of
     [] \<Rightarrow> None | c # _ \<Rightarrow> if c = ''..'' then None else Some c)"

definition extension :: "string \<Rightarrow> string option" where
  "extension path = (case file_name path of
     None \<Rightarrow> None
   | Some f \<Rightarrow>
       (case rev (split_on CHR ''.'' f) of
          after # before # prior \<Rightarrow> if before = [] \<and> prior = [] then None else Some after
        | _ \<Rightarrow> None))"

fun collect_results :: "(string + 'a) list \<Rightarrow> string + 'a list" where
  "collect_results [] = Inr []"
| "collect_results (Inl e # rs) = Inl e"
| "collect_results (Inr x # rs) = (case collect_results rs of Inl e \<Rightarrow> Inl e | Inr xs \<Rightarrow> Inr (x # xs))"

definition load_certs ::
  "('p, 'r, 'v, 'c, 's) tls_env \<Rightarrow> (string \<Rightarrow> io_error + bytes) \<Rightarrow> string \<Rightarrow> error + certificate_der list" where
  "load_certs e read_file path = try_bind (map_io (read_file path)) (\<lambda>cert_bytes.
     if extension path = Some ''der'' then Inr [cert_bytes]
     else map_tls (collect_results (pem_certs e cert_bytes)))"

definition load_key ::
  "('p, 'r, 'v, 'c, 's) tls_env \<Rightarrow> (string \<Rightarrow> io_error + bytes) \<Rightarrow> string \<Rightarrow> error + private_key_der" where
  "load_key e read_file path = try_bind (map_io (read_file path)) (\<lambda>key.
     if extension path = Some ''der'' then Inr (Pkcs8 key) else map_tls (pem_key e key))"

definition load_cert ::
  "('p, 'r, 'v, 'c, 's) tls_env \<Rightarrow> (string \<Rightarrow> io_error + bytes) \<Rightarrow> string \<Rightarrow> string
   \<Rightarrow> error + (certificate_der list \<times> private_key_der)" where
  "load_cert e read_file cert_path key_path =
     try_bind (load_certs e read_file cert_path) (\<lambda>cert_chain.
     try_bind (load_key e read_file key_path) (\<lambda>key. Inr (cert_chain, key)))"

section \<open>Certificates\<close>

definition get_native_certs :: "('p, 'r, 'v, 'c, 's) tls_env \<Rightarrow> 'r" where
  "get_native_certs e =
     fold (\<lambda>c roots. case add_root e c roots of Inl _ \<Rightarrow> roots | Inr r \<Rightarrow> r) (native_certs e) (empty_roots e)"

definition generate_self_signed_pair_der ::
  "('p, 'r, 'v, 'c, 's) tls_env \<Rightarrow> string list \<Rightarrow> error + (certificate_der list \<times> private_key_der)" where
  "generate_self_signed_pair_der e names = try_bind (map_tls (self_signed e names)) (\<lambda>c.
     Inr ([cert_as_der c], Pkcs8 (key_as_der c)))"

definition generate_self_signed_pair_pem ::
  "('p, 'r, 'v, 'c, 's) tls_env \<Rightarrow> string list \<Rightarrow> error + (string list \<times> string)" where
  "generate_self_signed_pair_pem e names = try_bind (map_tls (self_signed e names)) (\<lambda>c.
     Inr ([cert_as_pem c], key_as_pem c))"

text \<open>The verifier that accepts every certificate; signatures are still checked by its provider.\<close>

definition verify_server_cert :: "certificate_der \<Rightarrow> certificate_der list \<Rightarrow> string + unit" where
  "verify_server_cert end_entity intermediates = Inr ()"

text \<open>
  The checks of the handshake signature, with the algorithms of the provider it holds; the checks themselves
  are functions of rustls.
\<close>

record ('p, 'alg, 'dss, 'scheme) signature_api =
  signature_algorithms :: "'p \<Rightarrow> 'alg"
  check_tls12 :: "bytes \<Rightarrow> certificate_der \<Rightarrow> 'dss \<Rightarrow> 'alg \<Rightarrow> string + unit"
  check_tls13 :: "bytes \<Rightarrow> certificate_der \<Rightarrow> 'dss \<Rightarrow> 'alg \<Rightarrow> string + unit"
  schemes_of :: "'alg \<Rightarrow> 'scheme list"

definition verify_tls12_signature ::
  "('p, 'alg, 'dss, 'scheme) signature_api \<Rightarrow> 'p \<Rightarrow> bytes \<Rightarrow> certificate_der \<Rightarrow> 'dss \<Rightarrow> string + unit" where
  "verify_tls12_signature r p message cert dss = check_tls12 r message cert dss (signature_algorithms r p)"

definition verify_tls13_signature ::
  "('p, 'alg, 'dss, 'scheme) signature_api \<Rightarrow> 'p \<Rightarrow> bytes \<Rightarrow> certificate_der \<Rightarrow> 'dss \<Rightarrow> string + unit" where
  "verify_tls13_signature r p message cert dss = check_tls13 r message cert dss (signature_algorithms r p)"

definition supported_verify_schemes :: "('p, 'alg, 'dss, 'scheme) signature_api \<Rightarrow> 'p \<Rightarrow> 'scheme list" where
  "supported_verify_schemes r p = schemes_of r (signature_algorithms r p)"

section \<open>Configurations\<close>

definition server_with_certs ::
  "('p, 'r, 'v, 'c, 's) tls_env \<Rightarrow> certificate_der list \<Rightarrow> private_key_der \<Rightarrow> (error + 's tls_config) option" where
  "server_with_certs e certs key = (case default_provider e of
     None \<Rightarrow> None | Some p \<Rightarrow> Some (map_tls (server_config e p certs key)))"

definition server_new_insecure ::
  "('p, 'r, 'v, 'c, 's) tls_env \<Rightarrow> string list \<Rightarrow> (error + 's tls_config) option" where
  "server_new_insecure e names =
     panic_bind (Some (generate_self_signed_pair_der e names)) (\<lambda>(certs, key). server_with_certs e certs key)"

definition server_new_with_cert ::
  "('p, 'r, 'v, 'c, 's) tls_env \<Rightarrow> (string \<Rightarrow> io_error + bytes) \<Rightarrow> string \<Rightarrow> string \<Rightarrow> (error + 's tls_config) option" where
  "server_new_with_cert e read_file cert_path key_path =
     panic_bind (Some (load_cert e read_file cert_path key_path)) (\<lambda>(certs, key). server_with_certs e certs key)"

definition server_new_with_self_signed_certs ::
  "('p, 'r, 'v, 'c, 's) tls_env \<Rightarrow> string list \<Rightarrow> (error + 's tls_config) option" where
  "server_new_with_self_signed_certs e names = server_new_insecure e names"

definition with_alpn_protocols :: "bytes list \<Rightarrow> 'c tls_config \<Rightarrow> 'c tls_config" where
  "with_alpn_protocols ps c = c\<lparr>alpn_protocols := ps\<rparr>"

definition client_with_verifier ::
  "('p, 'r, 'v, 'c, 's) tls_env \<Rightarrow> ('r, 'v, 'p) verifier \<Rightarrow> (error + 'c tls_config) option" where
  "client_with_verifier e v = (case default_provider e of
     None \<Rightarrow> None | Some p \<Rightarrow> Some (map_tls (client_config e p v)))"

text \<open>The skipping verifier always uses ring, whatever the default is.\<close>

definition client_new_insecure :: "('p, 'r, 'v, 'c, 's) tls_env \<Rightarrow> (error + 'c tls_config) option" where
  "client_new_insecure e = client_with_verifier e (SkipServerVerification (ring_provider e))"

definition client_new_with_native_certs :: "('p, 'r, 'v, 'c, 's) tls_env \<Rightarrow> (error + 'c tls_config) option" where
  "client_new_with_native_certs e = client_with_verifier e (RootCertificates (get_native_certs e))"

definition client_new_with_webpki_verifier :: "('p, 'r, 'v, 'c, 's) tls_env \<Rightarrow> 'v \<Rightarrow> (error + 'c tls_config) option" where
  "client_new_with_webpki_verifier e v = client_with_verifier e (WebPkiVerifier v)"

text \<open>\<open>TlsConfig\<close>: a client and a server configuration, both with the default ALPN identifiers.\<close>

definition tls_config_pair ::
  "(error + 'c tls_config) option \<Rightarrow> (error + 's tls_config) option \<Rightarrow> (error + ('c tls_config \<times> 's tls_config)) option" where
  "tls_config_pair client server =
     panic_bind client (\<lambda>c. panic_bind server (\<lambda>s.
       Some (Inr (with_alpn_protocols default_ws_alpn c, with_alpn_protocols default_ws_alpn s))))"

definition tls_with_cert ::
  "('p, 'r, 'v, 'c, 's) tls_env \<Rightarrow> (string \<Rightarrow> io_error + bytes) \<Rightarrow> string \<Rightarrow> string
   \<Rightarrow> (error + ('c tls_config \<times> 's tls_config)) option" where
  "tls_with_cert e read_file cert_path key_path =
     tls_config_pair (client_new_with_native_certs e) (server_new_with_cert e read_file cert_path key_path)"

definition tls_with_self_signed_certs ::
  "('p, 'r, 'v, 'c, 's) tls_env \<Rightarrow> (error + ('c tls_config \<times> 's tls_config)) option" where
  "tls_with_self_signed_certs e =
     tls_config_pair (client_new_with_native_certs e) (server_new_with_self_signed_certs e [''localhost''])"

definition new_native_config ::
  "('p, 'r, 'v, 'c, 's) tls_env \<Rightarrow> (error + ('c tls_config \<times> 's tls_config)) option" where
  "new_native_config e =
     tls_config_pair (client_new_with_native_certs e) (server_new_with_self_signed_certs e [''localhost''])"

definition new_insecure_config ::
  "('p, 'r, 'v, 'c, 's) tls_env \<Rightarrow> (error + ('c tls_config \<times> 's tls_config)) option" where
  "new_insecure_config e =
     tls_config_pair (client_new_insecure e) (server_new_with_self_signed_certs e [''localhost''])"

section \<open>Properties\<close>

text \<open>A provider is found, and the builders do not panic, once one is installed or compiled in.\<close>

lemma default_provider_panics_iff:
  "default_provider e = None \<longleftrightarrow> installed_provider e = None \<and> \<not> feature_ring e \<and> \<not> feature_aws_lc_rs e"
  by (auto simp: default_provider_def split: option.splits)

lemma tls_with_cert_total:
  assumes "default_provider e \<noteq> None"
  shows "tls_with_cert e read_file cert_path key_path \<noteq> None"
  using assms
  by (auto simp: tls_with_cert_def tls_config_pair_def panic_bind_None client_new_with_native_certs_def
      client_with_verifier_def server_new_with_cert_def server_with_certs_def)

text \<open>A loaded pair is what the files hold.\<close>

lemma load_cert_der:
  assumes "extension cp = Some ''der''" "extension kp = Some ''der''" "read_file cp = Inr c" "read_file kp = Inr k"
  shows "load_cert e read_file cp kp = Inr ([c], Pkcs8 k)"
  using assms by (simp add: load_cert_def load_certs_def load_key_def map_io_def)

text \<open>
  Whatever files and roots are used, the two sides of a configuration agree on the ALPN identifiers.
  Only \<open>new_insecure_config\<close> makes a client that skips the verification of its server.
\<close>

lemma tls_with_cert_config:
  assumes "tls_with_cert e read_file cp kp = Some (Inr (c, s))"
  shows "alpn_protocols c = default_ws_alpn \<and> alpn_protocols s = default_ws_alpn
    \<and> (\<exists>p certs key c0 s0. default_provider e = Some p \<and> load_cert e read_file cp kp = Inr (certs, key)
         \<and> client_config e p (RootCertificates (get_native_certs e)) = Inr c0 \<and> tls_inner c = tls_inner c0
         \<and> server_config e p certs key = Inr s0 \<and> tls_inner s = tls_inner s0)"
  using assms
  by (auto simp: tls_with_cert_def tls_config_pair_def panic_bind_Some_Inr client_new_with_native_certs_def
      client_with_verifier_def server_new_with_cert_def server_with_certs_def with_alpn_protocols_def
      split: option.splits)

lemma insecure_config_config:
  assumes "new_insecure_config e = Some (Inr (c, s))"
  shows "alpn_protocols c = default_ws_alpn \<and> alpn_protocols s = default_ws_alpn
    \<and> (\<exists>p c0. default_provider e = Some p
         \<and> client_config e p (SkipServerVerification (ring_provider e)) = Inr c0 \<and> tls_inner c = tls_inner c0)"
  using assms
  by (auto simp: new_insecure_config_def tls_config_pair_def panic_bind_Some_Inr client_new_insecure_def
      client_with_verifier_def with_alpn_protocols_def split: option.splits)

end
