(* ===== verification/Plain_Endpoints.thy ===== *)
theory Plain_Endpoints
  imports Mux_Endpoints Plain_Connection Tls_Setup
begin

text \<open>
  The plain native endpoints (\<open>websock-tungstenite\<close>): dialling (\<open>connection.rs\<close>), listening and accepting
  (\<open>server.rs\<close>), and the builders (\<open>builder.rs\<close>). The outcomes of dialling and listening are parameters.
\<close>

section \<open>Dialling\<close>

text \<open>What an opened stream reports: its addresses, whether it is a TLS stream, and the response.\<close>

record 'h dialled =
  dl_peer :: "io_error + socket_addr"
  dl_local :: "io_error + socket_addr"
  dl_rustls :: bool
  dl_response :: 'h
  dl_items :: "(tungstenite_error + ws_message) list"

definition plain_connect_with_tls ::
  "('n, 'v, 'h) http_api \<Rightarrow> (string \<Rightarrow> string + 'h) \<Rightarrow> ('tls option \<Rightarrow> ws_config \<Rightarrow> 'h \<Rightarrow> tungstenite_error + 'h dialled)
   \<Rightarrow> string \<Rightarrow> connect_options \<Rightarrow> 'tls option \<Rightarrow> error + plain_conn" where
  "plain_connect_with_tls a into_client_request dial url opts tls =
     try_bind (websocket_limits_validate (co_limits opts)) (\<lambda>_.
     case into_client_request url of
       Inl e \<Rightarrow> Inl (Transport e)
     | Inr h \<Rightarrow>
         try_bind (client_request a opts h) (\<lambda>req.
         try_bind (map_ws (dial tls (transport_config (co_limits opts)) req)) (\<lambda>ws.
         try_bind (map_io (dl_peer ws)) (\<lambda>peer.
         try_bind (map_io (dl_local ws)) (\<lambda>local.
         Inr \<lparr>ws_in = dl_items ws, ws_out = [],
              conn_info = \<lparr>info_peer = peer, info_local = local, info_is_tls = dl_rustls ws,
                info_subprotocol = Option.bind (headers_get a (sec_websocket_protocol a) (dl_response ws)) (value_to_str a)\<rparr>,
              conn_close_frame = None\<rparr>)))))"

definition plain_connect ::
  "('n, 'v, 'h) http_api \<Rightarrow> (string \<Rightarrow> string + 'h) \<Rightarrow> ('tls option \<Rightarrow> ws_config \<Rightarrow> 'h \<Rightarrow> tungstenite_error + 'h dialled)
   \<Rightarrow> string \<Rightarrow> connect_options \<Rightarrow> error + plain_conn" where
  "plain_connect a into_client_request dial url opts = plain_connect_with_tls a into_client_request dial url opts None"

section \<open>Listening\<close>

text \<open>A listener is represented by what it reports as its address.\<close>

record ('n, 'v, 'tls) plain_server =
  ps_listener :: "io_error + socket_addr"
  ps_protocols :: "string set"
  ps_headers :: "('n \<times> 'v) list"
  ps_acceptor :: "'tls option"
  ps_config :: ws_config

definition plain_bind ::
  "('n, 'v, 'h) http_api \<Rightarrow> io_error + (io_error + socket_addr) \<Rightarrow> server_options \<Rightarrow> 'tls option
   \<Rightarrow> error + ('n, 'v, 'tls) plain_server" where
  "plain_bind a listening opts tls =
     try_bind (websocket_limits_validate (so_limits opts)) (\<lambda>_.
     try_bind (map_io listening) (\<lambda>listener.
     try_bind (prepare_headers a (so_headers opts)) (\<lambda>headers.
     try_bind (validate_protocols a (so_protocols opts)) (\<lambda>_.
     Inr \<lparr>ps_listener = listener, ps_protocols = set (so_protocols opts), ps_headers = headers,
          ps_acceptor = tls, ps_config = transport_config (so_limits opts)\<rparr>))))"

text \<open>The handshake callback and the protocol it records; \<open>None\<close> is the panic of \<open>expect\<close>.\<close>

definition plain_callback ::
  "('n, 'v, 'h) http_api \<Rightarrow> ('n, 'v, 'tls) plain_server \<Rightarrow> 'h \<Rightarrow> 'h \<Rightarrow> (http_reject + 'h \<times> string option) option" where
  "plain_callback a srv req resp =
     (let resp1 = response_headers a (ps_headers srv) resp in
      case select_protocol a (ps_protocols srv) req of
        None \<Rightarrow> Some (Inr (resp1, None))
      | Some p \<Rightarrow>
          (case value_from_str a p of
             Inl _ \<Rightarrow> None
           | Inr v \<Rightarrow> Some (Inr (headers_insert a (sec_websocket_protocol a) v resp1, Some p))))"

definition plain_handshake ::
  "('n, 'v, 'h) http_api \<Rightarrow> ('h, 'tls, socket_addr) incoming \<Rightarrow> ('n, 'v, 'tls) plain_server \<Rightarrow> connection_info
   \<Rightarrow> (error + plain_conn) option" where
  "plain_handshake a inc srv info = (case accept_hdr inc (plain_callback a srv) (ps_config srv) of
     None \<Rightarrow> None
   | Some r \<Rightarrow> Some (try_bind (map_ws r) (\<lambda>selected.
       Inr \<lparr>ws_in = hs_items inc, ws_out = [], conn_info = info\<lparr>info_subprotocol := selected\<rparr>,
            conn_close_frame = None\<rparr>)))"

definition plain_accept ::
  "('n, 'v, 'h) http_api \<Rightarrow> ('h, 'tls, socket_addr) incoming \<Rightarrow> ('n, 'v, 'tls) plain_server \<Rightarrow> (error + plain_conn) option" where
  "plain_accept a inc srv =
     panic_bind (Some (
       try_bind (map_io (tcp_accept inc)) (\<lambda>_.
       try_bind (map_io (tcp_peer inc)) (\<lambda>peer.
       try_bind (map_io (tcp_local inc)) (\<lambda>local.
       try_bind (tls_upgrade inc (ps_acceptor srv)) (\<lambda>is_tls.
       Inr \<lparr>info_peer = peer, info_local = local, info_is_tls = is_tls, info_subprotocol = None\<rparr>)))))) (\<lambda>info.
     plain_handshake a inc srv info)"

definition plain_accept_tls ::
  "('n, 'v, 'h) http_api \<Rightarrow> ('h, 'tls, socket_addr) incoming \<Rightarrow> ('n, 'v, 'tls) plain_server \<Rightarrow> (error + plain_conn) option" where
  "plain_accept_tls a inc srv =
     panic_bind (Some (
       try_bind (map_io (tcp_accept inc)) (\<lambda>_.
       try_bind (case ps_acceptor srv of None \<Rightarrow> Inl (Protocol ''missing tls acceptor'') | Some t \<Rightarrow> Inr t) (\<lambda>t.
       try_bind (map_tls (tls_accept inc t)) (\<lambda>_.
       try_bind (map_io (tcp_peer inc)) (\<lambda>peer.
       try_bind (map_io (tcp_local inc)) (\<lambda>local.
       Inr \<lparr>info_peer = peer, info_local = local, info_is_tls = True, info_subprotocol = None\<rparr>))))))) (\<lambda>info.
     plain_handshake a inc srv info)"

definition plain_local_addr :: "('n, 'v, 'tls) plain_server \<Rightarrow> error + socket_addr" where
  "plain_local_addr srv = map_io (ps_listener srv)"

section \<open>Builders\<close>

record 'c plain_client_builder =
  pb_opts :: connect_options
  pb_tls :: "'c tls_config option"
  pb_alpn :: "bytes list option"

record 'c plain_client =
  pc_opts :: connect_options
  pc_tls :: "'c tls_config option"

definition plain_client_builder_new :: "'c plain_client_builder" where
  "plain_client_builder_new = \<lparr>pb_opts = connect_options_default, pb_tls = None, pb_alpn = None\<rparr>"

definition plain_client_with_options :: "connect_options \<Rightarrow> 'c plain_client_builder \<Rightarrow> 'c plain_client_builder" where
  "plain_client_with_options opts b = b\<lparr>pb_opts := opts\<rparr>"

definition plain_client_with_header :: "string \<Rightarrow> string \<Rightarrow> 'c plain_client_builder \<Rightarrow> 'c plain_client_builder" where
  "plain_client_with_header n v b = b\<lparr>pb_opts := (pb_opts b)\<lparr>co_headers := co_headers (pb_opts b) @ [(n, v)]\<rparr>\<rparr>"

definition plain_client_with_headers :: "(string \<times> string) list \<Rightarrow> 'c plain_client_builder \<Rightarrow> 'c plain_client_builder" where
  "plain_client_with_headers hs b = fold (\<lambda>(k, v). plain_client_with_header k v) hs b"

definition plain_client_with_limits :: "websocket_limits \<Rightarrow> 'c plain_client_builder \<Rightarrow> 'c plain_client_builder" where
  "plain_client_with_limits l b = b\<lparr>pb_opts := (pb_opts b)\<lparr>co_limits := l\<rparr>\<rparr>"

definition plain_client_with_protocol :: "string \<Rightarrow> 'c plain_client_builder \<Rightarrow> 'c plain_client_builder" where
  "plain_client_with_protocol p b = b\<lparr>pb_opts := (pb_opts b)\<lparr>co_protocols := co_protocols (pb_opts b) @ [p]\<rparr>\<rparr>"

definition plain_client_with_protocols :: "string list \<Rightarrow> 'c plain_client_builder \<Rightarrow> 'c plain_client_builder" where
  "plain_client_with_protocols ps b = fold plain_client_with_protocol ps b"

definition plain_client_with_tls_config :: "'c tls_config \<Rightarrow> 'c plain_client_builder \<Rightarrow> 'c plain_client_builder" where
  "plain_client_with_tls_config t b = b\<lparr>pb_tls := Some t\<rparr>"

definition plain_client_with_default_alpn :: "'c plain_client_builder \<Rightarrow> 'c plain_client_builder" where
  "plain_client_with_default_alpn b = b\<lparr>pb_alpn := Some default_ws_alpn\<rparr>"

definition plain_client_with_alpn :: "bytes list \<Rightarrow> 'c plain_client_builder \<Rightarrow> 'c plain_client_builder" where
  "plain_client_with_alpn p b = b\<lparr>pb_alpn := Some p\<rparr>"

definition plain_client_build :: "'c plain_client_builder \<Rightarrow> 'c plain_client" where
  "plain_client_build b =
     \<lparr>pc_opts = pb_opts b, pc_tls = build_tls_config with_alpn_protocols (pb_tls b) (pb_alpn b)\<rparr>"

definition plain_with_system_roots ::
  "('p, 'r, 'v, 'c, 's) tls_env \<Rightarrow> 'c plain_client_builder \<Rightarrow> (error + 'c plain_client) option" where
  "plain_with_system_roots e b = panic_bind (client_new_with_native_certs e) (\<lambda>config.
     Some (Inr \<lparr>pc_opts = pb_opts b, pc_tls = Some config\<rparr>))"

fun add_roots :: "('p, 'r, 'v, 'c, 's) tls_env \<Rightarrow> certificate_der list \<Rightarrow> 'r \<Rightarrow> error + 'r" where
  "add_roots e [] roots = Inr roots"
| "add_roots e (c # cs) roots = try_bind (map_tls (add_root e c roots)) (add_roots e cs)"

definition plain_with_server_certificates ::
  "('p, 'r, 'v, 'c, 's) tls_env \<Rightarrow> certificate_der list \<Rightarrow> 'c plain_client_builder \<Rightarrow> (error + 'c plain_client) option" where
  "plain_with_server_certificates e chain b =
     panic_bind (Some (add_roots e chain (empty_roots e))) (\<lambda>roots.
     panic_bind (client_with_verifier e (RootCertificates roots)) (\<lambda>config.
     Some (Inr \<lparr>pc_opts = pb_opts b, pc_tls = Some config\<rparr>)))"

text \<open>\<open>dangerous\<close> keeps the options only; its one operation disables the verification.\<close>

definition plain_dangerous :: "'c plain_client_builder \<Rightarrow> connect_options" where
  "plain_dangerous b = pb_opts b"

definition with_no_certificate_verification ::
  "('p, 'r, 'v, 'c, 's) tls_env \<Rightarrow> connect_options \<Rightarrow> (error + 'c plain_client) option" where
  "with_no_certificate_verification e opts = panic_bind (client_new_insecure e) (\<lambda>config.
     Some (Inr \<lparr>pc_opts = opts, pc_tls = Some config\<rparr>))"

definition plain_client_connect ::
  "('n, 'v, 'h) http_api \<Rightarrow> (string \<Rightarrow> string + 'h)
   \<Rightarrow> ('c tls_config option \<Rightarrow> ws_config \<Rightarrow> 'h \<Rightarrow> tungstenite_error + 'h dialled) \<Rightarrow> 'c plain_client \<Rightarrow> string
   \<Rightarrow> error + plain_conn" where
  "plain_client_connect a into_client_request dial c url =
     plain_connect_with_tls a into_client_request dial url (pc_opts c) (pc_tls c)"

record 's plain_server_builder =
  pv_addr :: socket_addr
  pv_opts :: server_options
  pv_tls :: "'s tls_config option"
  pv_alpn :: "bytes list option"

definition plain_server_builder_new :: "'s plain_server_builder" where
  "plain_server_builder_new =
     \<lparr>pv_addr = AddrV4 [127, 0, 0, 1] 0, pv_opts = server_options_default, pv_tls = None, pv_alpn = None\<rparr>"

definition plain_server_with_addr :: "socket_addr \<Rightarrow> 's plain_server_builder \<Rightarrow> 's plain_server_builder" where
  "plain_server_with_addr x b = b\<lparr>pv_addr := x\<rparr>"

definition plain_server_with_options :: "server_options \<Rightarrow> 's plain_server_builder \<Rightarrow> 's plain_server_builder" where
  "plain_server_with_options opts b = b\<lparr>pv_opts := opts\<rparr>"

definition plain_server_with_header :: "string \<Rightarrow> string \<Rightarrow> 's plain_server_builder \<Rightarrow> 's plain_server_builder" where
  "plain_server_with_header n v b = b\<lparr>pv_opts := (pv_opts b)\<lparr>so_headers := so_headers (pv_opts b) @ [(n, v)]\<rparr>\<rparr>"

definition plain_server_with_limits :: "websocket_limits \<Rightarrow> 's plain_server_builder \<Rightarrow> 's plain_server_builder" where
  "plain_server_with_limits l b = b\<lparr>pv_opts := (pv_opts b)\<lparr>so_limits := l\<rparr>\<rparr>"

definition plain_server_with_protocol :: "string \<Rightarrow> 's plain_server_builder \<Rightarrow> 's plain_server_builder" where
  "plain_server_with_protocol p b = b\<lparr>pv_opts := (pv_opts b)\<lparr>so_protocols := so_protocols (pv_opts b) @ [p]\<rparr>\<rparr>"

definition plain_server_with_certificate ::
  "('p, 'r, 'v, 'c, 's) tls_env \<Rightarrow> certificate_der list \<Rightarrow> private_key_der \<Rightarrow> 's plain_server_builder
   \<Rightarrow> (error + 's plain_server_builder) option" where
  "plain_server_with_certificate e chain key b = panic_bind (server_with_certs e chain key) (\<lambda>config.
     Some (Inr (b\<lparr>pv_tls := Some config\<rparr>)))"

definition plain_server_with_rustls_config :: "'s tls_config \<Rightarrow> 's plain_server_builder \<Rightarrow> 's plain_server_builder" where
  "plain_server_with_rustls_config t b = b\<lparr>pv_tls := Some t\<rparr>"

definition plain_server_with_default_alpn :: "'s plain_server_builder \<Rightarrow> 's plain_server_builder" where
  "plain_server_with_default_alpn b = b\<lparr>pv_alpn := Some default_ws_alpn\<rparr>"

definition plain_server_with_alpn :: "bytes list \<Rightarrow> 's plain_server_builder \<Rightarrow> 's plain_server_builder" where
  "plain_server_with_alpn p b = b\<lparr>pv_alpn := Some p\<rparr>"

definition plain_server_build ::
  "('n, 'v, 'h) http_api \<Rightarrow> (socket_addr \<Rightarrow> io_error + (io_error + socket_addr)) \<Rightarrow> 's plain_server_builder
   \<Rightarrow> error + ('n, 'v, 's tls_config) plain_server" where
  "plain_server_build a tcp_bind b =
     plain_bind a (tcp_bind (pv_addr b)) (pv_opts b) (build_tls_config with_alpn_protocols (pv_tls b) (pv_alpn b))"

section \<open>Negotiation\<close>

text \<open>Configured headers that do not name the subprotocol themselves.\<close>

definition no_protocol_header :: "('n, 'v, 'h) http_api \<Rightarrow> (string \<times> string) list \<Rightarrow> bool" where
  "no_protocol_header a hs \<longleftrightarrow> list_all (\<lambda>(k, _). name_from_bytes a k \<noteq> Inr (sec_websocket_protocol a)) hs"

lemma plain_bind_server:
  assumes "plain_bind a listening opts tls = Inr srv"
  shows "validate_protocols a (so_protocols opts) = Inr ()" "ps_protocols srv = set (so_protocols opts)"
    "prepare_headers a (so_headers opts) = Inr (ps_headers srv)" "ps_acceptor srv = tls" "ps_config srv = transport_config (so_limits opts)"
  using assms by (auto simp: plain_bind_def try_bind_Inr_iff)

lemma plain_callback_total:
  assumes "plain_bind a listening opts tls = Inr srv"
  shows "plain_callback a srv req resp \<noteq> None"
proof (cases "select_protocol a (ps_protocols srv) req")
  case (Some p)
  then have "p \<in> set (so_protocols opts)"
    using select_protocol_in [OF Some] plain_bind_server(2) [OF assms] by simp
  then obtain v where "value_from_str a p = Inr v"
    using validate_protocols_ok [OF plain_bind_server(1) [OF assms]] by blast
  then show ?thesis using Some by (simp add: plain_callback_def Let_def)
qed (simp add: plain_callback_def Let_def)

lemma plain_handshake_total:
  assumes "plain_bind a listening opts tls = Inr srv"
  shows "plain_handshake a inc srv info \<noteq> None"
  using accept_hdr_total [of "plain_callback a srv" inc "ps_config srv"] plain_callback_total [OF assms]
  by (auto simp: plain_handshake_def)

text \<open>
  C34: a server that \<open>bind\<close> returned never panics while it accepts, neither the plain one, with or without
  the TLS stream type, nor the multiplexing one: whatever request arrives and whatever the network does,
  the header value behind \<open>expect\<close> is there.
\<close>

theorem accept_no_panic:
  assumes "plain_bind a listening opts tls = Inr srv" "mux_bind a mux_listening mux_opts mux_tls l = Inr mux_srv"
  shows "(\<exists>r. plain_accept a inc srv = Some r) \<and> (\<exists>r. plain_accept_tls a inc srv = Some r)
    \<and> (\<exists>r. mux_accept a mux_inc mux_srv = Some r)"
proof -
  have "\<exists>r. panic_bind (Some x) (plain_handshake a inc srv) = Some r" for x
    using plain_handshake_total [OF assms(1), of inc] by (cases x) auto
  then show ?thesis
    using mux_accept_total [OF assms(2)] by (auto simp: plain_accept_def plain_accept_tls_def)
qed

text \<open>Headers that do not name the subprotocol leave it alone.\<close>

lemma append_headers_protocol:
  assumes "http_ok a" "append_headers a hs h = Inr h'" "no_protocol_header a hs"
  shows "headers_get a (sec_websocket_protocol a) h' = headers_get a (sec_websocket_protocol a) h"
  using assms(2,3)
proof (induction hs arbitrary: h)
  case (Cons x hs)
  then show ?case
    using assms(1) by (cases x) (auto simp: no_protocol_header_def http_ok_def split: sum.splits)
qed simp

lemma prepare_headers_names:
  assumes "prepare_headers a hs = Inr r" "no_protocol_header a hs"
  shows "list_all (\<lambda>(n, _). n \<noteq> sec_websocket_protocol a) r"
  using assms
proof (induction hs arbitrary: r)
  case (Cons x hs)
  then show ?case by (cases x) (auto simp: no_protocol_header_def try_bind_Inr_iff split: sum.splits)
qed simp

lemma response_headers_protocol:
  assumes "http_ok a" "list_all (\<lambda>(n, _). n \<noteq> sec_websocket_protocol a) hs"
  shows "headers_get a (sec_websocket_protocol a) (response_headers a hs resp) = headers_get a (sec_websocket_protocol a) resp"
  using assms(2)
proof (induction hs arbitrary: resp)
  case (Cons x hs)
  then show ?case using assms(1) by (cases x) (auto simp: response_headers_def http_ok_def)
qed (simp add: response_headers_def)

lemma client_request_selects:
  assumes "http_ok a" "client_request a copts h = Inr req" "list_all clean_name (co_protocols copts)"
    and "no_protocol_header a (co_headers copts)" "headers_get a (sec_websocket_protocol a) h = None"
  shows "select_protocol a allowed req = find (\<lambda>p. p \<in> allowed) (co_protocols copts)"
proof (cases "allowed = {} \<or> co_protocols copts = []")
  case True
  moreover have "headers_get a (sec_websocket_protocol a) req = None" if "co_protocols copts = []"
    using that assms append_headers_protocol [OF assms(1) _ assms(4), of h]
    by (auto simp: client_request_def apply_protocols_def try_bind_Inr_iff)
  moreover have "find (\<lambda>p. False) xs = None" for xs :: "string list" by (simp add: find_None_iff)
  ultimately show ?thesis by (auto simp: select_protocol_def)
next
  case False
  then show ?thesis using client_request_select [OF assms(1,2) _ assms(3)] by simp
qed

text \<open>What the callback answers is what it records, and what a client reads out of the response.\<close>

lemma plain_callback_agrees:
  assumes "http_ok a" "plain_bind a listening opts tls = Inr srv" "no_protocol_header a (so_headers opts)"
    and "headers_get a (sec_websocket_protocol a) resp = None"
  obtains r where "plain_callback a srv req resp = Some (Inr (r, select_protocol a (set (so_protocols opts)) req))"
    "Option.bind (headers_get a (sec_websocket_protocol a) r) (value_to_str a) = select_protocol a (set (so_protocols opts)) req"
proof (cases "select_protocol a (set (so_protocols opts)) req")
  case None
  have "headers_get a (sec_websocket_protocol a) (response_headers a (ps_headers srv) resp) = None"
    using response_headers_protocol [OF assms(1) prepare_headers_names [OF _ assms(3)]] plain_bind_server(3) [OF assms(2)] assms(4)
    by simp
  then show ?thesis
    using that None plain_bind_server(2) [OF assms(2)] by (simp add: plain_callback_def Let_def)
next
  case (Some p)
  then obtain v where "value_from_str a p = Inr v"
    using validate_protocols_ok [OF plain_bind_server(1) [OF assms(2)]] select_protocol_in [OF Some] by blast
  then show ?thesis
    using that Some assms(1) plain_bind_server(2) [OF assms(2)] by (simp add: plain_callback_def http_ok_def Let_def)
qed

text \<open>
  C20: two plain endpoints made by the builders agree on what they negotiated. When neither side sets
  the protocol header by hand, the client's protocol names can be listed in a header, and the network
  carries request and response, then connecting and accepting both succeed, and both connections report
  the same subprotocol: the first of the client's list that the server allows, and none when there is
  none. The server's connection reports the peer, local address and TLS state of its socket.
\<close>

theorem plain_endpoints_agree:
  assumes "http_ok a" "plain_server_build a tcp_bind sb = Inr srv" "no_protocol_header a (so_headers (pv_opts sb))"
    and "websocket_limits_validate (co_limits (pb_opts cb)) = Inr ()" "into_client_request url = Inr h"
    and "client_request a (pb_opts cb) h = Inr req" "list_all clean_name (co_protocols (pb_opts cb))"
    and "no_protocol_header a (co_headers (pb_opts cb))"
    and "headers_get a (sec_websocket_protocol a) h = None" "headers_get a (sec_websocket_protocol a) resp = None"
    and "tcp_accept inc = Inr ()" "tcp_peer inc = Inr p" "tcp_local inc = Inr q" "tls_upgrade inc (ps_acceptor srv) = Inr b"
    and "hs_request inc (transport_config (so_limits (pv_opts sb))) = Inr (req, resp)" "\<forall>r. hs_reply inc r = Inr ()"
    and "\<forall>r x. plain_callback a srv req resp = Some (Inr (r, x)) \<longrightarrow>
           dial (pc_tls (plain_client_build cb)) (transport_config (co_limits (pb_opts cb))) req
             = Inr \<lparr>dl_peer = Inr q, dl_local = Inr p, dl_rustls = b, dl_response = r, dl_items = ys\<rparr>"
  shows "\<exists>c1 c2. plain_client_connect a into_client_request dial (plain_client_build cb) url = Inr c1
     \<and> plain_accept a inc srv = Some (Inr c2)
     \<and> info_subprotocol (conn_info c1) = find (\<lambda>x. x \<in> set (so_protocols (pv_opts sb))) (co_protocols (pb_opts cb))
     \<and> conn_info c2 = \<lparr>info_peer = p, info_local = q, info_is_tls = b, info_subprotocol = info_subprotocol (conn_info c1)\<rparr>
     \<and> ws_in c1 = ys \<and> ws_in c2 = hs_items inc \<and> ws_out c1 = [] \<and> ws_out c2 = []"
proof -
  let ?sel = "find (\<lambda>x. x \<in> set (so_protocols (pv_opts sb))) (co_protocols (pb_opts cb))"
  note bind = assms(2) [unfolded plain_server_build_def]
  have sel: "select_protocol a (set (so_protocols (pv_opts sb))) req = ?sel"
    using client_request_selects [OF assms(1,6,7,8,9)] .
  obtain r where r: "plain_callback a srv req resp = Some (Inr (r, ?sel))"
      "Option.bind (headers_get a (sec_websocket_protocol a) r) (value_to_str a) = ?sel"
    using plain_callback_agrees [OF assms(1) bind assms(3,10), where req = req] sel by metis
  let ?c1 = "\<lparr>ws_in = ys, ws_out = [],
      conn_info = \<lparr>info_peer = q, info_local = p, info_is_tls = b, info_subprotocol = ?sel\<rparr>, conn_close_frame = None\<rparr>"
  have "plain_client_connect a into_client_request dial (plain_client_build cb) url = Inr ?c1"
    using assms(4-6,17) r
    by (simp add: plain_client_connect_def plain_connect_with_tls_def plain_client_build_def map_ws_def map_io_def)
  moreover have "plain_accept a inc srv = Some (Inr \<lparr>ws_in = hs_items inc, ws_out = [],
      conn_info = \<lparr>info_peer = p, info_local = q, info_is_tls = b, info_subprotocol = ?sel\<rparr>, conn_close_frame = None\<rparr>)"
    using assms(11-16) r(1) plain_bind_server(5) [OF bind] by (simp add: plain_accept_def plain_handshake_def accept_hdr_def map_io_def map_ws_def)
  ultimately show ?thesis by simp
qed

text \<open>The clients that load their own roots take the options of the builder and nothing else of it.\<close>

lemma roots_ignore_alpn:
  "plain_with_system_roots e (plain_client_with_alpn ps b) = plain_with_system_roots e b"
  "plain_with_server_certificates e chain (plain_client_with_alpn ps b) = plain_with_server_certificates e chain b"
  by (simp_all add: plain_with_system_roots_def plain_with_server_certificates_def plain_client_with_alpn_def)

section \<open>Concrete endpoints\<close>

definition demo_plain_server :: "unit plain_server_builder" where
  "demo_plain_server = plain_server_with_protocol ''json'' plain_server_builder_new"

definition demo_plain_client :: "unit plain_client_builder" where
  "demo_plain_client = plain_client_with_protocols [''cbor'', ''json''] plain_client_builder_new"

definition demo_plain_incoming :: "((string \<times> string) list, unit tls_config, socket_addr) incoming" where
  "demo_plain_incoming = \<lparr>tcp_accept = Inr (), tcp_peer = Inr (AddrV4 [10, 0, 0, 1] 5), tcp_local = Inr (AddrV4 [127, 0, 0, 1] 80),
     tls_accept = (\<lambda>_. Inr ()), hs_request = (\<lambda>_. Inr ([(''sec-websocket-protocol'', ''cbor,json'')], [])),
     hs_reply = (\<lambda>_. Inr ()), hs_reject = (\<lambda>r. TOther (body r)), hs_items = []\<rparr>"

definition demo_plain_dial ::
  "unit tls_config option \<Rightarrow> ws_config \<Rightarrow> (string \<times> string) list \<Rightarrow> tungstenite_error + (string \<times> string) list dialled" where
  "demo_plain_dial tls cfg req = Inr \<lparr>dl_peer = Inr (AddrV4 [127, 0, 0, 1] 80), dl_local = Inr (AddrV4 [10, 0, 0, 1] 5),
     dl_rustls = False, dl_response = [(''sec-websocket-protocol'', ''json'')], dl_items = []\<rparr>"

lemma demo_plain_bound:
  obtains srv where "plain_server_build demo_http (\<lambda>_. Inr demo_listener) demo_plain_server = Inr srv"
    "ps_headers srv = []" "ps_acceptor srv = None" "ps_protocols srv = {''json''}"
  by (simp add: demo_plain_server_def plain_server_with_protocol_def plain_server_builder_new_def plain_server_build_def
      plain_bind_def map_io_def server_options_default_def websocket_limits_default_def websocket_limits_validate_def
      build_tls_config_def)

theorem accept_no_panic_witness:
  "\<exists>srv mux_srv r r' r''.
     plain_server_build demo_http (\<lambda>_. Inr demo_listener) demo_plain_server = Inr srv
     \<and> mux_bind demo_http (Inr demo_listener) demo_server_opts (None :: unit option) limits_default = Inr mux_srv
     \<and> plain_accept demo_http demo_plain_incoming srv = Some r \<and> plain_accept_tls demo_http demo_plain_incoming srv = Some r'
     \<and> mux_accept demo_http demo_incoming mux_srv = Some r''"
proof -
  obtain srv where srv: "plain_server_build demo_http (\<lambda>_. Inr demo_listener) demo_plain_server = Inr srv"
    using demo_plain_bound by blast
  obtain mux_srv where mux: "mux_bind demo_http (Inr demo_listener) demo_server_opts (None :: unit option) limits_default = Inr mux_srv"
    using demo_bound by blast
  show ?thesis
    using accept_no_panic [OF srv [unfolded plain_server_build_def] mux, of demo_plain_incoming demo_incoming] srv mux by blast
qed

theorem plain_endpoints_agree_witness:
  "\<exists>srv c1 c2. plain_server_build demo_http (\<lambda>_. Inr demo_listener) demo_plain_server = Inr srv
     \<and> plain_client_connect demo_http (\<lambda>_. Inr []) demo_plain_dial (plain_client_build demo_plain_client) ''ws://x'' = Inr c1
     \<and> plain_accept demo_http demo_plain_incoming srv = Some (Inr c2)
     \<and> info_subprotocol (conn_info c1) = Some ''json'' \<and> info_subprotocol (conn_info c2) = Some ''json''"
proof -
  let ?req = "[(''sec-websocket-protocol'', ''cbor,json'')]"
  obtain srv where srv: "plain_server_build demo_http (\<lambda>_. Inr demo_listener) demo_plain_server = Inr srv"
      "ps_headers srv = []" "ps_acceptor srv = None" "ps_protocols srv = {''json''}"
    using demo_plain_bound .
  have opts: "pb_opts demo_plain_client = connect_options_default\<lparr>co_protocols := [''cbor'', ''json'']\<rparr>"
      "pv_opts demo_plain_server = server_options_default\<lparr>so_protocols := [''json'']\<rparr>"
    by (simp_all add: demo_plain_client_def plain_client_with_protocols_def plain_client_with_protocol_def
        plain_client_builder_new_def connect_options_default_def demo_plain_server_def plain_server_with_protocol_def
        plain_server_builder_new_def server_options_default_def)
  have req: "client_request demo_http (pb_opts demo_plain_client) [] = Inr ?req"
    using opts by (simp add: client_request_def apply_protocols_def demo_http_def connect_options_default_def)
  have "r = [(''sec-websocket-protocol'', ''json'')]" if "plain_callback demo_http srv ?req [] = Some (Inr (r, x))" for r x
    using that srv(2,4)
    by (simp add: plain_callback_def response_headers_def select_protocol_def demo_http_def trim_def is_whitespace_def Let_def)
  then show ?thesis
    using plain_endpoints_agree [OF demo_http_ok srv(1), of demo_plain_client "\<lambda>_. Inr []" "''ws://x''" "[]" ?req "[]"
        demo_plain_incoming "AddrV4 [10, 0, 0, 1] 5" "AddrV4 [127, 0, 0, 1] 80" False demo_plain_dial "[]"]
      opts req srv(1,3)
    by (simp add: no_protocol_header_def connect_options_default_def server_options_default_def websocket_limits_default_def
        websocket_limits_validate_def demo_plain_incoming_def tls_upgrade_def demo_plain_dial_def clean_name_def trim_def
        is_whitespace_def demo_http_def [THEN arg_cong [where f = "\<lambda>x. headers_get x"]]) auto
qed

end
