(* ===== verification/Browser_Connection.thy ===== *)
theory Browser_Connection
  imports Handshake
begin

text \<open>
  The browser connection (\<open>websock-wasm/src/connection.rs\<close>). The \<open>WebSocket\<close> object of the browser is
  represented by its ready state and by which of its handlers are set; what \<open>close\<close> and \<open>send\<close> do to it
  are parameters, and \<open>js_close_ok\<close> states what the WebSocket standard says of \<open>close\<close>.

  Messages reach the application through a \<open>futures_channel\<close> channel of 64 messages with three senders.
  Whether a sender finds room is a parameter of every send, as in the browser session; \<open>browser_room\<close>
  states what the library documents: there is room for at least 64 messages and for at most one more
  per sender.
\<close>

section \<open>The socket and the channel\<close>

datatype ready_state = CONNECTING | OPEN | CLOSING | CLOSED

record socket =
  ready :: ready_state
  onopen :: bool
  onmessage :: bool
  onerror :: bool
  onclose :: bool

type_synonym js_close = "ready_state \<Rightarrow> string + ready_state"

definition js_close_ok :: "js_close \<Rightarrow> bool" where
  "js_close_ok cl \<longleftrightarrow> (\<forall>r. cl r = Inr (if r = CLOSED then CLOSED else CLOSING))"

definition released :: "socket \<Rightarrow> bool" where
  "released s \<longleftrightarrow> ready s \<in> {CLOSING, CLOSED} \<and> \<not> onopen s \<and> \<not> onmessage s \<and> \<not> onerror s \<and> \<not> onclose s"

definition js_err :: "string \<Rightarrow> error" where
  "js_err e = Other e"

definition ws_close :: "js_close \<Rightarrow> socket \<Rightarrow> (error + unit) \<times> socket" where
  "ws_close cl s = (case cl (ready s) of Inl e \<Rightarrow> (Inl (js_err e), s) | Inr r \<Rightarrow> (Inr (), s\<lparr>ready := r\<rparr>))"

lemma ws_close_simps [simp]:
  "onopen (snd (ws_close cl s)) = onopen s" "onmessage (snd (ws_close cl s)) = onmessage s"
  "onerror (snd (ws_close cl s)) = onerror s" "onclose (snd (ws_close cl s)) = onclose s"
  by (simp_all add: ws_close_def split: sum.splits)

lemma ws_close_ready:
  assumes "js_close_ok cl"
  shows "ready (snd (ws_close cl s)) \<in> {CLOSING, CLOSED}"
  using assms by (simp add: ws_close_def js_close_ok_def)

record browser_core =
  sock :: socket
  chan :: "(error + message) list"
  chan_open :: bool
  rx_live :: bool
  core_close_frame :: "close_frame option"
  core_max_message :: nat

definition browser_room :: "(nat \<Rightarrow> bool) \<Rightarrow> bool" where
  "browser_room room \<longleftrightarrow> (\<forall>n. n < 64 \<longrightarrow> room n) \<and> (\<forall>n. room n \<longrightarrow> n < 67)"

definition chan_try_send :: "(nat \<Rightarrow> bool) \<Rightarrow> error + message \<Rightarrow> browser_core \<Rightarrow> bool \<times> browser_core" where
  "chan_try_send room r c =
     (if chan_open c \<and> rx_live c \<and> room (length (chan c)) then (True, c\<lparr>chan := chan c @ [r]\<rparr>) else (False, c))"

definition close_channel :: "browser_core \<Rightarrow> browser_core" where
  "close_channel c = c\<lparr>chan_open := False\<rparr>"

definition core_close :: "js_close \<Rightarrow> browser_core \<Rightarrow> browser_core" where
  "core_close cl c = c\<lparr>sock := snd (ws_close cl (sock c))\<rparr>"

section \<open>Handlers\<close>

datatype js_data = JsString string | JsArrayBuffer bytes | JsOther

text \<open>A failing handler reports its error when it can, closes the channel and closes the socket.\<close>

definition reject_data :: "js_close \<Rightarrow> (nat \<Rightarrow> bool) \<Rightarrow> string \<Rightarrow> browser_core \<Rightarrow> browser_core" where
  "reject_data cl room m c = core_close cl (close_channel (snd (chan_try_send room (Inl (Protocol m)) c)))"

definition deliver_data :: "js_close \<Rightarrow> (nat \<Rightarrow> bool) \<Rightarrow> message \<Rightarrow> browser_core \<Rightarrow> browser_core" where
  "deliver_data cl room m c = (case chan_try_send room (Inr m) c of
     (True, c1) \<Rightarrow> c1 | (False, c1) \<Rightarrow> core_close cl (close_channel c1))"

fun on_message :: "js_close \<Rightarrow> (nat \<Rightarrow> bool) \<Rightarrow> js_data \<Rightarrow> browser_core \<Rightarrow> browser_core" where
  "on_message cl room (JsString s) c =
     (if length s > core_max_message c then reject_data cl room ''websocket message exceeds max_message_size'' c
      else deliver_data cl room (Text s) c)"
| "on_message cl room (JsArrayBuffer b) c =
     (if length b > core_max_message c then reject_data cl room ''websocket message exceeds max_message_size'' c
      else deliver_data cl room (Binary b) c)"
| "on_message cl room JsOther c = reject_data cl room ''unsupported message type'' c"

definition on_error :: "(nat \<Rightarrow> bool) \<Rightarrow> browser_core \<Rightarrow> browser_core" where
  "on_error room c = (case chan_try_send room (Inl (Other ''websocket error'')) c of
     (True, c1) \<Rightarrow> c1 | (False, c1) \<Rightarrow> close_channel c1)"

definition on_close :: "(nat \<Rightarrow> bool) \<Rightarrow> u16 \<Rightarrow> string \<Rightarrow> browser_core \<Rightarrow> browser_core" where
  "on_close room code reason c =
     close_channel (snd (chan_try_send room (Inl Closed)
       (c\<lparr>core_close_frame := Some \<lparr>cf_code = code, cf_reason = reason\<rparr>\<rparr>)))"

section \<open>Connecting\<close>

text \<open>
  A connection attempt that waits for the first event of the socket. \<open>open_tx\<close> says that no handler has
  taken the sender of the outcome yet.
\<close>

record connecting =
  cn_sock :: socket
  cn_opts :: connect_options
  open_tx :: bool
  open_res :: "(error + unit) option"

definition connect_socket :: "connect_options \<Rightarrow> ready_state \<Rightarrow> connecting" where
  "connect_socket opts r =
     \<lparr>cn_sock = \<lparr>ready = r, onopen = True, onmessage = False, onerror = True, onclose = True\<rparr>,
      cn_opts = opts, open_tx = True, open_res = None\<rparr>"

text \<open>\<open>new_socket\<close> is the constructor of the browser: an exception, or a socket in some state.\<close>

definition browser_connect :: "(string \<Rightarrow> string list \<Rightarrow> string + ready_state) \<Rightarrow> string \<Rightarrow> connect_options \<Rightarrow> error + connecting" where
  "browser_connect new_socket url opts =
     try_bind (websocket_limits_validate (co_limits opts)) (\<lambda>_.
     case new_socket url (co_protocols opts) of
       Inl e \<Rightarrow> Inl (js_err e) | Inr r \<Rightarrow> Inr (connect_socket opts r))"

definition resolve :: "error + unit \<Rightarrow> connecting \<Rightarrow> connecting" where
  "resolve r c = (if open_tx c then c\<lparr>open_tx := False, open_res := Some r\<rparr> else c)"

text \<open>An event of the socket while an attempt waits; the browser has set the ready state before.\<close>

datatype connect_event = WaitOpen | WaitError | WaitClose

fun wait_handler :: "connect_event \<Rightarrow> connecting \<Rightarrow> connecting" where
  "wait_handler WaitOpen c = (if onopen (cn_sock c) then resolve (Inr ()) c else c)"
| "wait_handler WaitError c = (if onerror (cn_sock c) then resolve (Inl (Other ''websocket error (before open)'')) c else c)"
| "wait_handler WaitClose c = (if onclose (cn_sock c) then resolve (Inl Closed) c else c)"

definition connect_on :: "connect_event \<times> ready_state \<Rightarrow> connecting \<Rightarrow> connecting" where
  "connect_on e c = wait_handler (fst e) (c\<lparr>cn_sock := (cn_sock c)\<lparr>ready := snd e\<rparr>\<rparr>)"

definition unset_wait :: "socket \<Rightarrow> socket" where
  "unset_wait s = s\<lparr>onopen := False, onerror := False, onclose := False\<rparr>"

text \<open>The guard of an attempt that is dropped while armed, by cancellation or by a failure.\<close>

definition guard_drop :: "js_close \<Rightarrow> socket \<Rightarrow> socket" where
  "guard_drop cl s = snd (ws_close cl (unset_wait s))"

record browser_conn =
  bc_core :: browser_core
  bc_max_write :: nat
  bc_protocol :: string
  bc_ws_refs :: nat

text \<open>
  The attempt after its wait. \<open>protocol\<close> is what the socket reports as negotiated. A failed attempt
  leaves the socket behind.
\<close>

definition connect_resume :: "js_close \<Rightarrow> string \<Rightarrow> connecting \<Rightarrow> ((error \<times> socket) + browser_conn) poll" where
  "connect_resume cl protocol c = (case open_res c of
     None \<Rightarrow> Pending
   | Some (Inl e) \<Rightarrow> Ready (Inl (e, guard_drop cl (unset_wait (cn_sock c))))
   | Some (Inr _) \<Rightarrow>
       Ready (Inr \<lparr>
         bc_core = \<lparr>sock = (unset_wait (cn_sock c))\<lparr>onmessage := True, onerror := True, onclose := True\<rparr>, chan = [],
           chan_open = True, rx_live = True, core_close_frame = None, core_max_message = max_message_size (co_limits (cn_opts c))\<rparr>,
         bc_max_write = max_write_buffer_size (co_limits (cn_opts c)), bc_protocol = protocol, bc_ws_refs = 1\<rparr>))"

definition connect_cancel :: "js_close \<Rightarrow> connecting \<Rightarrow> socket" where
  "connect_cancel cl c = guard_drop cl (cn_sock c)"

section \<open>Operations\<close>

text \<open>\<open>usize\<close> has 32 bits in the browser; \<open>buffered\<close> is the 32-bit amount the socket reports.\<close>

definition check_send_capacity :: "u32 \<Rightarrow> nat \<Rightarrow> nat \<Rightarrow> error + unit" where
  "check_send_capacity buffered message_len max_write =
     (if usize_saturating_add 32 (unat buffered) message_len > max_write
      then Inl (Other ''websocket write buffer limit exceeded'') else Inr ())"

fun message_len :: "message \<Rightarrow> nat" where
  "message_len (Text s) = length s"
| "message_len (Binary b) = length b"

definition browser_send :: "u32 \<Rightarrow> (message \<Rightarrow> string + unit) \<Rightarrow> message \<Rightarrow> browser_conn \<Rightarrow> error + unit" where
  "browser_send buffered js_send m c =
     try_bind (check_send_capacity buffered (message_len m) (bc_max_write c)) (\<lambda>_.
     case js_send m of Inl e \<Rightarrow> Inl (js_err e) | Inr _ \<Rightarrow> Inr ())"

text \<open>Taking the next item of the channel; its end comes after the queued items of a closed channel.\<close>

definition chan_next :: "browser_core \<Rightarrow> (error + message) option poll \<times> browser_core" where
  "chan_next c = (case chan c of
     r # q \<Rightarrow> (Ready (Some r), c\<lparr>chan := q\<rparr>)
   | [] \<Rightarrow> (if chan_open c then Pending else Ready None, c))"

definition browser_recv :: "browser_conn \<Rightarrow> (error + message) poll \<times> browser_conn" where
  "browser_recv c =
     (if \<not> rx_live (bc_core c) then (Ready (Inl Closed), c)
      else case chan_next (bc_core c) of
        (Pending, k) \<Rightarrow> (Pending, c\<lparr>bc_core := k\<rparr>)
      | (Ready None, k) \<Rightarrow> (Ready (Inl Closed), c\<lparr>bc_core := k\<rparr>)
      | (Ready (Some r), k) \<Rightarrow> (Ready r, c\<lparr>bc_core := k\<rparr>))"

definition drop_rx :: "browser_core \<Rightarrow> browser_core" where
  "drop_rx c = c\<lparr>chan := [], rx_live := False\<rparr>"

text \<open>The loop of \<open>close\<close> over the queued items.\<close>

fun drain :: "bool \<Rightarrow> (error + message) list \<Rightarrow> (error + unit) poll \<times> (error + message) list" where
  "drain live [] = (if live then Pending else Ready (Inr ()), [])"
| "drain live (Inr m # q) = drain live q"
| "drain live (Inl Closed # q) = (Ready (Inr ()), q)"
| "drain live (Inl e # q) = (Ready (Inl e), q)"

definition close_poll :: "browser_conn \<Rightarrow> (error + unit) poll \<times> browser_conn" where
  "close_poll c =
     (if \<not> rx_live (bc_core c) then (Ready (Inr ()), c)
      else case drain (chan_open (bc_core c)) (chan (bc_core c)) of
        (Pending, q) \<Rightarrow> (Pending, c\<lparr>bc_core := (bc_core c)\<lparr>chan := q\<rparr>\<rparr>)
      | (Ready r, q) \<Rightarrow> (Ready r, c\<lparr>bc_core := drop_rx (bc_core c)\<rparr>))"

definition browser_close :: "js_close \<Rightarrow> browser_conn \<Rightarrow> (error + unit) poll \<times> browser_conn" where
  "browser_close cl c =
     (if ready (sock (bc_core c)) = CLOSED then (Ready (Inr ()), c\<lparr>bc_core := drop_rx (bc_core c)\<rparr>)
      else if ready (sock (bc_core c)) \<noteq> CLOSING then
        (case ws_close cl (sock (bc_core c)) of
           (Inl e, s) \<Rightarrow> (Ready (Inl e), c\<lparr>bc_core := (bc_core c)\<lparr>sock := s\<rparr>\<rparr>)
         | (Inr _, s) \<Rightarrow> close_poll (c\<lparr>bc_core := (bc_core c)\<lparr>sock := s\<rparr>\<rparr>))
      else close_poll c)"

definition negotiated_subprotocol :: "browser_conn \<Rightarrow> string option" where
  "negotiated_subprotocol c = (if bc_protocol c = [] then None else Some (bc_protocol c))"

definition unset_all :: "socket \<Rightarrow> socket" where
  "unset_all s = s\<lparr>onmessage := False, onerror := False, onclose := False, onopen := False\<rparr>"

definition browser_conn_drop :: "js_close \<Rightarrow> browser_conn \<Rightarrow> browser_core" where
  "browser_conn_drop cl c =
     (if bc_ws_refs c \<noteq> 1 then bc_core c
      else drop_rx (core_close cl ((bc_core c)\<lparr>sock := unset_all (sock (bc_core c))\<rparr>)))"

section \<open>Connection attempts\<close>

lemma resolve_fields [simp]: "cn_sock (resolve r c) = cn_sock c" "cn_opts (resolve r c) = cn_opts c"
  by (simp_all add: resolve_def)

lemma wait_handler_fields [simp]: "cn_sock (wait_handler ev c) = cn_sock c" "cn_opts (wait_handler ev c) = cn_opts c"
  by (cases ev; simp)+

lemma connect_on_fields [simp]:
  "cn_sock (connect_on e c) = (cn_sock c)\<lparr>ready := snd e\<rparr>" "cn_opts (connect_on e c) = cn_opts c"
  by (simp_all add: connect_on_def)

lemma connect_fold_sock: "\<exists>r. cn_sock (fold connect_on evs c) = (cn_sock c)\<lparr>ready := r\<rparr>"
proof (induction evs arbitrary: c)
  case Nil
  show ?case by (auto intro: exI [of _ "ready (cn_sock c)"])
next
  case (Cons e evs)
  show ?case using Cons.IH [of "connect_on e c"] by simp
qed

lemma connect_fold_opts: "cn_opts (fold connect_on evs c) = cn_opts c"
  by (induction evs arbitrary: c) simp_all

lemma connect_decided: "\<not> open_tx c \<Longrightarrow> open_res (fold connect_on evs c) = open_res c"
proof (induction evs arbitrary: c)
  case (Cons e evs)
  then have "\<not> open_tx (connect_on e c)" "open_res (connect_on e c) = open_res c"
    by (cases "fst e"; simp add: connect_on_def resolve_def)+
  then show ?case using Cons by simp
qed simp

lemma guard_drop_released: "js_close_ok cl \<Longrightarrow> \<not> onmessage s \<Longrightarrow> released (guard_drop cl s)"
  using ws_close_ready [of cl "unset_wait s"] by (simp add: guard_drop_def released_def unset_wait_def)

text \<open>How an event decides an attempt.\<close>

fun event_result :: "connect_event \<Rightarrow> error + unit" where
  "event_result WaitOpen = Inr ()"
| "event_result WaitError = Inl (Other ''websocket error (before open)'')"
| "event_result WaitClose = Inl Closed"

lemma connect_first:
  "open_res (fold connect_on ((ev, r') # es) (connect_socket opts r)) = Some (event_result ev)"
proof -
  let ?c = "connect_on (ev, r') (connect_socket opts r)"
  have "\<not> open_tx ?c" "open_res ?c = Some (event_result ev)"
    by (cases ev; simp add: connect_on_def connect_socket_def resolve_def)+
  then show ?thesis using connect_decided [of ?c es] by simp
qed

text \<open>
  C33: the first event decides a connection attempt, whatever follows it. After an open event the attempt
  yields a connection whose receiver is live, whose channel is empty and whose message handlers, and not
  the waiting one, are attached; after an error or a close it yields that error. A failed attempt, and one
  that is cancelled at any time, leave the socket closed and without handlers.
\<close>

theorem connect_attempt:
  assumes "js_close_ok cl" "c = fold connect_on evs (connect_socket opts r)"
  shows "released (connect_cancel cl c) \<and>
    (case evs of
       [] \<Rightarrow> connect_resume cl protocol c = Pending
     | (ev, _) # _ \<Rightarrow>
         (case event_result ev of
            Inr _ \<Rightarrow> \<exists>k. connect_resume cl protocol c = Ready (Inr k) \<and> rx_live (bc_core k) \<and> chan_open (bc_core k)
              \<and> chan (bc_core k) = [] \<and> \<not> onopen (sock (bc_core k)) \<and> onmessage (sock (bc_core k))
              \<and> onerror (sock (bc_core k)) \<and> onclose (sock (bc_core k))
          | Inl e \<Rightarrow> \<exists>s. connect_resume cl protocol c = Ready (Inl (e, s)) \<and> released s))"
proof -
  obtain r' where s: "cn_sock c = \<lparr>ready = r', onopen = True, onmessage = False, onerror = True, onclose = True\<rparr>"
    using connect_fold_sock [of evs "connect_socket opts r"] assms(2) by (auto simp: connect_socket_def)
  then have canc: "released (connect_cancel cl c)" and fail: "released (guard_drop cl (unset_wait (cn_sock c)))"
    using guard_drop_released [OF assms(1)] by (simp_all add: connect_cancel_def unset_wait_def)
  show ?thesis
  proof (cases evs)
    case Nil
    with assms(2) canc show ?thesis by (simp add: connect_socket_def connect_resume_def)
  next
    case (Cons e es)
    then obtain ev q where e: "evs = (ev, q) # es" by (cases e) simp
    with connect_first [of ev q es opts r] assms(2) have "open_res c = Some (event_result ev)" by simp
    with e s canc fail show ?thesis
      by (cases "event_result ev") (simp_all add: connect_resume_def unset_wait_def)
  qed
qed

definition demo_close :: js_close where
  "demo_close r = Inr (if r = CLOSED then CLOSED else CLOSING)"

lemma demo_close_ok: "js_close_ok demo_close"
  by (simp add: js_close_ok_def demo_close_def)

theorem connect_attempt_witness:
  "released (connect_cancel demo_close (fold connect_on [(WaitError, CLOSED)] (connect_socket connect_options_default CONNECTING)))
   \<and> (\<exists>s. connect_resume demo_close [] (fold connect_on [(WaitError, CLOSED)] (connect_socket connect_options_default CONNECTING))
        = Ready (Inl (Other ''websocket error (before open)'', s)) \<and> released s)"
  using connect_attempt [OF demo_close_ok refl, of "[(WaitError, CLOSED)]" connect_options_default CONNECTING "[]"] by simp

end
