(* ===== verification/Browser_Split.thy ===== *)
theory Browser_Split
  imports Browser_Connection
begin

text \<open>
  The sink and stream halves of a browser connection (\<open>websock-wasm/src/stream.rs\<close>), and runs in which
  the browser raises events while the application uses the whole connection or its halves.
\<close>

section \<open>The halves\<close>

record browser_halves =
  bh_core :: browser_core
  bh_max_write :: nat
  bh_ref_count :: nat
  bh_sink_alive :: bool
  bh_sink_closed :: bool
  bh_stream_alive :: bool
  bh_terminated :: bool

text \<open>
  \<open>None\<close> is the panic on a connection without a receiver, which \<open>close\<close> has taken. The connection is
  dropped at the end, while both halves hold the socket.
\<close>

definition browser_split :: "js_close \<Rightarrow> browser_conn \<Rightarrow> browser_halves option" where
  "browser_split cl c =
     (if \<not> rx_live (bc_core c) then None
      else Some \<lparr>bh_core = browser_conn_drop cl (c\<lparr>bc_ws_refs := bc_ws_refs c + 2\<rparr>), bh_max_write = bc_max_write c, bh_ref_count = 2, bh_sink_alive = True,
        bh_sink_closed = False, bh_stream_alive = True, bh_terminated = False\<rparr>)"

definition bsink_poll_ready :: "browser_halves \<Rightarrow> (error + unit) poll" where
  "bsink_poll_ready h = Ready (if bh_sink_closed h then Inl Closed else Inr ())"

definition bsink_start_send :: "u32 \<Rightarrow> (message \<Rightarrow> string + unit) \<Rightarrow> message \<Rightarrow> browser_halves \<Rightarrow> error + unit" where
  "bsink_start_send buffered js_send m h =
     (if bh_sink_closed h then Inl Closed
      else try_bind (check_send_capacity buffered (message_len m) (bh_max_write h)) (\<lambda>_.
        case js_send m of Inl e \<Rightarrow> Inl (js_err e) | Inr _ \<Rightarrow> Inr ()))"

definition bsink_poll_flush :: "browser_halves \<Rightarrow> (error + unit) poll" where
  "bsink_poll_flush h = Ready (Inr ())"

definition bsink_poll_close :: "js_close \<Rightarrow> browser_halves \<Rightarrow> (error + unit) poll \<times> browser_halves" where
  "bsink_poll_close cl h =
     (Ready (Inr ()), if bh_sink_closed h then h else h\<lparr>bh_core := core_close cl (bh_core h), bh_sink_closed := True\<rparr>)"

definition bsink_drop :: "js_close \<Rightarrow> browser_halves \<Rightarrow> browser_halves" where
  "bsink_drop cl h =
     (let remaining = bh_ref_count h - 1; h1 = h\<lparr>bh_ref_count := remaining, bh_sink_alive := False\<rparr>
      in if remaining = 0 \<and> \<not> bh_sink_closed h
         then h1\<lparr>bh_core := core_close cl (bh_core h), bh_sink_closed := True\<rparr> else h1)"

definition bstream_poll_next :: "browser_halves \<Rightarrow> (error + message) option poll \<times> browser_halves" where
  "bstream_poll_next h =
     (if bh_terminated h then (Ready None, h)
      else case chan_next (bh_core h) of
        (Pending, k) \<Rightarrow> (Pending, h\<lparr>bh_core := k\<rparr>)
      | (Ready None, k) \<Rightarrow> (Ready None, h\<lparr>bh_core := k, bh_terminated := True\<rparr>)
      | (Ready (Some r), k) \<Rightarrow> (Ready (Some r), h\<lparr>bh_core := k\<rparr>))"

definition bstream_drop :: "js_close \<Rightarrow> browser_halves \<Rightarrow> browser_halves" where
  "bstream_drop cl h =
     (let remaining = bh_ref_count h - 1;
          k = (bh_core h)\<lparr>sock := unset_all (sock (bh_core h))\<rparr>
      in h\<lparr>bh_core := drop_rx (if remaining = 0 then core_close cl k else k), bh_ref_count := remaining,
           bh_stream_alive := False\<rparr>)"

section \<open>Runs\<close>

datatype browser_owner = Whole browser_conn | Halves browser_halves | Dropped browser_core

fun core_of :: "browser_owner \<Rightarrow> browser_core" where
  "core_of (Whole c) = bc_core c"
| "core_of (Halves h) = bh_core h"
| "core_of (Dropped k) = k"

fun set_core :: "browser_core \<Rightarrow> browser_owner \<Rightarrow> browser_owner" where
  "set_core k (Whole c) = Whole (c\<lparr>bc_core := k\<rparr>)"
| "set_core k (Halves h) = Halves (h\<lparr>bh_core := k\<rparr>)"
| "set_core k (Dropped k') = Dropped k"

lemma core_of_set_core [simp]: "core_of (set_core k x) = k"
  by (cases x) simp_all

datatype browser_event = EvMessage js_data | EvError | EvClose u16 string

text \<open>What an event means to the application.\<close>

fun event_item :: "nat \<Rightarrow> browser_event \<Rightarrow> error + message" where
  "event_item n (EvMessage (JsString s)) =
     (if length s > n then Inl (Protocol ''websocket message exceeds max_message_size'') else Inr (Text s))"
| "event_item n (EvMessage (JsArrayBuffer b)) =
     (if length b > n then Inl (Protocol ''websocket message exceeds max_message_size'') else Inr (Binary b))"
| "event_item n (EvMessage JsOther) = Inl (Protocol ''unsupported message type'')"
| "event_item n EvError = Inl (Other ''websocket error'')"
| "event_item n (EvClose code reason) = Inl Closed"

fun handler_set :: "browser_event \<Rightarrow> socket \<Rightarrow> bool" where
  "handler_set (EvMessage d) s = onmessage s"
| "handler_set EvError s = onerror s"
| "handler_set (EvClose code reason) s = onclose s"

text \<open>The handler of an event; a close event finds the socket closed.\<close>

fun run_handler :: "js_close \<Rightarrow> (nat \<Rightarrow> bool) \<Rightarrow> browser_event \<Rightarrow> browser_core \<Rightarrow> browser_core" where
  "run_handler cl room (EvMessage d) k = on_message cl room d k"
| "run_handler cl room EvError k = on_error room k"
| "run_handler cl room (EvClose code reason) k =
     on_close room code reason (k\<lparr>sock := (sock k)\<lparr>ready := CLOSED\<rparr>\<rparr>)"

text \<open>What the application does with the connection or its halves; each half is dropped once.\<close>

inductive browser_use :: "js_close \<Rightarrow> browser_owner \<Rightarrow> browser_owner \<Rightarrow> bool" for cl where
  use_recv: "browser_recv c = (r, c') \<Longrightarrow> browser_use cl (Whole c) (Whole c')"
| use_close: "browser_close cl c = (r, c') \<Longrightarrow> browser_use cl (Whole c) (Whole c')"
| use_close_poll: "close_poll c = (r, c') \<Longrightarrow> browser_use cl (Whole c) (Whole c')"
| use_drop: "browser_use cl (Whole c) (Dropped (browser_conn_drop cl c))"
| use_split: "browser_split cl c = Some h \<Longrightarrow> browser_use cl (Whole c) (Halves h)"
| use_next: "bh_stream_alive h \<Longrightarrow> bstream_poll_next h = (r, h') \<Longrightarrow> browser_use cl (Halves h) (Halves h')"
| use_sink_close: "bh_sink_alive h \<Longrightarrow> bsink_poll_close cl h = (r, h') \<Longrightarrow> browser_use cl (Halves h) (Halves h')"
| use_sink_drop: "bh_sink_alive h \<Longrightarrow> browser_use cl (Halves h) (Halves (bsink_drop cl h))"
| use_stream_drop: "bh_stream_alive h \<Longrightarrow> browser_use cl (Halves h) (Halves (bstream_drop cl h))"

text \<open>
  \<open>arrived\<close> are the events whose handlers ran, \<open>taken\<close> the items that left the channel at its front: by
  \<open>recv\<close> or the stream, by \<open>close\<close>, or because the receiver was dropped.
\<close>

record browser_run =
  owner :: browser_owner
  arrived :: "browser_event list"
  taken :: "(error + message) list"

inductive browser_run_step :: "js_close \<Rightarrow> browser_run \<Rightarrow> browser_run \<Rightarrow> bool" for cl where
  run_event: "handler_set ev (sock (core_of (owner x))) \<Longrightarrow> browser_room room \<Longrightarrow>
    browser_run_step cl x (x\<lparr>owner := set_core (run_handler cl room ev (core_of (owner x))) (owner x), arrived := arrived x @ [ev]\<rparr>)"
| run_ready: "r \<in> {CLOSING, CLOSED} \<Longrightarrow>
    browser_run_step cl x (x\<lparr>owner := set_core ((core_of (owner x))\<lparr>sock := (sock (core_of (owner x)))\<lparr>ready := r\<rparr>\<rparr>) (owner x)\<rparr>)"
| run_use: "browser_use cl (owner x) y \<Longrightarrow> chan (core_of (owner x)) = out @ chan (core_of y) \<Longrightarrow>
    browser_run_step cl x (x\<lparr>owner := y, taken := taken x @ out\<rparr>)"

definition browser_run_init :: "js_close \<Rightarrow> connect_options \<Rightarrow> browser_run \<Rightarrow> bool" where
  "browser_run_init cl opts x \<longleftrightarrow> (\<exists>evs protocol c.
     connect_resume cl protocol (fold connect_on evs (connect_socket opts CONNECTING)) = Ready (Inr c)
     \<and> x = \<lparr>owner = Whole c, arrived = [], taken = []\<rparr>)"

section \<open>Events\<close>

lemma chan_try_send_fields [simp]:
  "chan_open (snd (chan_try_send room r k)) = chan_open k" "rx_live (snd (chan_try_send room r k)) = rx_live k"
  "sock (snd (chan_try_send room r k)) = sock k" "core_max_message (snd (chan_try_send room r k)) = core_max_message k"
  by (simp_all add: chan_try_send_def)

text \<open>A handler appends the item of its event, or leaves the channel closed.\<close>

definition appends :: "error + message \<Rightarrow> browser_core \<Rightarrow> browser_core \<Rightarrow> bool" where
  "appends r k k' \<longleftrightarrow>
     (chan k' = chan k @ [r] \<and> length (chan k) < 67 \<and> chan_open k \<and> rx_live k
      \<or> chan k' = chan k \<and> \<not> (chan_open k' \<and> rx_live k'))
     \<and> (chan_open k' \<longrightarrow> chan_open k) \<and> rx_live k' = rx_live k \<and> core_max_message k' = core_max_message k
     \<and> onopen (sock k') = onopen (sock k) \<and> onmessage (sock k') = onmessage (sock k)
     \<and> onerror (sock k') = onerror (sock k) \<and> onclose (sock k') = onclose (sock k)
     \<and> (ready (sock k) \<in> {CLOSING, CLOSED} \<longrightarrow> ready (sock k') \<in> {CLOSING, CLOSED})"

lemma core_close_ready:
  "js_close_ok cl \<Longrightarrow> ready (sock (core_close cl k)) \<in> {CLOSING, CLOSED}"
  using ws_close_ready [of cl "sock k"] by (simp add: core_close_def)

lemma core_close_fields [simp]:
  "chan (core_close cl k) = chan k" "chan_open (core_close cl k) = chan_open k" "rx_live (core_close cl k) = rx_live k"
  "core_max_message (core_close cl k) = core_max_message k"
  "onopen (sock (core_close cl k)) = onopen (sock k)" "onmessage (sock (core_close cl k)) = onmessage (sock k)"
  "onerror (sock (core_close cl k)) = onerror (sock k)" "onclose (sock (core_close cl k)) = onclose (sock k)"
  by (simp_all add: core_close_def)

lemma reject_data_appends:
  assumes "js_close_ok cl" "browser_room room"
  shows "appends (Inl (Protocol m)) k (reject_data cl room m k)"
  using assms(2) core_close_ready [OF assms(1), of "close_channel (snd (chan_try_send room (Inl (Protocol m)) k))"]
  by (simp add: appends_def reject_data_def close_channel_def) (auto simp: chan_try_send_def browser_room_def)

lemma deliver_data_appends:
  assumes "js_close_ok cl" "browser_room room"
  shows "appends (Inr m) k (deliver_data cl room m k)"
  using assms(2) core_close_ready [OF assms(1), of "close_channel k"]
  by (auto simp: appends_def deliver_data_def close_channel_def chan_try_send_def browser_room_def)

lemma run_handler_appends:
  assumes "js_close_ok cl" "browser_room room"
  shows "appends (event_item (core_max_message k) ev) k (run_handler cl room ev k)"
proof (cases ev)
  case (EvMessage d)
  then show ?thesis
    using reject_data_appends [OF assms] deliver_data_appends [OF assms] by (cases d) simp_all
qed (use assms(2) in \<open>auto simp: appends_def on_error_def on_close_def close_channel_def chan_try_send_def browser_room_def\<close>)

section \<open>Invariants\<close>

definition order_inv :: "nat \<Rightarrow> browser_run \<Rightarrow> bool" where
  "order_inv n x \<longleftrightarrow> (let k = core_of (owner x); seen = map (event_item n) (arrived x) in
     core_max_message k = n \<and> length (chan k) \<le> 67 \<and> prefix (taken x @ chan k) seen
     \<and> (chan_open k \<and> rx_live k \<longrightarrow> taken x @ chan k = seen))"

fun life_inv :: "browser_owner \<Rightarrow> bool" where
  "life_inv (Whole c) \<longleftrightarrow> bc_ws_refs c = 1 \<and> \<not> onopen (sock (bc_core c))"
| "life_inv (Halves h) \<longleftrightarrow>
     bh_ref_count h = of_bool (bh_sink_alive h) + of_bool (bh_stream_alive h) \<and> \<not> onopen (sock (bh_core h))
     \<and> (bh_sink_closed h \<longrightarrow> ready (sock (bh_core h)) \<in> {CLOSING, CLOSED})
     \<and> (bh_ref_count h = 0 \<longrightarrow> ready (sock (bh_core h)) \<in> {CLOSING, CLOSED})
     \<and> rx_live (bh_core h) = bh_stream_alive h
     \<and> (\<not> bh_stream_alive h \<longrightarrow> \<not> onmessage (sock (bh_core h)) \<and> \<not> onerror (sock (bh_core h)) \<and> \<not> onclose (sock (bh_core h)))"
| "life_inv (Dropped k) \<longleftrightarrow> released (sock k) \<and> \<not> rx_live k"

lemma order_inv_event:
  assumes "order_inv n x" "appends (event_item n ev) (core_of (owner x)) k"
  shows "order_inv n (x\<lparr>owner := set_core k (owner x), arrived := arrived x @ [ev]\<rparr>)"
proof -
  let ?k = "core_of (owner x)" and ?seen = "map (event_item n) (arrived x)"
  have inv: "core_max_message ?k = n" "length (chan ?k) \<le> 67" "prefix (taken x @ chan ?k) ?seen"
    "chan_open ?k \<and> rx_live ?k \<Longrightarrow> taken x @ chan ?k = ?seen"
    using assms(1) by (simp_all add: order_inv_def Let_def)
  consider "chan k = chan ?k @ [event_item n ev]" "length (chan ?k) < 67" "taken x @ chan ?k = ?seen"
    | "chan k = chan ?k" "\<not> (chan_open k \<and> rx_live k)"
    using assms(2) inv(4) unfolding appends_def by blast
  then show ?thesis
  proof cases
    case 1
    then have "taken x @ chan k = ?seen @ [event_item n ev]" by simp
    with 1 inv(1) assms(2) show ?thesis by (simp add: order_inv_def appends_def Let_def)
  next
    case 2
    with inv(1-3) assms(2) show ?thesis by (simp add: order_inv_def appends_def Let_def) blast
  qed
qed

lemma life_inv_event:
  assumes "life_inv y" "appends r (core_of y) k" "handler_set ev (sock (core_of y))"
  shows "life_inv (set_core k y)"
  using assms by (cases y; cases ev) (auto simp: appends_def released_def)

lemma drain_suffix: "\<exists>out. q = out @ snd (drain b q)"
proof (induction q)
  case (Cons r q)
  show ?case
  proof (cases r)
    case (Inl e)
    then have "snd (drain b (r # q)) = q" by (cases e) simp_all
    then show ?thesis by (metis append_Cons append_Nil)
  next
    case (Inr m)
    then show ?thesis using Cons by (metis append_Cons drain.simps(2))
  qed
qed simp

text \<open>The application only shortens the channel at its front.\<close>

definition consumes :: "browser_core \<Rightarrow> browser_core \<Rightarrow> bool" where
  "consumes k k' \<longleftrightarrow> (\<exists>out. chan k = out @ chan k') \<and> chan_open k' = chan_open k \<and> (rx_live k' \<longrightarrow> rx_live k)
     \<and> core_max_message k' = core_max_message k"

lemma consumes_intros:
  "consumes k k" "consumes k (drop_rx k)" "consumes k (core_close cl k)" "consumes k (drop_rx (core_close cl k))"
  "consumes k (k\<lparr>sock := t\<rparr>)" "consumes k (drop_rx (k\<lparr>sock := t\<rparr>))"
  "consumes k (drop_rx (core_close cl (k\<lparr>sock := t\<rparr>)))" "chan_next k = (r, k') \<Longrightarrow> consumes k k'"
  by (auto simp: consumes_def drop_rx_def chan_next_def split: list.splits if_splits)

lemma consumes_trans: "consumes a b \<Longrightarrow> consumes b c \<Longrightarrow> consumes a c"
  by (auto simp: consumes_def)

lemma close_poll_consumes:
  assumes "close_poll c = (r, c')"
  shows "consumes (bc_core c) (bc_core c')"
  using assms drain_suffix [of "chan (bc_core c)" "chan_open (bc_core c)"]
  by (auto simp: close_poll_def consumes_def drop_rx_def split: if_splits prod.splits poll.splits)

lemma browser_close_consumes:
  assumes "browser_close cl c = (r, c')"
  shows "consumes (bc_core c) (bc_core c')"
proof -
  have "consumes (bc_core c) (bc_core c')" if "close_poll (c\<lparr>bc_core := (bc_core c)\<lparr>sock := t\<rparr>\<rparr>) = (r, c')" for t
    using close_poll_consumes [OF that] consumes_trans consumes_intros(5) by fastforce
  then show ?thesis
    using assms close_poll_consumes [of c r c'] consumes_intros(2,5)
    by (auto simp: browser_close_def split: if_splits prod.splits sum.splits)
qed

lemma browser_use_consumes:
  assumes "browser_use cl x y"
  shows "consumes (core_of x) (core_of y)"
  using assms
proof cases
  case (use_recv c r c')
  then show ?thesis
    using consumes_intros(1,8) by (auto simp: browser_recv_def split: if_splits prod.splits poll.splits option.splits)
next
  case (use_close c r c')
  then show ?thesis using browser_close_consumes by simp
next
  case (use_close_poll c r c')
  then show ?thesis using close_poll_consumes by simp
next
  case (use_drop c)
  then show ?thesis
    by (simp add: browser_conn_drop_def consumes_intros)
next
  case (use_split c h)
  then show ?thesis
    by (auto simp: browser_split_def browser_conn_drop_def consumes_intros(1) split: if_splits)
next
  case (use_next h r h')
  then show ?thesis
    using consumes_intros(1,8) by (auto simp: bstream_poll_next_def split: if_splits prod.splits poll.splits option.splits)
next
  case (use_sink_close h r h')
  then show ?thesis by (auto simp: bsink_poll_close_def consumes_intros split: if_splits)
next
  case (use_sink_drop h)
  then show ?thesis by (simp add: bsink_drop_def consumes_intros Let_def)
next
  case (use_stream_drop h)
  then show ?thesis
    by (simp add: bstream_drop_def consumes_intros Let_def)
qed

lemma order_inv_use:
  assumes "order_inv n x" "consumes (core_of (owner x)) (core_of y)" "chan (core_of (owner x)) = out @ chan (core_of y)"
  shows "order_inv n (x\<lparr>owner := y, taken := taken x @ out\<rparr>)"
  using assms by (simp add: order_inv_def consumes_def Let_def)

lemma close_poll_fields:
  assumes "close_poll c = (r, c')"
  shows "bc_ws_refs c' = bc_ws_refs c" "sock (bc_core c') = sock (bc_core c)"
  using assms by (auto simp: close_poll_def drop_rx_def split: if_splits prod.splits poll.splits)

lemma browser_close_fields:
  assumes "browser_close cl c = (r, c')"
  shows "bc_ws_refs c' = bc_ws_refs c" "onopen (sock (bc_core c')) = onopen (sock (bc_core c))"
proof -
  obtain e t where t: "ws_close cl (sock (bc_core c)) = (e, t)" by fastforce
  then have "onopen t = onopen (sock (bc_core c))" using ws_close_simps(1) [of cl "sock (bc_core c)"] by simp
  with t assms show "bc_ws_refs c' = bc_ws_refs c" "onopen (sock (bc_core c')) = onopen (sock (bc_core c))"
    using close_poll_fields [of "c\<lparr>bc_core := (bc_core c)\<lparr>sock := t\<rparr>\<rparr>" r c'] close_poll_fields [of c r c']
    by (auto simp: browser_close_def drop_rx_def split: if_splits sum.splits)
qed

lemma chan_next_fields:
  assumes "chan_next k = (r, k')"
  shows "sock k' = sock k" "rx_live k' = rx_live k"
  using assms by (auto simp: chan_next_def split: list.splits)

lemma browser_recv_fields:
  assumes "browser_recv c = (r, c')"
  shows "bc_ws_refs c' = bc_ws_refs c" "sock (bc_core c') = sock (bc_core c)"
proof -
  obtain p k where k: "chan_next (bc_core c) = (p, k)" by fastforce
  with assms show "bc_ws_refs c' = bc_ws_refs c" "sock (bc_core c') = sock (bc_core c)"
    using chan_next_fields(1) [OF k]
    by (cases p; auto simp: browser_recv_def split: if_splits option.splits)+
qed

lemma bstream_poll_next_fields:
  assumes "bstream_poll_next h = (r, h')"
  obtains k t where "h' = h\<lparr>bh_core := k, bh_terminated := t\<rparr>" "sock k = sock (bh_core h)" "rx_live k = rx_live (bh_core h)"
proof -
  obtain p k where k: "chan_next (bh_core h) = (p, k)" by fastforce
  have "h' = h\<lparr>bh_core := bh_core h, bh_terminated := bh_terminated h\<rparr>
      \<or> (\<exists>t. h' = h\<lparr>bh_core := k, bh_terminated := t\<rparr>)"
    using assms k by (cases p) (auto simp: bstream_poll_next_def split: if_splits option.splits intro: exI [of _ "bh_terminated h"])
  then show ?thesis using that chan_next_fields [OF k] by metis
qed

lemma life_inv_use:
  assumes "js_close_ok cl" "browser_use cl x y" "life_inv x"
  shows "life_inv y"
  using assms(2)
proof cases
  case (use_recv c r c')
  then show ?thesis using assms(3) browser_recv_fields by simp
next
  case (use_close c r c')
  then show ?thesis using assms(3) browser_close_fields by simp
next
  case (use_close_poll c r c')
  then show ?thesis using assms(3) close_poll_fields by simp
next
  case (use_drop c)
  then show ?thesis
    using assms(3) core_close_ready [OF assms(1)] by (simp add: browser_conn_drop_def drop_rx_def released_def unset_all_def)
next
  case (use_split c h)
  then show ?thesis using assms(3) by (auto simp: browser_split_def browser_conn_drop_def split: if_splits)
next
  case (use_next h r h')
  then obtain k t where "h' = h\<lparr>bh_core := k, bh_terminated := t\<rparr>" "sock k = sock (bh_core h)" "rx_live k = rx_live (bh_core h)"
    using bstream_poll_next_fields by blast
  then show ?thesis using assms(3) use_next(1,2) by simp
next
  case (use_sink_close h r h')
  then show ?thesis
    using assms(3) core_close_ready [OF assms(1), of "bh_core h"] by (auto simp: bsink_poll_close_def split: if_splits)
next
  case (use_sink_drop h)
  then show ?thesis
    using assms(3) core_close_ready [OF assms(1), of "bh_core h"] by (auto simp: bsink_drop_def Let_def)
next
  case (use_stream_drop h)
  then show ?thesis
    using assms(3) core_close_ready [OF assms(1), of "(bh_core h)\<lparr>sock := unset_all (sock (bh_core h))\<rparr>"]
    by (cases "bh_sink_alive h") (simp_all add: bstream_drop_def drop_rx_def unset_all_def Let_def)
qed

lemma connect_resume_conn:
  assumes "connect_resume cl protocol c = Ready (Inr k)"
  shows "chan (bc_core k) = []" "core_max_message (bc_core k) = max_message_size (co_limits (cn_opts c))"
    "bc_ws_refs k = 1" "\<not> onopen (sock (bc_core k))"
proof -
  have "open_res c = Some (Inr ())"
    using assms by (cases "open_res c") (auto simp: connect_resume_def split: sum.splits)
  with assms show "chan (bc_core k) = []" "core_max_message (bc_core k) = max_message_size (co_limits (cn_opts c))"
    "bc_ws_refs k = 1" "\<not> onopen (sock (bc_core k))"
    by (auto simp: connect_resume_def unset_wait_def)
qed

lemma run_init_inv:
  assumes "browser_run_init cl opts x"
  shows "order_inv (max_message_size (co_limits opts)) x \<and> life_inv (owner x)"
proof -
  obtain evs protocol c where c: "connect_resume cl protocol (fold connect_on evs (connect_socket opts CONNECTING)) = Ready (Inr c)"
      "x = \<lparr>owner = Whole c, arrived = [], taken = []\<rparr>"
    using assms unfolding browser_run_init_def by blast
  have "cn_opts (connect_socket opts CONNECTING) = opts" by (simp add: connect_socket_def)
  with c(2) connect_resume_conn [OF c(1)] show ?thesis by (simp add: connect_fold_opts order_inv_def Let_def)
qed

lemma run_step_inv:
  assumes "js_close_ok cl" "browser_run_step cl x y" "order_inv n x" "life_inv (owner x)"
  shows "order_inv n y \<and> life_inv (owner y)"
  using assms(2)
proof cases
  case (run_event ev room)
  have "core_max_message (core_of (owner x)) = n" using assms(3) by (simp add: order_inv_def Let_def)
  then have "appends (event_item n ev) (core_of (owner x)) (run_handler cl room ev (core_of (owner x)))"
    using run_handler_appends [OF assms(1) run_event(3), of "core_of (owner x)" ev] by simp
  then show ?thesis
    using run_event(1,2) order_inv_event [OF assms(3)] life_inv_event [OF assms(4)] by simp
next
  case (run_ready r)
  have "order_inv n y" using run_ready assms(3) by (simp add: order_inv_def Let_def)
  moreover have "life_inv (owner y)" using run_ready assms(4) by (cases "owner x") (simp_all add: released_def)
  ultimately show ?thesis ..
next
  case (run_use z out)
  then show ?thesis
    using order_inv_use [OF assms(3) browser_use_consumes] life_inv_use [OF assms(1) _ assms(4)] by simp
qed

definition browser_inv :: "js_close \<Rightarrow> connect_options \<Rightarrow> browser_run \<Rightarrow> bool" where
  "browser_inv cl opts x \<longleftrightarrow>
     (js_close_ok cl \<longrightarrow> order_inv (max_message_size (co_limits opts)) x \<and> life_inv (owner x))"

interpretation browser_runs: invariant_system "browser_run_init cl opts" "browser_run_step cl" "browser_inv cl opts"
  for cl opts
proof
  show "browser_run_init cl opts x \<Longrightarrow> browser_inv cl opts x" for x
    using run_init_inv by (simp add: browser_inv_def)
  show "browser_inv cl opts x \<Longrightarrow> browser_run_step cl x y \<Longrightarrow> browser_inv cl opts y" for x y
    using run_step_inv by (auto simp: browser_inv_def)
qed


text \<open>
  C32: nobody leaks the socket. In every reachable state, a connection that was dropped whole, and one
  whose two halves were dropped in either order, has closed its socket, detached every handler and
  dropped its receiver; a half that is still there keeps the other's drop from closing the socket.
\<close>

theorem browser_socket_released:
  assumes "js_close_ok cl" "reachable (browser_run_init cl opts) (browser_run_step cl) x"
  shows "case owner x of
      Whole c \<Rightarrow> True
    | Halves h \<Rightarrow>
        (\<not> bh_sink_alive h \<and> \<not> bh_stream_alive h \<longrightarrow> released (sock (bh_core h)) \<and> \<not> rx_live (bh_core h))
        \<and> (bh_sink_alive h \<and> bh_stream_alive h \<longrightarrow>
             ready (sock (bh_core (bstream_drop cl h))) = ready (sock (bh_core h))
             \<and> sock (bh_core (bsink_drop cl h)) = sock (bh_core h))
    | Dropped k \<Rightarrow> released (sock k) \<and> \<not> rx_live k"
proof -
  have "life_inv (owner x)" using browser_runs.reachable_inv [OF assms(2)] assms(1) by (simp add: browser_inv_def)
  then show ?thesis
    by (cases "owner x") (simp_all add: released_def bstream_drop_def bsink_drop_def drop_rx_def unset_all_def Let_def)
qed

section \<open>Closing\<close>

lemma drain_closed:
  "\<exists>r q'. drain False q = (Ready r, q') \<and> (r = Inr () \<or> (\<exists>e. r = Inl e \<and> Inl e \<in> set q \<and> e \<noteq> Closed))"
proof (induction q)
  case (Cons x q)
  show ?case
  proof (cases x)
    case (Inl e)
    then show ?thesis by (cases e) simp_all
  next
    case (Inr m)
    then show ?thesis using Cons by auto
  qed
qed simp

text \<open>
  \<open>close\<close> on a connection that still has its receiver returns once the browser has raised its close
  event, whatever is queued: with success, or with an error that the channel already held. It takes the
  receiver, and the close frame is the one of the event.
\<close>

lemma browser_close_completes:
  assumes "rx_live (bc_core c)"
  shows "\<exists>r c'. close_poll (c\<lparr>bc_core := run_handler cl room (EvClose code reason) (bc_core c)\<rparr>) = (Ready r, c')
    \<and> (r = Inr () \<or> (\<exists>e. r = Inl e \<and> e \<noteq> Closed \<and> Inl e \<in> set (chan (bc_core c)))) \<and> \<not> rx_live (bc_core c')
    \<and> core_close_frame (bc_core c') = Some \<lparr>cf_code = code, cf_reason = reason\<rparr>"
proof -
  let ?k = "run_handler cl room (EvClose code reason) (bc_core c)"
  have k: "\<not> chan_open ?k" "rx_live ?k" "core_close_frame ?k = Some \<lparr>cf_code = code, cf_reason = reason\<rparr>"
    "set (chan ?k) \<subseteq> insert (Inl Closed) (set (chan (bc_core c)))"
    using assms by (auto simp: on_close_def close_channel_def chan_try_send_def)
  obtain r q where "drain False (chan ?k) = (Ready r, q)"
      "r = Inr () \<or> (\<exists>e. r = Inl e \<and> Inl e \<in> set (chan ?k) \<and> e \<noteq> Closed)"
    using drain_closed [of "chan ?k"] by blast
  with k show ?thesis by (auto simp: close_poll_def drop_rx_def)
qed

section \<open>A concrete run\<close>

definition demo_conn :: browser_conn where
  "demo_conn = \<lparr>bc_core = \<lparr>sock = \<lparr>ready = OPEN, onopen = False, onmessage = True, onerror = True, onclose = True\<rparr>,
     chan = [], chan_open = True, rx_live = True, core_close_frame = None,
     core_max_message = max_message_size websocket_limits_default\<rparr>,
     bc_max_write = max_write_buffer_size websocket_limits_default, bc_protocol = [], bc_ws_refs = 1\<rparr>"

definition demo_room :: "nat \<Rightarrow> bool" where
  "demo_room n \<longleftrightarrow> n < 65"

lemma demo_room_ok: "browser_room demo_room"
  by (simp add: browser_room_def demo_room_def)

lemma demo_run_start: "reachable (browser_run_init demo_close connect_options_default) (browser_run_step demo_close)
    \<lparr>owner = Whole demo_conn, arrived = [], taken = []\<rparr>"
proof (rule reachable.intros(1))
  have "connect_resume demo_close [] (fold connect_on [(WaitOpen, OPEN)] (connect_socket connect_options_default CONNECTING))
      = Ready (Inr demo_conn)"
    by (simp add: connect_resume_def connect_on_def connect_socket_def resolve_def unset_wait_def demo_conn_def connect_options_default_def)
  then show "browser_run_init demo_close connect_options_default \<lparr>owner = Whole demo_conn, arrived = [], taken = []\<rparr>"
    unfolding browser_run_init_def by blast
qed


theorem browser_socket_released_witness:
  "\<exists>x k. reachable (browser_run_init demo_close connect_options_default) (browser_run_step demo_close) x
     \<and> owner x = Dropped k \<and> released (sock k) \<and> \<not> rx_live k"
proof -
  let ?k = "browser_conn_drop demo_close demo_conn"
  let ?y = "\<lparr>owner = Dropped ?k, arrived = [], taken = []\<rparr>"
  have "chan (bc_core demo_conn) = [] @ chan ?k" by (simp add: browser_conn_drop_def drop_rx_def demo_conn_def)
  then have "browser_run_step demo_close \<lparr>owner = Whole demo_conn, arrived = [], taken = []\<rparr> ?y"
    using run_use [of demo_close "\<lparr>owner = Whole demo_conn, arrived = [], taken = []\<rparr>" "Dropped ?k" "[]"]
      use_drop [of demo_close demo_conn] by simp
  then have y: "reachable (browser_run_init demo_close connect_options_default) (browser_run_step demo_close) ?y"
    by (rule reachable.intros(2) [OF demo_run_start])
  then show ?thesis using browser_socket_released [OF demo_close_ok y] by (intro exI [of _ ?y] exI [of _ ?k]) simp
qed

end
