(* ===== verification/Browser_Endpoints.thy ===== *)
theory Browser_Endpoints
  imports Mux_Endpoints Browser_Split Wasm_Task
begin

text \<open>
  The browser endpoints: the builders of plain clients (\<open>websock-wasm/src/builder.rs\<close>), and the builder
  and client of multiplexing sessions (\<open>websock-wasm-mux/src/builder.rs\<close>, \<open>client.rs\<close>).
\<close>

section \<open>Plain clients\<close>

text \<open>Builder, client and \<open>dangerous\<close> builder all consist of the options.\<close>

definition browser_builder_new :: connect_options where
  "browser_builder_new = connect_options_default"

definition browser_with_options :: "connect_options \<Rightarrow> connect_options \<Rightarrow> connect_options" where
  "browser_with_options opts b = opts"

definition browser_with_header :: "string \<Rightarrow> string \<Rightarrow> connect_options \<Rightarrow> connect_options" where
  "browser_with_header n v b = b\<lparr>co_headers := co_headers b @ [(n, v)]\<rparr>"

definition browser_with_headers :: "(string \<times> string) list \<Rightarrow> connect_options \<Rightarrow> connect_options" where
  "browser_with_headers hs b = fold (\<lambda>(k, v). browser_with_header k v) hs b"

definition browser_with_limits :: "websocket_limits \<Rightarrow> connect_options \<Rightarrow> connect_options" where
  "browser_with_limits l b = b\<lparr>co_limits := l\<rparr>"

definition browser_with_protocol :: "string \<Rightarrow> connect_options \<Rightarrow> connect_options" where
  "browser_with_protocol p b = b\<lparr>co_protocols := co_protocols b @ [p]\<rparr>"

definition browser_with_protocols :: "string list \<Rightarrow> connect_options \<Rightarrow> connect_options" where
  "browser_with_protocols ps b = fold browser_with_protocol ps b"

definition browser_build :: "connect_options \<Rightarrow> connect_options" where
  "browser_build b = b"

definition browser_with_system_roots :: "connect_options \<Rightarrow> error + connect_options" where
  "browser_with_system_roots b = Inr (browser_build b)"

definition browser_with_server_certificates :: "bytes list \<Rightarrow> connect_options \<Rightarrow> error + connect_options" where
  "browser_with_server_certificates chain b = Inl (Unsupported ''custom certificates are not supported in browser wasm'')"

definition browser_dangerous :: "connect_options \<Rightarrow> connect_options" where
  "browser_dangerous b = b"

definition browser_no_certificate_verification :: "connect_options \<Rightarrow> error + connect_options" where
  "browser_no_certificate_verification b =
     Inl (Unsupported ''certificate verification cannot be disabled in browser wasm'')"

definition browser_client_connect ::
  "(string \<Rightarrow> string list \<Rightarrow> string + ready_state) \<Rightarrow> connect_options \<Rightarrow> string \<Rightarrow> error + connecting" where
  "browser_client_connect new_socket c url = browser_connect new_socket url c"

section \<open>Multiplexing clients\<close>

record browser_mux =
  bm_opts :: connect_options
  bm_limits :: limits

definition browser_mux_new :: browser_mux where
  "browser_mux_new =
     \<lparr>bm_opts = connect_options_default\<lparr>co_protocols := co_protocols connect_options_default @ [SUBPROTOCOL]\<rparr>,
      bm_limits = wasm_limits_default\<rparr>"

definition browser_mux_with_options :: "connect_options \<Rightarrow> browser_mux \<Rightarrow> browser_mux" where
  "browser_mux_with_options opts b =
     b\<lparr>bm_opts := (if SUBPROTOCOL \<in> set (co_protocols opts) then opts
                   else opts\<lparr>co_protocols := co_protocols opts @ [SUBPROTOCOL]\<rparr>)\<rparr>"

definition browser_mux_with_header :: "string \<Rightarrow> string \<Rightarrow> browser_mux \<Rightarrow> browser_mux" where
  "browser_mux_with_header n v b = b\<lparr>bm_opts := (bm_opts b)\<lparr>co_headers := co_headers (bm_opts b) @ [(n, v)]\<rparr>\<rparr>"

definition browser_mux_with_headers :: "(string \<times> string) list \<Rightarrow> browser_mux \<Rightarrow> browser_mux" where
  "browser_mux_with_headers hs b = fold (\<lambda>(k, v). browser_mux_with_header k v) hs b"

definition browser_mux_limits :: "limits \<Rightarrow> browser_mux \<Rightarrow> browser_mux" where
  "browser_mux_limits l b = b\<lparr>bm_limits := l\<rparr>"

definition browser_mux_build :: "browser_mux \<Rightarrow> browser_mux" where
  "browser_mux_build b = b"

definition browser_mux_with_system_roots :: "browser_mux \<Rightarrow> error + browser_mux" where
  "browser_mux_with_system_roots b = Inr (browser_mux_build b)"

text \<open>\<open>Client::connect\<close> up to its wait for the socket, and after it.\<close>

definition browser_mux_connect ::
  "(string \<Rightarrow> string list \<Rightarrow> string + ready_state) \<Rightarrow> browser_mux \<Rightarrow> string \<Rightarrow> error + connecting" where
  "browser_mux_connect new_socket c url =
     try_bind (wasm_limits_validate 32 (bm_limits c)) (\<lambda>_. browser_connect new_socket url (bm_opts c))"

definition browser_mux_resume :: "js_close \<Rightarrow> string \<Rightarrow> browser_mux \<Rightarrow> connecting \<Rightarrow> (error + session) poll" where
  "browser_mux_resume cl protocol c a = (case connect_resume cl protocol a of
     Pending \<Rightarrow> Pending
   | Ready (Inl (e, _)) \<Rightarrow> Ready (Inl e)
   | Ready (Inr conn) \<Rightarrow> Ready (wasm_session_new (bm_limits c)))"

section \<open>What a browser client is offered\<close>

text \<open>The Fetch standard separates the protocols of a request by a comma and a space.\<close>

lemma trim_space: "trim (CHR '' '' # p) = trim p"
  by (simp add: trim_def is_whitespace_def)

lemma split_join_spaced:
  assumes "list_all clean_name ps" "ps \<noteq> []"
  shows "map trim (split_on CHR '','' (join_with '', '' ps)) = ps"
  using assms
proof (induction "'', ''" ps rule: join_with.induct)
  case (2 p)
  then show ?case by (simp add: clean_name_def split_on_fresh)
next
  case (3 p q ps)
  then have "map trim (split_on CHR '','' (join_with '', '' (q # ps))) = q # ps" by simp
  moreover have "map trim (split_on CHR '','' (CHR '' '' # r)) = map trim (split_on CHR '','' r)" for r
    using split_on_not_Nil [of "CHR '',''" r] by (auto simp: trim_space split: list.splits)
  moreover have "split_on CHR '','' (p @ CHR '','' # CHR '' '' # r) = p # split_on CHR '','' (CHR '' '' # r)" for r
    using 3(2) split_on_append [of "CHR '',''" p "CHR '' '' # r"] by (simp add: clean_name_def)
  ultimately show ?case using 3(2) by (simp add: clean_name_def)
qed simp


definition demo_browser_opts :: connect_options where
  "demo_browser_opts = connect_options_default\<lparr>co_protocols := [''json'']\<rparr>"


text \<open>The client itself does not look at the protocol that was negotiated.\<close>

lemma browser_mux_any_protocol: "browser_mux_resume cl protocol c a = browser_mux_resume cl protocol' c a"
  by (auto simp: browser_mux_resume_def connect_resume_def split: option.splits sum.splits)

text \<open>A send is accepted exactly within the write buffer limit, as long as that limit is not the largest \<open>usize\<close>.\<close>

lemma send_capacity:
  assumes "max_write < 2 ^ 32 - 1"
  shows "check_send_capacity buffered n max_write = Inr () \<longleftrightarrow> unat buffered + n \<le> max_write"
  using assms by (auto simp: check_send_capacity_def usize_saturating_add_def)

end
