(* ===== verification/Plain_Split.thy ===== *)
theory Plain_Split
  imports Plain_Connection
begin

text \<open>
  A plain native connection split into a sink and a stream half (\<open>websock-tungstenite/src/stream.rs\<close>):
  a writer task that executes commands, a reader task that turns items of the WebSocket stream into
  results for the application and commands for the writer, and the two halves. The channels between them
  are tokio channels of 64 elements; a task that finds its channel full is suspended at the send.
\<close>

datatype writer_cmd = CmdMsg message | CmdPong bytes | CmdClose

text \<open>Where the reader task is: at its loop, at one of its sends with what follows it, or gone.\<close>

datatype reader_next = ReadOn | ReadStop | ReadClose

datatype reader_task = RdLoop | RdMsg "error + message" reader_next | RdCmd writer_cmd reader_next | RdDone

record split =
  rd_items :: "(tungstenite_error + ws_message) list"
  rd_task :: reader_task
  msgs :: "(error + message) list"
  stream_alive :: bool
  terminated :: bool
  cmds :: "writer_cmd list"
  writer_alive :: bool
  sink_alive :: bool
  sink_closed :: bool
  wr_ops :: "sink_op list"

definition split_new :: "(tungstenite_error + ws_message) list \<Rightarrow> split" where
  "split_new xs =
     \<lparr>rd_items = xs, rd_task = RdLoop, msgs = [], stream_alive = True, terminated = False, cmds = [],
      writer_alive = True, sink_alive = True, sink_closed = False, wr_ops = []\<rparr>"

definition cmds_full :: "split \<Rightarrow> bool" where
  "cmds_full s \<longleftrightarrow> 64 \<le> length (cmds s)"

definition msgs_full :: "split \<Rightarrow> bool" where
  "msgs_full s \<longleftrightarrow> 64 \<le> length (msgs s)"

section \<open>The tasks\<close>

text \<open>One item of the WebSocket stream.\<close>

fun reader_item :: "(tungstenite_error + ws_message) option \<Rightarrow> reader_task" where
  "reader_item None = RdDone"
| "reader_item (Some (Inl e)) = RdMsg (Inl (map_tungstenite_err e)) ReadStop"
| "reader_item (Some (Inr (WsPing p))) = RdCmd (CmdPong p) ReadOn"
| "reader_item (Some (Inr (WsPong p))) = RdLoop"
| "reader_item (Some (Inr (WsText t))) = RdMsg (Inr (Text t)) ReadOn"
| "reader_item (Some (Inr (WsBinary b))) = RdMsg (Inr (Binary b)) ReadOn"
| "reader_item (Some (Inr (WsClose f))) = RdMsg (Inl Closed) ReadClose"
| "reader_item (Some (Inr (WsRawFrame b))) = RdMsg (Inl (Protocol ''unsupported ws message'')) ReadClose"

text \<open>After a send to the application: a failed send of a message ends the loop, of an error is ignored.\<close>

fun after_msg :: "bool \<Rightarrow> reader_next \<Rightarrow> reader_task" where
  "after_msg ok ReadOn = (if ok then RdLoop else RdDone)"
| "after_msg ok ReadStop = RdDone"
| "after_msg ok ReadClose = RdCmd CmdClose ReadStop"

fun after_cmd :: "reader_next \<Rightarrow> reader_task" where
  "after_cmd ReadOn = RdLoop"
| "after_cmd _ = RdDone"

text \<open>One step of the reader; \<open>None\<close> while it is suspended at a full channel or has ended.\<close>

definition reader_turn :: "split \<Rightarrow> split option" where
  "reader_turn s = (case rd_task s of
     RdLoop \<Rightarrow> Some (case rd_items s of
       [] \<Rightarrow> s\<lparr>rd_task := reader_item None\<rparr>
     | x # xs \<Rightarrow> s\<lparr>rd_items := xs, rd_task := reader_item (Some x)\<rparr>)
   | RdMsg m k \<Rightarrow>
       (if \<not> stream_alive s then Some (s\<lparr>rd_task := after_msg False k\<rparr>)
        else if msgs_full s then None
        else Some (s\<lparr>msgs := msgs s @ [m], rd_task := after_msg True k\<rparr>))
   | RdCmd c k \<Rightarrow>
       (if \<not> writer_alive s then Some (s\<lparr>rd_task := after_cmd k\<rparr>)
        else if cmds_full s then None
        else Some (s\<lparr>cmds := cmds s @ [c], rd_task := after_cmd k\<rparr>))
   | RdDone \<Rightarrow> None)"

text \<open>
  One command of the writer; \<open>ok\<close> is the outcome of the sink operation. A writer that ends drops its
  channel. It also ends when no sender is left.
\<close>

definition writer_turn :: "bool \<Rightarrow> split \<Rightarrow> split option" where
  "writer_turn ok s =
     (if \<not> writer_alive s then None
      else case cmds s of
        [] \<Rightarrow> if sink_alive s \<or> rd_task s \<noteq> RdDone then None else Some (s\<lparr>writer_alive := False\<rparr>)
      | c # q \<Rightarrow>
          (let op = (case c of CmdMsg m \<Rightarrow> SinkSend (to_ws m) | CmdPong p \<Rightarrow> SinkSend (WsPong p) | CmdClose \<Rightarrow> SinkClose);
               s1 = s\<lparr>cmds := q, wr_ops := (if ok then wr_ops s @ [op] else wr_ops s)\<rparr>;
               stop = (case c of CmdMsg _ \<Rightarrow> \<not> ok | CmdPong _ \<Rightarrow> False | CmdClose \<Rightarrow> True)
           in Some (if stop then s1\<lparr>cmds := [], writer_alive := False\<rparr> else s1)))"

section \<open>The halves\<close>

definition sink_poll_ready :: "split \<Rightarrow> (error + unit) poll" where
  "sink_poll_ready s =
     (if sink_closed s then Ready (Inl Closed)
      else if \<not> writer_alive s then Ready (Inl Closed)
      else if cmds_full s then Pending else Ready (Inr ()))"

text \<open>\<open>start_send\<close> after \<open>poll_ready\<close> has reserved a slot.\<close>

definition sink_start_send :: "message \<Rightarrow> split \<Rightarrow> (error + unit) \<times> split" where
  "sink_start_send m s =
     (if sink_closed s \<or> \<not> writer_alive s then (Inl Closed, s) else (Inr (), s\<lparr>cmds := cmds s @ [CmdMsg m]\<rparr>))"

text \<open>Flushing a \<open>PollSender\<close> has nothing to do.\<close>

definition sink_poll_flush :: "split \<Rightarrow> (error + unit) poll" where
  "sink_poll_flush s = Ready (Inr ())"

definition sink_poll_close :: "split \<Rightarrow> (error + unit) poll \<times> split" where
  "sink_poll_close s =
     (if sink_closed s then (sink_poll_flush s, s)
      else if \<not> writer_alive s then (Ready (Inl Closed), s\<lparr>sink_closed := True\<rparr>)
      else if cmds_full s then (Pending, s)
      else (Ready (Inr ()), s\<lparr>cmds := cmds s @ [CmdClose], sink_closed := True\<rparr>))"

definition sink_drop :: "split \<Rightarrow> split" where
  "sink_drop s =
     (if sink_closed s then s\<lparr>sink_alive := False\<rparr>
      else s\<lparr>cmds := (if \<not> writer_alive s \<or> cmds_full s then cmds s else cmds s @ [CmdClose]),
             sink_closed := True, sink_alive := False\<rparr>)"

definition stream_poll_next :: "split \<Rightarrow> (error + message) option poll \<times> split" where
  "stream_poll_next s =
     (if terminated s then (Ready None, s)
      else case msgs s of
        m # q \<Rightarrow> (Ready (Some m), s\<lparr>msgs := q\<rparr>)
      | [] \<Rightarrow> (if rd_task s = RdDone then (Ready None, s\<lparr>terminated := True\<rparr>) else (Pending, s)))"

definition stream_drop :: "split \<Rightarrow> split" where
  "stream_drop s = s\<lparr>msgs := [], stream_alive := False\<rparr>"

section \<open>Runs\<close>

text \<open>
  The tasks and the application in any order; \<open>got\<close> collects what the application read and \<open>put\<close> what it
  handed to the sink. The application sends only after \<open>poll_ready\<close>, and drops each half once.
\<close>

record split_run =
  halves :: split
  got :: "(error + message) list"
  put :: "message list"

inductive split_step :: "split_run \<Rightarrow> split_run \<Rightarrow> bool" where
  run_reader: "reader_turn (halves x) = Some s \<Longrightarrow> split_step x (x\<lparr>halves := s\<rparr>)"
| run_writer: "writer_turn ok (halves x) = Some s \<Longrightarrow> split_step x (x\<lparr>halves := s\<rparr>)"
| run_send: "sink_alive (halves x) \<Longrightarrow> sink_poll_ready (halves x) = Ready (Inr ())
    \<Longrightarrow> sink_start_send m (halves x) = (Inr (), s) \<Longrightarrow> split_step x (x\<lparr>halves := s, put := put x @ [m]\<rparr>)"
| run_close: "sink_alive (halves x) \<Longrightarrow> sink_poll_close (halves x) = (r, s) \<Longrightarrow> split_step x (x\<lparr>halves := s\<rparr>)"
| run_sink_drop: "sink_alive (halves x) \<Longrightarrow> split_step x (x\<lparr>halves := sink_drop (halves x)\<rparr>)"
| run_read: "stream_alive (halves x) \<Longrightarrow> stream_poll_next (halves x) = (Ready (Some m), s)
    \<Longrightarrow> split_step x (x\<lparr>halves := s, got := got x @ [m]\<rparr>)"
| run_read_end: "stream_alive (halves x) \<Longrightarrow> stream_poll_next (halves x) = (Ready None, s)
    \<Longrightarrow> split_step x (x\<lparr>halves := s\<rparr>)"
| run_stream_drop: "stream_alive (halves x) \<Longrightarrow> split_step x (x\<lparr>halves := stream_drop (halves x)\<rparr>)"

definition split_init :: "(tungstenite_error + ws_message) list \<Rightarrow> split_run \<Rightarrow> bool" where
  "split_init xs x \<longleftrightarrow> x = \<lparr>halves = split_new xs, got = [], put = []\<rparr>"

section \<open>Order\<close>

text \<open>What the reader hands to the application for a sequence of items.\<close>

fun reader_out :: "(tungstenite_error + ws_message) list \<Rightarrow> (error + message) list" where
  "reader_out [] = []"
| "reader_out (Inl e # r) = [Inl (map_tungstenite_err e)]"
| "reader_out (Inr (WsText t) # r) = Inr (Text t) # reader_out r"
| "reader_out (Inr (WsBinary b) # r) = Inr (Binary b) # reader_out r"
| "reader_out (Inr (WsPing p) # r) = reader_out r"
| "reader_out (Inr (WsPong p) # r) = reader_out r"
| "reader_out (Inr (WsClose f) # r) = [Inl Closed]"
| "reader_out (Inr (WsRawFrame b) # r) = [Inl (Protocol ''unsupported ws message'')]"

definition reader_rest :: "split \<Rightarrow> (error + message) list" where
  "reader_rest s = (case rd_task s of
     RdLoop \<Rightarrow> reader_out (rd_items s)
   | RdMsg m k \<Rightarrow> m # (if k = ReadOn then reader_out (rd_items s) else [])
   | RdCmd c k \<Rightarrow> (if k = ReadOn then reader_out (rd_items s) else [])
   | RdDone \<Rightarrow> [])"

text \<open>The data among commands and sink operations.\<close>

fun is_data :: "ws_message \<Rightarrow> bool" where
  "is_data (WsText t) = True"
| "is_data (WsBinary b) = True"
| "is_data _ = False"

definition op_data :: "sink_op list \<Rightarrow> ws_message list" where
  "op_data ops = concat (map (\<lambda>a. case a of SinkSend m \<Rightarrow> if is_data m then [m] else [] | _ \<Rightarrow> []) ops)"

definition cmd_data :: "writer_cmd list \<Rightarrow> ws_message list" where
  "cmd_data cs = concat (map (\<lambda>c. case c of CmdMsg m \<Rightarrow> [to_ws m] | _ \<Rightarrow> []) cs)"

lemma is_data_to_ws [simp]: "is_data (to_ws m)"
  by (cases m) auto

lemma data_simps [simp]:
  "op_data [] = []" "op_data (a @ b) = op_data a @ op_data b" "op_data [SinkSend (to_ws m)] = [to_ws m]"
  "op_data [SinkSend (WsPong p)] = []" "op_data [SinkClose] = []"
  "cmd_data [] = []" "cmd_data (c @ d) = cmd_data c @ cmd_data d" "cmd_data (CmdMsg m # c) = to_ws m # cmd_data c"
  "cmd_data (CmdPong p # c) = cmd_data c" "cmd_data (CmdClose # c) = cmd_data c"
  by (simp_all add: op_data_def cmd_data_def)

definition reads_inv :: "(tungstenite_error + ws_message) list \<Rightarrow> split_run \<Rightarrow> bool" where
  "reads_inv xs x \<longleftrightarrow> (let s = halves x in
     length (msgs s) \<le> 64
     \<and> (if stream_alive s then got x @ msgs s @ reader_rest s = reader_out xs else prefix (got x) (reader_out xs))
     \<and> (terminated s \<longrightarrow> stream_alive s \<longrightarrow> msgs s = [] \<and> rd_task s = RdDone))"

definition writes_inv :: "split_run \<Rightarrow> bool" where
  "writes_inv x \<longleftrightarrow> (let s = halves x in
     length (cmds s) \<le> 64
     \<and> (if writer_alive s then op_data (wr_ops s) @ cmd_data (cmds s) = map to_ws (put x)
        else prefix (op_data (wr_ops s)) (map to_ws (put x)))
     \<and> (\<not> writer_alive s \<longrightarrow> cmds s = []) \<and> (\<forall>m k. rd_task s \<noteq> RdCmd (CmdMsg m) k))"

lemma reader_item_rest: "reader_rest (s\<lparr>rd_items := xs, rd_task := reader_item (Some x)\<rparr>) = reader_out (x # xs)"
proof (cases x)
  case (Inr w)
  then show ?thesis by (cases w) (simp_all add: reader_rest_def)
qed (simp add: reader_rest_def)

lemma reads_inv_reader:
  assumes "reads_inv xs x" "reader_turn (halves x) = Some s"
  shows "reads_inv xs (x\<lparr>halves := s\<rparr>)"
proof (cases "rd_task (halves x)")
  case RdLoop
  show ?thesis
  proof (cases "rd_items (halves x)")
    case (Cons y ys)
    then have "s = (halves x)\<lparr>rd_items := ys, rd_task := reader_item (Some y)\<rparr>"
      using assms(2) RdLoop by (simp add: reader_turn_def)
    then show ?thesis
      using assms(1) RdLoop Cons reader_item_rest [where s = "halves x" and xs = ys and x = y]
      by (auto simp: reads_inv_def Let_def reader_rest_def [of "halves x"])
  qed (use assms RdLoop in \<open>auto simp: reads_inv_def reader_turn_def reader_rest_def Let_def\<close>)
next
  case (RdMsg m k)
  then show ?thesis
    using assms by (cases k) (auto simp: reads_inv_def reader_turn_def reader_rest_def msgs_full_def Let_def split: if_splits)
next
  case (RdCmd c k)
  then show ?thesis
    using assms by (cases k) (auto simp: reads_inv_def reader_turn_def reader_rest_def Let_def split: if_splits)
qed (use assms in \<open>simp add: reader_turn_def\<close>)

lemma reader_rest_cong:
  "rd_items s = rd_items t \<Longrightarrow> rd_task s = rd_task t \<Longrightarrow> reader_rest s = reader_rest t"
  by (cases "rd_task t") (simp_all add: reader_rest_def)

lemma reads_inv_cong:
  assumes "reads_inv xs x" "msgs s = msgs (halves x)" "rd_items s = rd_items (halves x)" "rd_task s = rd_task (halves x)"
    "stream_alive s = stream_alive (halves x)" "terminated s = terminated (halves x)"
  shows "reads_inv xs (x\<lparr>halves := s\<rparr>)" "reads_inv xs (x\<lparr>halves := s, put := p\<rparr>)"
  using assms reader_rest_cong [OF assms(3,4)] by (simp_all add: reads_inv_def Let_def)

lemma writes_inv_cong:
  assumes "writes_inv x" "cmds s = cmds (halves x)" "writer_alive s = writer_alive (halves x)" "wr_ops s = wr_ops (halves x)"
    "\<And>m k. rd_task s \<noteq> RdCmd (CmdMsg m) k"
  shows "writes_inv (x\<lparr>halves := s\<rparr>)" "writes_inv (x\<lparr>halves := s, got := g\<rparr>)"
  using assms by (simp_all add: writes_inv_def Let_def)

lemma reader_item_cmd: "reader_item y \<noteq> RdCmd (CmdMsg m) k" "after_msg ok j \<noteq> RdCmd (CmdMsg m) k"
    "after_cmd j \<noteq> RdCmd (CmdMsg m) k"
  by (cases y rule: reader_item.cases; simp) (cases j; simp)+

lemma writes_inv_reader:
  assumes "writes_inv x" "reader_turn (halves x) = Some s"
  shows "writes_inv (x\<lparr>halves := s\<rparr>)"
proof (cases "rd_task (halves x)")
  case RdLoop
  with assms(2) show ?thesis
    by (intro writes_inv_cong(1) [OF assms(1)]) (auto simp: reader_turn_def reader_item_cmd split: list.splits)
next
  case (RdMsg m k)
  with assms(2) show ?thesis
    by (intro writes_inv_cong(1) [OF assms(1)]) (auto simp: reader_turn_def reader_item_cmd split: if_splits)
next
  case (RdCmd c k)
  then have "c \<noteq> CmdMsg m" for m using assms(1) by (auto simp: writes_inv_def Let_def)
  then show ?thesis
    using assms RdCmd
    by (cases c) (auto simp: writes_inv_def reader_turn_def cmds_full_def reader_item_cmd Let_def split: if_splits)
qed (use assms in \<open>simp add: reader_turn_def\<close>)

lemma writes_inv_writer:
  assumes "writes_inv x" "writer_turn ok (halves x) = Some s"
  shows "writes_inv (x\<lparr>halves := s\<rparr>)"
proof (cases "cmds (halves x)")
  case (Cons c q)
  then have "writer_alive (halves x)" using assms(2) by (simp add: writer_turn_def split: if_splits)
  then have w: "op_data (wr_ops (halves x)) @ cmd_data (c # q) = map to_ws (put x)" "length (c # q) \<le> 64"
    "\<And>m k. rd_task (halves x) \<noteq> RdCmd (CmdMsg m) k"
    using assms(1) Cons by (auto simp: writes_inv_def Let_def)
  from w(1) have "prefix (op_data (wr_ops (halves x))) (map to_ws (put x))" by (metis prefixI)
  with w show ?thesis
    using assms(2) Cons \<open>writer_alive (halves x)\<close>
    by (cases c) (auto simp: writer_turn_def writes_inv_def Let_def split: if_splits)
qed (use assms in \<open>auto simp: writer_turn_def writes_inv_def Let_def split: if_splits\<close>)

lemma reads_inv_writer:
  assumes "reads_inv xs x" "writer_turn ok (halves x) = Some s"
  shows "reads_inv xs (x\<lparr>halves := s\<rparr>)"
  using assms by (intro reads_inv_cong) (auto simp: writer_turn_def Let_def split: if_splits list.splits)

lemma split_inv_step:
  assumes "split_step x y" "reads_inv xs x" "writes_inv x"
  shows "reads_inv xs y \<and> writes_inv y"
  using assms(1)
proof cases
  case (run_reader s)
  then show ?thesis using reads_inv_reader [OF assms(2)] writes_inv_reader [OF assms(3)] by simp
next
  case (run_writer ok s)
  then show ?thesis using reads_inv_writer [OF assms(2)] writes_inv_writer [OF assms(3)] by simp
next
  case (run_send m s)
  then have "\<not> cmds_full (halves x)" "writer_alive (halves x)" "s = (halves x)\<lparr>cmds := cmds (halves x) @ [CmdMsg m]\<rparr>"
    by (auto simp: sink_start_send_def sink_poll_ready_def split: if_splits)
  then show ?thesis
    using run_send(1) assms(2,3) reads_inv_cong(2) [OF assms(2), of s]
    by (auto simp: writes_inv_def cmds_full_def Let_def)
next
  case (run_close r s)
  then have "reads_inv xs (x\<lparr>halves := s\<rparr>)"
    by (intro reads_inv_cong [OF assms(2)]) (auto simp: sink_poll_close_def split: if_splits)
  with run_close assms(3) show ?thesis
    by (auto simp: writes_inv_def sink_poll_close_def cmds_full_def Let_def split: if_splits)
next
  case run_sink_drop
  then have "reads_inv xs (x\<lparr>halves := sink_drop (halves x)\<rparr>)"
    by (intro reads_inv_cong [OF assms(2)]) (auto simp: sink_drop_def)
  with run_sink_drop assms(3) show ?thesis
    by (auto simp: writes_inv_def sink_drop_def cmds_full_def Let_def split: if_splits)
next
  case (run_read m s)
  then obtain q where s: "msgs (halves x) = m # q" "s = (halves x)\<lparr>msgs := q\<rparr>" "\<not> terminated (halves x)"
    by (auto simp: stream_poll_next_def split: if_splits list.splits)
  with run_read(1,2) assms(2,3) show ?thesis
    using reader_rest_cong [of "(halves x)\<lparr>msgs := q\<rparr>" "halves x"]
    by (simp add: reads_inv_def writes_inv_def Let_def)
next
  case (run_read_end s)
  then have "s = (halves x)\<lparr>terminated := True\<rparr> \<and> msgs (halves x) = [] \<and> rd_task (halves x) = RdDone \<or> s = halves x"
    by (auto simp: stream_poll_next_def split: if_splits list.splits)
  with run_read_end(1) assms(2,3) show ?thesis
    using reader_rest_cong [of "(halves x)\<lparr>terminated := True\<rparr>" "halves x"]
    by (auto simp: reads_inv_def writes_inv_def Let_def)
next
  case run_stream_drop
  with assms(2) have "prefix (got x) (reader_out xs)"
    by (auto simp: reads_inv_def Let_def intro: prefixI [OF sym])
  with run_stream_drop assms(3) show ?thesis
    by (simp add: reads_inv_def writes_inv_def stream_drop_def Let_def)
qed

interpretation plain_halves: invariant_system "split_init xs" split_step "\<lambda>x. reads_inv xs x \<and> writes_inv x"
  for xs
proof
  fix x assume "split_init xs x"
  then show "reads_inv xs x \<and> writes_inv x"
    by (simp add: split_init_def split_new_def reads_inv_def writes_inv_def reader_rest_def Let_def)
qed (blast dest: split_inv_step)

text \<open>The messages among results, and the split halves against the receive loop of an unsplit connection.\<close>

definition oks :: "(error + message) list \<Rightarrow> message list" where
  "oks rs = concat (map (\<lambda>r. case r of Inl _ \<Rightarrow> [] | Inr m \<Rightarrow> [m]) rs)"

lemma oks_simps [simp]: "oks [] = []" "oks (Inl e # r) = oks r" "oks (Inr m # r) = m # oks r"
    "oks (r1 @ r2) = oks r1 @ oks r2"
  by (simp_all add: oks_def)

lemma reader_out_delivered: "oks (reader_out xs) = fst (delivered xs)"
  by (induction xs rule: reader_out.induct) simp_all

lemma prefix_oks: "prefix a b \<Longrightarrow> prefix (oks a) (oks b)"
  by (auto elim!: prefixE)

text \<open>
  C18: in every state that the tasks, the application and both halves can reach, in any interleaving,
  both channels stay within their 64 elements; the application has read a prefix of what the incoming
  items mean, in order, and once its stream has ended it has read exactly the messages that \<open>recv\<close> of the
  unsplit connection delivers; and the data on the wire is a prefix of the messages the application
  handed to its sink, in order and nothing else, and all of them once a live writer has emptied its
  queue.
\<close>

theorem split_in_order:
  assumes "reachable (split_init xs) split_step x"
  shows "length (msgs (halves x)) \<le> 64 \<and> length (cmds (halves x)) \<le> 64
    \<and> prefix (got x) (reader_out xs) \<and> prefix (oks (got x)) (fst (delivered xs))
    \<and> (stream_alive (halves x) \<and> terminated (halves x) \<longrightarrow> oks (got x) = fst (delivered xs))
    \<and> prefix (op_data (wr_ops (halves x))) (map to_ws (put x))
    \<and> (writer_alive (halves x) \<and> cmds (halves x) = [] \<longrightarrow> op_data (wr_ops (halves x)) = map to_ws (put x))"
proof -
  have r: "reads_inv xs x" and w: "writes_inv x" using plain_halves.reachable_inv [OF assms] by simp_all
  have p: "prefix (got x) (reader_out xs)"
    using r by (auto simp: reads_inv_def Let_def intro: prefixI [OF sym] split: if_splits)
  have e: "got x = reader_out xs" if "stream_alive (halves x)" "terminated (halves x)"
    using r that by (auto simp: reads_inv_def reader_rest_def Let_def)
  have "prefix (op_data (wr_ops (halves x))) (map to_ws (put x))"
    using w by (auto simp: writes_inv_def Let_def intro: prefixI [OF sym] split: if_splits)
  with p e r w show ?thesis
    using prefix_oks [OF p] by (auto simp: reads_inv_def writes_inv_def Let_def reader_out_delivered)
qed

text \<open>A run in which a message is read to the end of the stream and another one is written.\<close>

definition split_demo :: split_run where
  "split_demo = \<lparr>halves = (split_new [])\<lparr>rd_task := RdDone, terminated := True, wr_ops := [SinkSend (WsBinary [2])]\<rparr>,
     got = [Inr (Text ''a'')], put = [Binary [2]]\<rparr>"

lemma split_demo_reachable: "reachable (split_init [Inr (WsText ''a'')]) split_step split_demo"
proof -
  let ?r = "reachable (split_init [Inr (WsText ''a'')]) split_step"
  let ?s = "split_new [Inr (WsText ''a'')]"
  note go = reachable.intros(2) [where init = "split_init [Inr (WsText ''a'')]" and step = split_step]
  note [simp] = split_new_def reader_turn_def writer_turn_def msgs_full_def cmds_full_def stream_poll_next_def
    sink_poll_ready_def sink_start_send_def
  have "?r \<lparr>halves = ?s, got = [], put = []\<rparr>" by (rule reachable.intros(1)) (simp add: split_init_def)
  from go [OF this run_reader] have "?r \<lparr>halves = ?s\<lparr>rd_items := [], rd_task := RdMsg (Inr (Text ''a'')) ReadOn\<rparr>, got = [], put = []\<rparr>"
    by simp
  from go [OF this run_reader] have "?r \<lparr>halves = ?s\<lparr>rd_items := [], msgs := [Inr (Text ''a'')]\<rparr>, got = [], put = []\<rparr>"
    by simp
  from go [OF this run_read] have "?r \<lparr>halves = ?s\<lparr>rd_items := []\<rparr>, got = [Inr (Text ''a'')], put = []\<rparr>"
    by simp
  from go [OF this run_reader] have "?r \<lparr>halves = ?s\<lparr>rd_items := [], rd_task := RdDone\<rparr>, got = [Inr (Text ''a'')], put = []\<rparr>"
    by simp
  from go [OF this run_read_end]
  have "?r \<lparr>halves = ?s\<lparr>rd_items := [], rd_task := RdDone, terminated := True\<rparr>, got = [Inr (Text ''a'')], put = []\<rparr>"
    by simp
  from go [OF this run_send [where m = "Binary [2]"]]
  have "?r \<lparr>halves = ?s\<lparr>rd_items := [], rd_task := RdDone, terminated := True, cmds := [CmdMsg (Binary [2])]\<rparr>,
      got = [Inr (Text ''a'')], put = [Binary [2]]\<rparr>"
    by simp
  from go [OF this run_writer [where ok = True]] show ?thesis by (simp add: split_demo_def)
qed

theorem split_in_order_witness:
  "prefix (got split_demo) (reader_out [Inr (WsText ''a'')]) \<and> oks (got split_demo) = [Text ''a'']
   \<and> prefix (op_data (wr_ops (halves split_demo))) [WsBinary [2]]"
  using split_in_order [OF split_demo_reachable] by (simp add: split_demo_def split_new_def)

end
