(* ===== verification/Ws_Contract.thy ===== *)
theory Ws_Contract
  imports Plain_Split Browser_Split
begin

text \<open>
  The transport contract \<open>WebSocketConnection\<close> (\<open>websock-proto/src/transport.rs\<close>) that the native and the
  browser connection implement, by delegating to their own \<open>send\<close>, \<open>recv\<close> and \<open>close\<close>. What a client may
  rely on when it receives is the locale: the messages that wait are delivered one by one, in order.
\<close>

text \<open>A client that receives \<open>n\<close> times, until something other than a message is returned.\<close>

fun recv_many :: "('s \<Rightarrow> (error + message) poll \<times> 's) \<Rightarrow> nat \<Rightarrow> 's \<Rightarrow> message list \<times> 's" where
  "recv_many recv 0 s = ([], s)"
| "recv_many recv (Suc n) s = (case recv s of
     (Ready (Inr m), s') \<Rightarrow> apfst ((#) m) (recv_many recv n s')
   | (_, s') \<Rightarrow> ([], s'))"

locale websocket_connection =
  fixes recv :: "'s \<Rightarrow> (error + message) poll \<times> 's"
    and waiting :: "'s \<Rightarrow> (error + message) list"
  assumes recv_message: "waiting s = Inr m # q \<Longrightarrow> \<exists>s'. recv s = (Ready (Inr m), s') \<and> waiting s' = q"
    and recv_error: "waiting s = Inl e # q \<Longrightarrow> \<exists>s'. recv s = (Ready (Inl e), s')"
begin

lemma recv_many_waiting:
  "waiting s = map Inr ms @ q \<Longrightarrow> \<exists>s'. recv_many recv (length ms) s = (ms, s') \<and> waiting s' = q"
proof (induction ms arbitrary: s)
  case (Cons m ms)
  then obtain s' where "recv s = (Ready (Inr m), s')" "waiting s' = map Inr ms @ q" using recv_message by fastforce
  then show ?case using Cons.IH [of s'] by auto
qed simp

lemma recv_then_error:
  assumes "waiting s = map Inr ms @ Inl e # q"
  shows "\<exists>s' t. recv_many recv (length ms) s = (ms, s') \<and> recv s' = (Ready (Inl e), t)"
  using recv_many_waiting [OF assms] recv_error by blast

end

section \<open>The native connection\<close>

text \<open>Over a sink that works; what waits is what the incoming items mean.\<close>

definition working_sink :: ws_sink where
  "working_sink h a = Inr ()"

definition native_recv :: "plain_conn \<Rightarrow> (error + message) poll \<times> plain_conn" where
  "native_recv c = apfst Ready (conn_recv working_sink c)"

lemma conn_recv_head:
  "reader_out (ws_in c) = r # q \<Longrightarrow>
   \<exists>c'. conn_recv working_sink c = (r, c') \<and> (\<forall>m. r = Inr m \<longrightarrow> reader_out (ws_in c') = q)"
proof (induction "ws_in c" arbitrary: c)
  case (Cons item rest)
  note [simp] = Cons.hyps(2) [symmetric]
  have go: "\<exists>c'. conn_recv working_sink d = (r, c') \<and> (\<forall>m. r = Inr m \<longrightarrow> reader_out (ws_in c') = q)"
    if "ws_in d = rest" "reader_out rest = r # q" for d
    using Cons.hyps(1) [of d] that by simp
  show ?case
  proof (cases item)
    case (Inl e)
    then show ?thesis using Cons.prems by (auto simp: conn_recv_eqs)
  next
    case item: (Inr w)
    show ?thesis
    proof (cases w)
      case (WsClose f)
      then show ?thesis using item Cons.prems by (auto simp: conn_recv_eqs)
    qed (use item Cons.prems go in \<open>auto simp: conn_recv_eqs working_sink_def\<close>)
  qed
qed simp

interpretation native_connection: websocket_connection native_recv "\<lambda>c. reader_out (ws_in c)"
  using conn_recv_head by unfold_locales (force simp: native_recv_def)+

section \<open>The browser connection\<close>

definition browser_waiting :: "browser_conn \<Rightarrow> (error + message) list" where
  "browser_waiting c = (if rx_live (bc_core c) then chan (bc_core c) else [])"

interpretation browser_connection: websocket_connection browser_recv browser_waiting
  by unfold_locales
    (auto simp: browser_waiting_def browser_recv_def chan_next_def split: if_splits list.splits)

text \<open>
  C21: the native and the browser connection keep the contract of the transport trait, so a client cannot
  tell them apart by what it receives: when the same messages and then the same error wait on both, both
  deliver exactly these messages in order and then that error.
\<close>

theorem connections_agree:
  assumes "reader_out (ws_in c) = map Inr ms @ Inl e # q1" "chan (bc_core b) = map Inr ms @ Inl e # q2" "rx_live (bc_core b)"
  shows "fst (recv_many native_recv (length ms) c) = ms \<and> fst (recv_many browser_recv (length ms) b) = ms
    \<and> fst (native_recv (snd (recv_many native_recv (length ms) c))) = Ready (Inl e)
    \<and> fst (browser_recv (snd (recv_many browser_recv (length ms) b))) = Ready (Inl e)"
proof -
  have "browser_waiting b = map Inr ms @ Inl e # q2" using assms(2,3) by (simp add: browser_waiting_def)
  then show ?thesis
    using native_connection.recv_then_error [OF assms(1)] browser_connection.recv_then_error [of b ms e q2] by auto
qed

theorem connections_agree_witness:
  "fst (recv_many native_recv 1 \<lparr>ws_in = [Inr (WsPing []), Inr (WsText ''a''), Inr (WsClose None)], ws_out = [],
      conn_info = demo_info, conn_close_frame = None\<rparr>) = [Text ''a'']
   \<and> fst (recv_many browser_recv 1 (demo_conn\<lparr>bc_core := (bc_core demo_conn)\<lparr>chan := [Inr (Text ''a''), Inl Closed]\<rparr>\<rparr>)) = [Text ''a'']"
  using connections_agree [of "\<lparr>ws_in = [Inr (WsPing []), Inr (WsText ''a''), Inr (WsClose None)], ws_out = [],
      conn_info = demo_info, conn_close_frame = None\<rparr>" "[Text ''a'']" Closed "[]"
      "demo_conn\<lparr>bc_core := (bc_core demo_conn)\<lparr>chan := [Inr (Text ''a''), Inl Closed]\<rparr>\<rparr>" "[]"]
  by (simp add: demo_conn_def)

end
