(* ===== verification/Test_Programs.thy ===== *)
theory Test_Programs
  imports Plain_Split Browser_Split
begin

text \<open>
  The programs beside the libraries that exercise them: the fuzz targets (\<open>fuzz/fuzz_targets\<close>), and the
  plain endpoints of the server for the browser tests (\<open>websock-browser-test-server/src/main.rs\<close>).
\<close>

section \<open>Fuzz targets\<close>

text \<open>The decoding loops, with what they decoded and where they stopped.\<close>

function fuzz_varint :: "bytes \<Rightarrow> varint list \<times> bytes" where
  "fuzz_varint data =
     (if data = [] then ([], [])
      else case varint_decode data of
        Inl _ \<Rightarrow> ([], data) | Inr (v, rest) \<Rightarrow> apfst ((#) v) (fuzz_varint rest))"
  by pat_completeness auto
termination
  by (relation "measure length") (auto dest: varint_codec.dec_shorter)

function fuzz_frames :: "nat \<Rightarrow> bytes \<Rightarrow> frame list \<times> bytes" where
  "fuzz_frames w data =
     (if data = [] then ([], [])
      else case frame_decode w data of
        Inl _ \<Rightarrow> ([], data) | Inr (f, rest) \<Rightarrow> apfst ((#) f) (fuzz_frames w rest))"
  by pat_completeness auto
termination
  by (relation "measure (\<lambda>(w, data). length data)") (auto dest: frame_codec.dec_shorter)

declare fuzz_varint.simps [simp del] fuzz_frames.simps [simp del]

text \<open>The bookkeeping of the sequence target: the streams open for receiving and for sending.\<close>

fun fuzz_frame :: "frame \<Rightarrow> stream_id set \<times> stream_id set \<Rightarrow> (stream_id set \<times> stream_id set) \<times> bool" where
  "fuzz_frame (OpenUni i) (rs, ss) = ((insert i rs, ss), True)"
| "fuzz_frame (OpenBi i) (rs, ss) = ((insert i rs, insert i ss), True)"
| "fuzz_frame (Stream i d fin) (rs, ss) = ((if fin then rs - {i} else rs, ss), True)"
| "fuzz_frame (ResetStream i c) (rs, ss) = ((rs - {i}, ss), True)"
| "fuzz_frame (StopSending i c) (rs, ss) = ((rs, ss - {i}), True)"
| "fuzz_frame (MaxStreamData i m) (rs, ss) = ((rs, ss), True)"
| "fuzz_frame (ConnectionClose c reason) (rs, ss) = (({}, {}), False)"

function fuzz_sequence :: "nat \<Rightarrow> bytes \<Rightarrow> stream_id set \<times> stream_id set \<Rightarrow> stream_id set \<times> stream_id set" where
  "fuzz_sequence w data x =
     (if data = [] then x
      else case frame_decode w data of
        Inl _ \<Rightarrow> x
      | Inr (f, rest) \<Rightarrow> (case fuzz_frame f x of (y, True) \<Rightarrow> fuzz_sequence w rest y | (y, False) \<Rightarrow> y))"
  by pat_completeness auto
termination
  by (relation "measure (\<lambda>(w, data, x). length data)") (auto dest: frame_codec.dec_shorter)

declare fuzz_sequence.simps [simp del]

text \<open>A loop over well-formed frames decodes them all, whatever the input was made of.\<close>

lemma fuzz_frames_encoded:
  assumes "list_all (frame_wf w) fs" "those (map frame_encode fs) = Some bs"
  shows "fuzz_frames w (concat bs) = (fs, [])"
  using assms
proof (induction fs arbitrary: bs)
  case (Cons f fs)
  then obtain b r where b: "frame_encode f = Some b" "those (map frame_encode fs) = Some r" "bs = b # r"
    by (auto split: option.splits)
  have "frame_decode w (b @ concat r) = Inr (f, concat r)" using frame_codec.dec_enc Cons.prems(1) b(1) by simp
  moreover have "b \<noteq> []" using frame_codec.enc_nonempty [of w f b] Cons.prems(1) b(1) by simp
  ultimately show ?case using Cons b by (simp add: fuzz_frames.simps [of w "b @ concat r"])
qed (simp add: fuzz_frames.simps)

section \<open>The plain endpoints of the test server\<close>

text \<open>
  A handler is given the sink, the operations done on it so far, the path of the request and the items
  that will arrive. The pauses of the source have no effect on what is sent.
\<close>

definition srv_do :: "ws_sink \<Rightarrow> sink_op \<Rightarrow> sink_op list \<Rightarrow> (tungstenite_error + unit) \<times> sink_op list" where
  "srv_do tx a h = (case tx h a of Inl e \<Rightarrow> (Inl e, h) | Inr _ \<Rightarrow> (Inr (), h @ [a]))"

fun srv_send_all :: "ws_sink \<Rightarrow> ws_message list \<Rightarrow> sink_op list \<Rightarrow> (tungstenite_error + unit) \<times> sink_op list" where
  "srv_send_all tx [] h = (Inr (), h)"
| "srv_send_all tx (m # ms) h = (case srv_do tx (SinkSend m) h of
     (Inl e, h1) \<Rightarrow> (Inl e, h1) | (Inr _, h1) \<Rightarrow> srv_send_all tx ms h1)"

definition overflow_messages :: "ws_message list" where
  "overflow_messages = map (\<lambda>n. WsBinary (put_u16 (of_nat n))) [0..<256]"

fun srv_echo :: "ws_sink \<Rightarrow> (tungstenite_error + ws_message) list \<Rightarrow> sink_op list \<Rightarrow> (tungstenite_error + unit) \<times> sink_op list" where
  "srv_echo tx [] h = (Inr (), h)"
| "srv_echo tx (Inl e # r) h = (Inl e, h)"
| "srv_echo tx (Inr (WsClose f) # r) h = (Inr (), h)"
| "srv_echo tx (Inr m # r) h = (case srv_do tx (SinkSend m) h of
     (Inl e, h1) \<Rightarrow> (Inl e, h1) | (Inr _, h1) \<Rightarrow> srv_echo tx r h1)"

definition handle_websocket ::
  "ws_sink \<Rightarrow> string \<Rightarrow> (tungstenite_error + ws_message) list \<Rightarrow> sink_op list \<Rightarrow> (tungstenite_error + unit) \<times> sink_op list" where
  "handle_websocket tx path arriving h =
     (if path = ''/overflow'' then
        (case srv_send_all tx overflow_messages h of
           (Inl e, h1) \<Rightarrow> (Inl e, h1) | (Inr _, h1) \<Rightarrow> srv_do tx SinkClose h1)
      else if path = ''/close'' then srv_do tx (SinkSend (WsClose (Some (1008, ''browser-test'')))) h
      else if path = ''/delayed'' then srv_do tx (SinkSend (WsText ''still-open'')) h
      else srv_echo tx arriving h)"

text \<open>Over a sink that works, every other path echoes what arrives, in order, up to the close.\<close>

fun is_close :: "tungstenite_error + ws_message \<Rightarrow> bool" where
  "is_close (Inr (WsClose f)) = True"
| "is_close _ = False"

lemma srv_echo_all:
  assumes "\<And>h a. tx h a = Inr ()"
  shows "srv_echo tx (map Inr ms) h = (Inr (), h @ map SinkSend (takeWhile (\<lambda>m. \<not> is_close (Inr m)) ms))"
proof (induction ms arbitrary: h)
  case (Cons m ms)
  then show ?case using assms by (cases m) (simp_all add: srv_do_def)
qed simp

lemma srv_send_all_works:
  assumes "\<And>h a. tx h a = Inr ()"
  shows "srv_send_all tx ms h = (Inr (), h @ map SinkSend ms)"
  using assms by (induction ms arbitrary: h) (simp_all add: srv_do_def)

section \<open>Overflow\<close>

text \<open>
  What the overflow endpoint is for: 256 messages that a browser application does not read exceed its
  channel, so the connection does not stay open, and what it holds is still the beginning of what was sent.
\<close>

lemma overflow_closes_channel:
  assumes "js_close_ok cl" "reachable (browser_run_init cl opts) (browser_run_step cl) x"
    and "arrived x = map (\<lambda>n. EvMessage (JsArrayBuffer (put_u16 (of_nat n)))) [0..<256]" "taken x = []"
    and "2 \<le> max_message_size (co_limits opts)"
  shows "\<not> (chan_open (core_of (owner x)) \<and> rx_live (core_of (owner x)))
    \<and> prefix (chan (core_of (owner x))) (map (\<lambda>n. Inr (Binary (put_u16 (of_nat n)))) [0..<256])"
proof -
  have "browser_inv cl opts x" by (rule browser_runs.reachable_inv [OF assms(2)])
  then have inv: "order_inv (max_message_size (co_limits opts)) x" using assms(1) by (simp add: browser_inv_def)
  have "length (put_u16 y) = 2" for y by (simp add: put_u16_def)
  then have items: "map (event_item (max_message_size (co_limits opts))) (arrived x)
      = map (\<lambda>n. Inr (Binary (put_u16 (of_nat n)))) [0..<256]"
    using assms(3,5) by simp
  have "length (chan (core_of (owner x))) < 256" using inv by (simp add: order_inv_def Let_def)
  then have "chan (core_of (owner x)) \<noteq> map (\<lambda>n. Inr (Binary (put_u16 (of_nat n)))) [0..<256]"
    by (metis diff_zero length_map length_upt less_irrefl)
  with inv items assms(4) show ?thesis by (simp add: order_inv_def Let_def)
qed

end
