(* ===== verification/Stream_Transfer.thy ===== *)
theory Stream_Transfer
  imports Wire Stream_Behaviour Write_Delivery
begin

text \<open>
  A stream from the writer of one session to the reader of the other: what a write that finds credit
  and room queues, what its frames and the FIN do to the receiving session, and what reading to the end
  then returns. The lemmas give the exact states, so that they can be chained over several transfers.
\<close>

section \<open>Pieces\<close>

text \<open>The consecutive pieces of at most \<open>k\<close> bytes into which a writer or a reader cuts \<open>d\<close>.\<close>

function chunks :: "nat \<Rightarrow> bytes \<Rightarrow> bytes list" where
  "chunks k d = (if k = 0 \<or> d = [] then [] else take k d # chunks k (drop k d))"
  by pat_completeness auto
termination by (relation "measure (\<lambda>(k, d). length d)") auto

declare chunks.simps [simp del]

lemma chunks_Nil [simp]: "chunks k [] = []"
  by (simp add: chunks.simps)

lemma chunks_step: "0 < k \<Longrightarrow> d \<noteq> [] \<Longrightarrow> chunks k d = take k d # chunks k (drop k d)"
  by (simp add: chunks.simps [of k d])

lemma concat_chunks: "0 < k \<Longrightarrow> concat (chunks k d) = d"
proof (induction k d rule: chunks.induct)
  case (1 k d)
  then show ?case by (cases "d = []") (simp_all add: chunks_step)
qed

lemma chunks_bounds: "0 < k \<Longrightarrow> list_all (\<lambda>c. c \<noteq> [] \<and> length c \<le> k) (chunks k d)"
proof (induction k d rule: chunks.induct)
  case (1 k d)
  then show ?case by (cases "d = []") (simp_all add: chunks_step)
qed

lemma rechunk:
  assumes "0 < k"
  shows "concat (concat (map (chunks k) cs)) = concat cs"
    "list_all (\<lambda>c. c \<noteq> [] \<and> length c \<le> k) (concat (map (chunks k) cs))"
  using assms chunks_bounds [OF assms] by (induction cs) (simp_all add: concat_chunks)

section \<open>Writing with credit and room\<close>

definition write_piece :: "limits \<Rightarrow> nat" where
  "write_piece l = min MAX_WRITE_CHUNK (max_stream_data_per_frame l)"

definition flow_ready :: "send_stream \<Rightarrow> session \<Rightarrow> bool" where
  "flow_ready ss s \<longleftrightarrow> \<not> session_is_closed s \<and> outbound_rx s
     \<and> hm_get (send_flows s) (ss_id ss) = Some (ss_flow ss)
     \<and> \<not> flow_closed (flow_mem s (ss_flow ss)) \<and> flow_ok (flow_mem s (ss_flow ss))"

definition has_credit :: "nat \<Rightarrow> send_stream \<Rightarrow> session \<Rightarrow> bool" where
  "has_credit n ss s \<longleftrightarrow>
     unat (sent_data (flow_mem s (ss_flow ss))) + n \<le> unat (max_data (flow_mem s (ss_flow ss)))"

definition queued :: "send_stream \<Rightarrow> bytes list \<Rightarrow> send_flow \<Rightarrow> session \<Rightarrow> session" where
  "queued ss cs f s = s\<lparr>outbound := outbound s @ data_cmds (ss_id ss) cs,
     flow_mem := (flow_mem s)(ss_flow ss := f)\<rparr>"

lemma reserve_poll_grants:
  assumes "flow_ready ss s" "has_credit n ss s" "0 < n" "n < 2 ^ 64"
  obtains f where "reserve_poll n ss s = (Ready (Inr n), s\<lparr>flow_mem := (flow_mem s)(ss_flow ss := f)\<rparr>)"
    "max_data f = max_data (flow_mem s (ss_flow ss))"
    "unat (sent_data f) = unat (sent_data (flow_mem s (ss_flow ss))) + n" "flow_ok f" "\<not> flow_closed f"
proof -
  let ?f = "waker_register (flow_mem s (ss_flow ss))"
  obtain g f where t: "try_reserve n ?f = (g, f)" by fastforce
  have ok: "flow_ok ?f" and fields: "max_data ?f = max_data (flow_mem s (ss_flow ss))"
      "sent_data ?f = sent_data (flow_mem s (ss_flow ss))" "\<not> flow_closed ?f"
    using assms(1) by (simp_all add: flow_ready_def flow_ok_def waker_register_def)
  note ex = try_reserve_exact [OF ok t assms(4)] and fl = try_reserve_fields [OF t]
  have g: "g = n" using ex(2) fields assms(2) by (simp add: has_credit_def)
  have "reserve_poll n ss s = (Ready (Inr n), s\<lparr>flow_mem := (flow_mem s)(ss_flow ss := f)\<rparr>)"
    using t g assms(3) by (simp add: reserve_poll_def flow_update_def Let_def)
  then show ?thesis using that ex(1,3) fl fields g by simp
qed

lemma write_wanted_piece: "write_wanted d s = min (length d) (write_piece (limits_of s))"
  by (simp add: write_wanted_def write_piece_def min.assoc)

lemma queued_Cons:
  "queued ss cs f (outbound_push (FrameCmd (Stream (ss_id ss) c False)) (s\<lparr>flow_mem := (flow_mem s)(ss_flow ss := g)\<rparr>))
     = queued ss (c # cs) f s"
  by (simp add: queued_def outbound_push_def data_cmds_def)

lemma write_loop_all:
  assumes "flow_ready ss s" "has_credit (length d) ss s" "0 < write_piece (limits_of s)"
    and "length (outbound s) + length (chunks (write_piece (limits_of s)) d) \<le> outbound_queue_len (limits_of s)"
  shows "\<exists>f. write_loop ss d s = (Finished (Inr ()), queued ss (chunks (write_piece (limits_of s)) d) f s)
     \<and> max_data f = max_data (flow_mem s (ss_flow ss)) \<and> flow_ok f \<and> \<not> flow_closed f
     \<and> unat (sent_data f) = unat (sent_data (flow_mem s (ss_flow ss))) + length d"
  using assms
proof (induction "length d" arbitrary: d s rule: less_induct)
  case less
  let ?k = "write_piece (limits_of s)" and ?r = "ss_flow ss"
  show ?case
  proof (cases "d = []")
    case True
    have "queued ss [] (flow_mem s ?r) s = s" by (simp add: queued_def data_cmds_def)
    then show ?thesis using True less.prems(1)
      by (intro exI [of _ "flow_mem s ?r"]) (simp add: write_loop.simps flow_ready_def)
  next
    case False
    let ?n = "min (length d) ?k"
    have n: "0 < ?n" "?n < 2 ^ 64" using False less.prems(3) by (auto simp: write_piece_def MAX_WRITE_CHUNK_def)
    have "has_credit ?n ss s" using less.prems(2) by (simp add: has_credit_def)
    then obtain f where f: "reserve_poll ?n ss s = (Ready (Inr ?n), s\<lparr>flow_mem := (flow_mem s)(?r := f)\<rparr>)"
        "max_data f = max_data (flow_mem s ?r)" "unat (sent_data f) = unat (sent_data (flow_mem s ?r)) + ?n"
        "flow_ok f" "\<not> flow_closed f"
      using reserve_poll_grants [OF less.prems(1) _ n] by metis
    let ?c = "take ?n d" and ?s1 = "s\<lparr>flow_mem := (flow_mem s)(?r := f)\<rparr>"
    let ?s2 = "outbound_push (FrameCmd (Stream (ss_id ss) ?c False)) ?s1"
    have c: "?c = take ?k d" "drop ?n d = drop ?k d" by (auto simp: min_def)
    have ch: "chunks ?k d = ?c # chunks ?k (drop ?n d)" using chunks_step [OF less.prems(3) False] c by simp
    have send: "send_frame (Stream (ss_id ss) ?c False) ?s1 = (Ready (Inr ()), ?s2)"
      using less.prems(1,4) ch
      by (simp add: send_frame_def send_frame_resume_def flow_ready_def session_is_closed_def outbound_full_def hm_contains_def)
    have same: "limits_of ?s2 = limits_of s" "outbound ?s2 = outbound s @ [FrameCmd (Stream (ss_id ss) ?c False)]"
        "flow_mem ?s2 ?r = f" "flow_ready ss ?s2"
      using less.prems(1) f by (simp_all add: outbound_push_def flow_ready_def session_is_closed_def)
    have cr: "has_credit (length (drop ?n d)) ss ?s2"
      using less.prems(2) f(2,3) same(3) by (simp add: has_credit_def)
    have lt: "length (drop ?n d) < length d" using n by simp
    have room: "length (outbound ?s2) + length (chunks ?k (drop ?n d)) \<le> outbound_queue_len (limits_of ?s2)"
      using less.prems(4) unfolding same(1,2) ch by simp
    obtain h where h: "write_loop ss (drop ?n d) ?s2 = (Finished (Inr ()), queued ss (chunks ?k (drop ?n d)) h ?s2)"
        "max_data h = max_data f" "flow_ok h" "\<not> flow_closed h" "unat (sent_data h) = unat (sent_data f) + length (drop ?n d)"
      using less.hyps [OF lt same(4) cr] less.prems(3) room unfolding same(1,3) by blast
    have "write_wanted d s = ?n" "?n \<noteq> 0" using n(1) by (simp_all add: write_wanted_piece)
    then have "write_loop ss d s = write_loop ss (drop ?n d) ?s2"
      unfolding write_loop.simps [of ss d s] using False by (simp only: f(1) send if_False prod.case poll.case sum.case)
    then have "write_loop ss d s = (Finished (Inr ()), queued ss (chunks ?k d) h s)"
      using h(1) queued_Cons [of ss "chunks ?k (drop ?n d)" h ?c s f] ch by metis
    then show ?thesis using h f by (intro exI [of _ h]) simp
  qed
qed

text \<open>The handle can be used directly: no other operation runs and no other interface was selected.\<close>

definition handle_ready :: "send_stream \<Rightarrow> session \<Rightarrow> bool" where
  "handle_ready ss s \<longleftrightarrow> (let sh = shared_mem s (ss_shared ss) in
     \<not> ss_finished sh \<and> \<not> operation sh \<and> (api_mode sh = 0 \<or> api_mode sh = 1))"

definition direct_mode :: "bool \<Rightarrow> send_stream \<Rightarrow> session \<Rightarrow> session" where
  "direct_mode fin ss s = shared_update (ss_shared ss)
     (\<lambda>c. c\<lparr>ss_finished := fin, operation := False, api_mode := 1\<rparr>) s"

lemma shared_update_twice:
  "shared_update r g (shared_update r f s) = shared_update r (\<lambda>c. g (f c)) s"
  by (simp add: shared_update_def)

lemma shared_update_cong:
  "g (shared_mem s r) = h (shared_mem s r) \<Longrightarrow> shared_update r g s = shared_update r h s"
  by (simp add: shared_update_def)

lemma shared_update_mem [simp]:
  "shared_mem (shared_update r g s) r = g (shared_mem s r)"
  by (simp add: shared_update_def)

lemma shared_update_fields [simp]:
  "flow_ready ss (shared_update r g s) = flow_ready ss s"
  "has_credit n ss (shared_update r g s) = has_credit n ss s"
  "limits_of (shared_update r g s) = limits_of s" "outbound (shared_update r g s) = outbound s"
  "flow_mem (shared_update r g s) = flow_mem s" "session_is_closed (shared_update r g s) = session_is_closed s"
  "queued ss cs f (shared_update r g s) = shared_update r g (queued ss cs f s)"
  by (simp_all add: shared_update_def flow_ready_def has_credit_def session_is_closed_def queued_def)

lemma begin_direct:
  assumes "handle_ready ss s"
  shows "begin_operation 1 ss s = (Inr (), shared_update (ss_shared ss) (\<lambda>c. c\<lparr>operation := True, api_mode := 1\<rparr>) s)"
proof -
  let ?r = "ss_shared ss" and ?c = "shared_mem s (ss_shared ss)"
  have ready: "\<not> operation ?c" "api_mode ?c = 0 \<or> api_mode ?c = 1"
    using assms by (simp_all add: handle_ready_def Let_def)
  have "?c\<lparr>operation := True\<rparr> = ?c\<lparr>operation := True, api_mode := 1\<rparr>" if "api_mode ?c = 1"
    using that by (cases ?c) simp
  then have "shared_update ?r (\<lambda>c. c\<lparr>operation := True\<rparr>) s =
      shared_update ?r (\<lambda>c. c\<lparr>operation := True, api_mode := 1\<rparr>) s" if "api_mode ?c = 1"
    using that by (intro shared_update_cong) simp
  with ready show ?thesis
    by (auto simp: begin_operation_def select_api_def shared_update_twice intro!: shared_update_cong)
qed

lemma write_buf_all:
  assumes "handle_ready ss s" "flow_ready ss s" "has_credit (length d) ss s" "0 < write_piece (limits_of s)"
    and "length (outbound s) + length (chunks (write_piece (limits_of s)) d) \<le> outbound_queue_len (limits_of s)"
  obtains f where "write_buf ss d s = (Finished (Inr ()),
      direct_mode False ss (queued ss (chunks (write_piece (limits_of s)) d) f s))"
    "max_data f = max_data (flow_mem s (ss_flow ss))" "flow_ok f" "\<not> flow_closed f"
    "unat (sent_data f) = unat (sent_data (flow_mem s (ss_flow ss))) + length d"
proof -
  let ?r = "ss_shared ss" and ?cs = "chunks (write_piece (limits_of s)) d"
  let ?s1 = "shared_update ?r (\<lambda>c. c\<lparr>operation := True, api_mode := 1\<rparr>) s"
  obtain f where f: "write_loop ss d ?s1 = (Finished (Inr ()), queued ss ?cs f ?s1)"
      "max_data f = max_data (flow_mem s (ss_flow ss))" "flow_ok f" "\<not> flow_closed f"
      "unat (sent_data f) = unat (sent_data (flow_mem s (ss_flow ss))) + length d"
    using write_loop_all [of ss ?s1 d] assms(2-5) by auto
  have open_handle: "\<not> ss_finished (shared_mem s ?r)" "\<not> session_is_closed s"
    using assms(1,2) by (simp_all add: handle_ready_def flow_ready_def Let_def)
  have "write_buf ss d s = (Finished (Inr ()), end_operation ss (queued ss ?cs f ?s1))"
    using open_handle f(1) by (simp add: write_buf_def guarded_def begin_direct [OF assms(1)] end_guarded_def)
  also have "end_operation ss (queued ss ?cs f ?s1) = direct_mode False ss (queued ss ?cs f s)"
    using open_handle(1) unfolding end_operation_def direct_mode_def shared_update_fields shared_update_twice
    by (intro shared_update_cong) (simp add: queued_def)
  finally show ?thesis using that f by blast
qed

definition finished_send :: "send_stream \<Rightarrow> session \<Rightarrow> session" where
  "finished_send ss s = s\<lparr>outbound := outbound s @ [FrameCmd (fin_frame (ss_id ss))],
     send_flows := hm_remove (ss_id ss) (send_flows s),
     flow_mem := (flow_mem s)(ss_flow ss := flow_close (flow_mem s (ss_flow ss)))\<rparr>"

lemma finish_frame:
  assumes "flow_ready ss s" "\<not> outbound_full s"
  shows "finish_result ss (send_frame (fin_frame (ss_id ss)) (shared_update r g s))
           = (Finished (Inr ()), shared_update r g (finished_send ss s))"
proof -
  have "send_frame (fin_frame (ss_id ss)) (shared_update r g s)
      = (Ready (Inr ()), outbound_push (FrameCmd (fin_frame (ss_id ss))) (shared_update r g s))"
    using assms
    by (simp add: send_frame_def send_frame_resume_def fin_frame_def flow_ready_def outbound_full_def hm_contains_def)
      (simp add: shared_update_def)
  then show ?thesis
    using assms(1)
    by (simp add: finish_result_def remove_send_flow_def flow_ready_def finished_send_def shared_update_def
        outbound_push_def flow_update_def)
qed

lemma send_finish_all:
  assumes "handle_ready ss s" "flow_ready ss s" "\<not> outbound_full s"
  shows "send_finish ss s = (Finished (Inr ()), direct_mode True ss (finished_send ss s))"
proof -
  let ?r = "ss_shared ss"
  have "\<not> ss_finished (shared_mem s ?r)" "\<not> session_is_closed s" "\<not> flow_closed (flow_mem s (ss_flow ss))"
    using assms(1,2) by (simp_all add: handle_ready_def flow_ready_def Let_def)
  then have "send_finish ss s = (Finished (Inr ()), end_operation ss (shared_update ?r
      (\<lambda>c. c\<lparr>operation := True, api_mode := 1, ss_finished := True\<rparr>) (finished_send ss s)))"
    by (simp add: send_finish_def guarded_def begin_direct [OF assms(1)] shared_update_twice
        finish_frame [OF assms(2,3)] end_guarded_def)
  then show ?thesis
    by (simp add: end_operation_def direct_mode_def shared_update_twice) (intro shared_update_cong, simp)
qed

section \<open>Receiving data and FIN\<close>

definition data_events :: "bytes list \<Rightarrow> recv_event list" where
  "data_events cs = map (\<lambda>c. RecvEvent c False) cs"

definition fin_frames :: "stream_id \<Rightarrow> bytes list \<Rightarrow> frame list" where
  "fin_frames i cs = map (\<lambda>c. Stream i c False) cs @ [fin_frame i]"

text \<open>The receiving session after data and FIN: the entry is retired, the events wait in the channel.\<close>

definition stream_delivered :: "recv_stream \<Rightarrow> bytes list \<Rightarrow> session \<Rightarrow> session" where
  "stream_delivered rv cs s = chan_update (receiver rv)
     (\<lambda>c. c\<lparr>items := items c @ data_events cs @ [RecvEvent [] True]\<rparr>)
     (s\<lparr>streams := hm_remove (rv_id rv) (streams s)\<rparr>)"

lemma hm_remove_insert: "hm_remove k (hm_insert k v m) = hm_remove k m"
  by (simp add: hm_remove_def hm_insert_def)

lemma handle_stream_exact:
  assumes "feeds i st rv s" "within_credit [c] st rv s"
  obtains n where "unat n = unat (received st) + length c"
    "handle_stream i c fin s = (Inr (), (if fin then \<lambda>s'. s'\<lparr>streams := hm_remove i (streams s')\<rparr> else id)
       (chan_update (receiver rv) (\<lambda>ch. ch\<lparr>items := items ch @ [RecvEvent c fin]\<rparr>)
         (s\<lparr>streams := hm_insert i (st\<lparr>received := n\<rparr>) (streams s)\<rparr>)))"
proof -
  let ?n = "received st + of_nat (length c)" and ?ch = "chan_mem s (receiver rv)"
  have le: "unat (received st) + length c \<le> unat (chan_max ?ch)" using assms(2) by (simp add: within_credit_def)
  then have len: "length c < 2 ^ 64" using unat_u64_less [of "chan_max ?ch"] by linarith
  have "unat (received st) + unat (of_nat (length c) :: u64) < 2 ^ 64"
    using le len unat_u64_less [of "chan_max ?ch"] by (simp add: unat_of_nat_u64)
  then have add: "checked_add (received st) (of_nat (length c)) = Some ?n" by (simp add: checked_add_def)
  then have n: "unat ?n = unat (received st) + length c"
    using len by (auto simp: checked_add_Some unat_add_no_wrap unat_of_nat_u64)
  have "\<not> chan_max ?ch < ?n" using le n by (simp add: word_less_nat_alt)
  then show ?thesis
    using that [OF n] assms add
    by (auto simp: handle_stream_def feeds_def within_credit_def Let_def remove_recv_stream_def)
qed

lemma handle_all_fin:
  assumes "feeds (rv_id rv) st rv s" "within_credit (cs @ [[]]) st rv s"
  shows "handle_all (fin_frames (rv_id rv) cs) s = (InLoop, stream_delivered rv cs s)"
  using assms
proof (induction cs arbitrary: st s)
  case Nil
  then obtain n where "handle_stream (rv_id rv) [] True s = (Inr (), (\<lambda>s'. s'\<lparr>streams := hm_remove (rv_id rv) (streams s')\<rparr>)
       (chan_update (receiver rv) (\<lambda>ch. ch\<lparr>items := items ch @ [RecvEvent [] True]\<rparr>)
         (s\<lparr>streams := hm_insert (rv_id rv) (st\<lparr>received := n\<rparr>) (streams s)\<rparr>)))"
    using handle_stream_exact [of "rv_id rv" st rv s "[]" True] by auto
  then show ?case
    by (simp add: fin_frames_def fin_frame_def stream_delivered_def data_events_def chan_update_def hm_remove_insert)
next
  case (Cons c cs)
  let ?i = "rv_id rv"
  have "within_credit [c] st rv s" using Cons.prems(2) by (auto simp: within_credit_def)
  then obtain n where n: "unat n = unat (received st) + length c"
      "handle_stream ?i c False s = (Inr (), chan_update (receiver rv)
         (\<lambda>ch. ch\<lparr>items := items ch @ [RecvEvent c False]\<rparr>) (s\<lparr>streams := hm_insert ?i (st\<lparr>received := n\<rparr>) (streams s)\<rparr>))"
    using handle_stream_exact [OF Cons.prems(1), of c False] by auto
  let ?s1 = "chan_update (receiver rv) (\<lambda>ch. ch\<lparr>items := items ch @ [RecvEvent c False]\<rparr>)
      (s\<lparr>streams := hm_insert ?i (st\<lparr>received := n\<rparr>) (streams s)\<rparr>)"
  have "feeds ?i (st\<lparr>received := n\<rparr>) rv ?s1" "within_credit (cs @ [[]]) (st\<lparr>received := n\<rparr>) rv ?s1"
    using Cons.prems n(1) by (auto simp: feeds_def within_credit_def chan_update_def hmap_simps)
  then have "handle_all (fin_frames ?i cs) ?s1 = (InLoop, stream_delivered rv cs ?s1)" by (rule Cons.IH)
  moreover have "stream_delivered rv cs ?s1 = stream_delivered rv (c # cs) s"
    by (simp add: stream_delivered_def data_events_def chan_update_def hm_remove_insert)
  ultimately show ?case using n(2) by (simp add: fin_frames_def)
qed

section \<open>Reading what was delivered\<close>

text \<open>
  A reader in the middle of a delivered stream: \<open>p\<close> is left of the current event, \<open>cs\<close> and the FIN
  follow. No entry of the stream is left, so reading no longer renews credit.
\<close>

definition reading :: "recv_stream \<Rightarrow> bytes \<Rightarrow> bytes list \<Rightarrow> session \<Rightarrow> bool" where
  "reading rv p cs s \<longleftrightarrow> rv_pending rv = p \<and> \<not> rv_finished rv \<and> hm_get (streams s) (rv_id rv) = None
     \<and> items (chan_mem s (receiver rv)) = data_events cs @ [RecvEvent [] True]"

text \<open>What a read changes: its handle, and its own channel.\<close>

definition only_reads :: "recv_stream \<Rightarrow> session \<Rightarrow> recv_stream \<Rightarrow> session \<Rightarrow> bool" where
  "only_reads rv s rv' s' \<longleftrightarrow> rv_id rv' = rv_id rv \<and> receiver rv' = receiver rv
     \<and> (\<exists>c. s' = s\<lparr>chan_mem := (chan_mem s)(receiver rv := c)\<rparr>)"

lemma only_reads_refl: "only_reads rv s rv s"
proof -
  have "s = s\<lparr>chan_mem := (chan_mem s)(receiver rv := chan_mem s (receiver rv))\<rparr>" by simp
  then show ?thesis unfolding only_reads_def by blast
qed

lemma only_reads_trans:
  assumes "only_reads rv s rv1 s1" "only_reads rv1 s1 rv2 s2"
  shows "only_reads rv s rv2 s2"
proof -
  obtain c d where "s1 = s\<lparr>chan_mem := (chan_mem s)(receiver rv := c)\<rparr>"
      "s2 = s1\<lparr>chan_mem := (chan_mem s1)(receiver rv1 := d)\<rparr>"
    using assms unfolding only_reads_def by blast
  then have "s2 = s\<lparr>chan_mem := (chan_mem s)(receiver rv := d)\<rparr>" using assms(1) by (simp add: only_reads_def)
  then show ?thesis using assms by (simp add: only_reads_def) blast
qed

lemma only_reads_chan:
  "rv_id rv' = rv_id rv \<Longrightarrow> receiver rv' = receiver rv \<Longrightarrow> only_reads rv s rv' (chan_update (receiver rv) g s)"
  unfolding only_reads_def chan_update_def by blast

lemma only_reads_same: "rv_id rv' = rv_id rv \<Longrightarrow> receiver rv' = receiver rv \<Longrightarrow> only_reads rv s rv' s"
  using only_reads_refl [of rv s] by (simp add: only_reads_def)

lemma only_reads_recv:
  assumes "chan_recv (receiver rv) s = (q, s')"
  shows "only_reads rv s rv s'"
  using assms only_reads_refl [of rv s] only_reads_chan [of rv rv s]
  by (cases "items (chan_mem s (receiver rv))") (auto simp: chan_recv_def)

lemma consume_retired:
  assumes "on_bytes_consumed n rv s = (rv', s')" "hm_get (streams s) (rv_id rv) = None"
  shows "only_reads rv s rv' s'" "rv_pending rv' = rv_pending rv" "rv_finished rv' = rv_finished rv"
    "items (chan_mem s' (receiver rv)) = items (chan_mem s (receiver rv))"
proof -
  have no_credit: "queue_credit (rv_id rv) m (chan_update r g s) = chan_update r g s" for m r g
    using assms(2) by (simp add: queue_credit_def chan_update_def)
  have "only_reads rv s rv' s' \<and> rv_pending rv' = rv_pending rv \<and> rv_finished rv' = rv_finished rv
      \<and> items (chan_mem s' (receiver rv)) = items (chan_mem s (receiver rv))"
    using assms(1)
    by (cases rule: on_bytes_consumed_cases)
      (simp_all add: no_credit only_reads_same only_reads_chan, simp add: chan_update_def)
  then show "only_reads rv s rv' s'" "rv_pending rv' = rv_pending rv" "rv_finished rv' = rv_finished rv"
    "items (chan_mem s' (receiver rv)) = items (chan_mem s (receiver rv))" by simp_all
qed

lemma reading_consume:
  assumes "on_bytes_consumed n (rv\<lparr>rv_pending := q\<rparr>) s = (rv', s')" "reading rv p cs s"
  shows "reading rv' q cs s'" "only_reads rv s rv' s'"
proof -
  note r = consume_retired [OF assms(1)]
  have "hm_get (streams s) (rv_id rv) = None" using assms(2) by (simp add: reading_def)
  then have rv': "only_reads (rv\<lparr>rv_pending := q\<rparr>) s rv' s'" "rv_pending rv' = q" "rv_finished rv' = rv_finished rv"
      "items (chan_mem s' (receiver rv)) = items (chan_mem s (receiver rv))"
    using r by simp_all
  then show "only_reads rv s rv' s'" by (simp add: only_reads_def)
  with rv' assms(2) show "reading rv' q cs s'" by (auto simp: reading_def only_reads_def)
qed

lemma read_pending:
  assumes "reading rv p cs s" "p \<noteq> []" "0 < mx"
  obtains rv' s' where "recv_read_chunk mx rv s = (Ready (Inr (Some (take mx p))), rv', s')"
    "reading rv' (drop mx p) cs s'" "only_reads rv s rv' s'"
proof -
  let ?a = "min (length p) mx"
  have p: "rv_pending rv = p" using assms(1) by (simp add: reading_def)
  have cut: "take ?a p = take mx p" "drop ?a p = drop mx p" by (auto simp: min_def)
  obtain rv' s' where c: "on_bytes_consumed (length (take mx p)) (rv\<lparr>rv_pending := drop mx p\<rparr>) s = (rv', s')" by fastforce
  then have "recv_read_chunk mx rv s = (Ready (Inr (Some (take mx p))), rv', s')"
    using assms(2,3) p cut by (simp add: recv_read_chunk_def Let_def del: length_take)
  then show ?thesis using that reading_consume [OF c assms(1)] by blast
qed

lemma read_event:
  assumes "reading rv [] (c # cs) s" "c \<noteq> []" "0 < mx"
  obtains rv' s' where "recv_read_chunk mx rv s = (Ready (Inr (Some (take mx c))), rv', s')"
    "reading rv' (drop mx c) cs s'" "only_reads rv s rv' s'"
proof -
  obtain s1 where r: "chan_recv (receiver rv) s = (Ready (Some (RecvEvent c False)), s1)" "reading rv [] cs s1"
    using assms(1) by (auto simp: chan_recv_def reading_def data_events_def chan_update_def)
  have rv: "rv_pending rv = []" "\<not> rv_finished rv" using assms(1) by (simp_all add: reading_def)
  obtain rv' s' where c: "on_bytes_consumed (length (take mx c)) (rv\<lparr>rv_pending := drop mx c\<rparr>) s1 = (rv', s')" by fastforce
  have "recv_read_chunk mx rv s = (Ready (Inr (Some (take mx c))), rv', s')"
  proof (cases "mx < length c")
    case True
    then show ?thesis using assms(2,3) rv r(1) c by (simp add: recv_read_chunk_def Let_def del: length_take)
  next
    case False
    have "rv\<lparr>rv_pending := []\<rparr> = rv" using rv(1) by (cases rv) simp
    with False have "on_bytes_consumed (length c) rv s1 = (rv', s')" using c by simp
    then show ?thesis using False assms(2,3) rv r(1) by (simp add: recv_read_chunk_def)
  qed
  then show ?thesis
    using that reading_consume [OF c r(2)] only_reads_trans [OF only_reads_recv [OF r(1)]] by blast
qed

lemma read_fin:
  assumes "reading rv [] [] s" "0 < mx"
  obtains s' where "recv_read_chunk mx rv s = (Ready (Inr None), rv\<lparr>rv_finished := True\<rparr>, s')"
    "only_reads rv s rv s'"
proof -
  obtain s1 where r: "chan_recv (receiver rv) s = (Ready (Some (RecvEvent [] True)), s1)"
    using assms(1) by (auto simp: chan_recv_def reading_def data_events_def)
  have "recv_read_chunk mx rv s = (Ready (Inr None), rv\<lparr>rv_finished := True\<rparr>, s1)"
    using assms r by (simp add: recv_read_chunk_def reading_def)
  then show ?thesis using that only_reads_recv [OF r] by blast
qed

text \<open>The chunks that reads of at most \<open>mx\<close> bytes return.\<close>

definition read_list :: "nat \<Rightarrow> bytes \<Rightarrow> bytes list \<Rightarrow> bytes list" where
  "read_list mx p cs = chunks mx p @ concat (map (chunks mx) cs)"

lemma read_list_step: "p \<noteq> [] \<Longrightarrow> 0 < mx \<Longrightarrow> read_list mx p cs = take mx p # read_list mx (drop mx p) cs"
  "read_list mx [] (c # cs) = read_list mx c cs" "read_list mx [] [] = []"
  by (simp_all add: read_list_def chunks_step)

lemma concat_read_list: "0 < mx \<Longrightarrow> concat (read_list mx p cs) = p @ concat cs"
  by (induction cs arbitrary: p) (simp_all add: read_list_def concat_chunks)

text \<open>Either way a reader is before the end, and a read returns the next chunk; or it reads the FIN.\<close>

lemma read_next:
  assumes "reading rv p cs s" "list_all (\<lambda>c. c \<noteq> []) cs" "0 < mx"
  obtains (chunk) c rv' s' p' cs' where "recv_read_chunk mx rv s = (Ready (Inr (Some c)), rv', s')"
      "read_list mx p cs = c # read_list mx p' cs'" "reading rv' p' cs' s'" "only_reads rv s rv' s'"
      "list_all (\<lambda>c. c \<noteq> []) cs'" "c \<noteq> []"
  | (fin) s' where "recv_read_chunk mx rv s = (Ready (Inr None), rv\<lparr>rv_finished := True\<rparr>, s')"
      "read_list mx p cs = []" "only_reads rv s rv s'"
proof (cases "p = []")
  case False
  obtain rv' s' where r: "recv_read_chunk mx rv s = (Ready (Inr (Some (take mx p))), rv', s')"
      "reading rv' (drop mx p) cs s'" "only_reads rv s rv' s'"
    by (rule read_pending [OF assms(1) False assms(3)])
  show ?thesis
    by (rule chunk [OF r(1) read_list_step(1) r(2,3) assms(2)]) (use False assms(3) in simp_all)
next
  case p: True
  show ?thesis
  proof (cases cs)
    case Nil
    then have nil: "reading rv [] [] s" using assms(1) p by simp
    obtain s' where "recv_read_chunk mx rv s = (Ready (Inr None), rv\<lparr>rv_finished := True\<rparr>, s')"
        "only_reads rv s rv s'" by (rule read_fin [OF nil assms(3)])
    then show ?thesis using fin p Nil by (simp add: read_list_step(3))
  next
    case (Cons c cs')
    then have c: "reading rv [] (c # cs') s" "c \<noteq> []" "list_all (\<lambda>c. c \<noteq> []) cs'" using assms(1,2) p by simp_all
    obtain rv' s' where r: "recv_read_chunk mx rv s = (Ready (Inr (Some (take mx c))), rv', s')"
        "reading rv' (drop mx c) cs' s'" "only_reads rv s rv' s'"
      by (rule read_event [OF c(1,2) assms(3)])
    have "read_list mx p cs = take mx c # read_list mx (drop mx c) cs'"
      unfolding p Cons read_list_step(2) by (rule read_list_step(1) [OF c(2) assms(3)])
    then show ?thesis by (rule chunk [OF r(1) _ r(2,3) c(3)]) (use c assms(3) in simp)
  qed
qed

section \<open>Across the wire\<close>

text \<open>
  The writer of one session drains its queue and the inbound task of the other receives the messages:
  the sender afterwards, how the inbound loop goes on, and the receiver afterwards.
\<close>

definition transmit :: "ws_sink \<Rightarrow> session \<Rightarrow> session \<Rightarrow> session \<times> inbound_task \<times> session" where
  "transmit tx s r = (case writer_run tx (length (outbound s)) writer_new s of
     (_, w, s') \<Rightarrow> (s', receive_all (sent_messages (sunk w)) r))"

definition fits :: "limits \<Rightarrow> frame \<Rightarrow> bool" where
  "fits l f \<longleftrightarrow> length (enc_all [f]) \<le> max_bytes l"

lemma max_bytes_room: "limits_ok 64 l \<Longrightarrow> max_stream_data_per_frame l + 33 \<le> max_bytes l"
  by (auto simp: limits_ok_def max_bytes_def usize_saturating_add_def)

lemma fits_stream:
  assumes "limits_ok 64 l" "length d \<le> max_stream_data_per_frame l" "frame_wf 64 (Stream i d fin)"
  shows "fits l (Stream i d fin)"
proof -
  obtain b where "frame_encode (Stream i d fin) = Some b" using frame_codec.enc_total [OF assms(3)] by blast
  then show ?thesis
    using stream_frame_overhead [of i d fin b] max_bytes_room [OF assms(1)] assms(2) by (simp add: fits_def)
qed

lemma control_overhead:
  "frame_encode (OpenUni i) = Some b \<Longrightarrow> length b \<le> 17" "frame_encode (OpenBi i) = Some b \<Longrightarrow> length b \<le> 17"
  "frame_encode (MaxStreamData i m) = Some b \<Longrightarrow> length b \<le> 17"
  by (auto simp: frame_encode_eq varint_encode_small Option.bind_eq_Some_conv dest!: varint_encode_length_le)

lemma fits_control:
  assumes "limits_ok 64 l" "frame_wf 64 f" "f = OpenUni i \<or> f = OpenBi i \<or> f = MaxStreamData i m"
  shows "fits l f"
proof -
  obtain b where "frame_encode f = Some b" using frame_codec.enc_total [OF assms(2)] by blast
  then show ?thesis
    using control_overhead(1,2) [of i b] control_overhead(3) [of i m b] max_bytes_room [OF assms(1)] assms(3) by (auto simp: fits_def)
qed

lemma transmit_frames:
  assumes "sink_works tx" "session_inv s" "outbound s = map FrameCmd fs" "session_inv r"
    and "max_bytes (limits_of s) \<le> max_ws_message_size (limits_of r)" "list_all (fits (limits_of s)) fs"
    and "handle_all fs r = (InLoop, r')"
  shows "transmit tx s r = (s\<lparr>outbound := []\<rparr>, InLoop, r')"
proof -
  have "list_all (\<lambda>f. length (enc_all [f]) \<le> max_ws_message_size (limits_of r)) fs"
    using assms(5,6) by (auto simp: list_all_iff fits_def)
  with assms(1-3,5) obtain w' gs where w: "writer_run tx (length fs) writer_new s = (OutLoop, w', s\<lparr>outbound := []\<rparr>)"
      "sent_messages (sunk w') = map (\<lambda>g. WsBinary (enc_all g)) gs" "concat gs = fs"
      "list_all (\<lambda>g. length (enc_all g) \<le> max_ws_message_size (limits_of r)) gs"
    using writer_groups by blast
  have "list_all (list_all (frame_wf 64)) gs"
    using assms(2,3) w(3) by (auto simp: session_inv_def queues_inv_def list_all_iff)
  then have "receive_all (sent_messages (sunk w')) r = (InLoop, r')"
    using receive_groups [OF assms(4), of gs] w assms(7) by simp
  then show ?thesis using w(1) assms(3) by (simp add: transmit_def)
qed

section \<open>Soundness along the way\<close>

text \<open>The invariant of the session, with the one receive handle in circulation.\<close>

definition sound :: "recv_stream list \<Rightarrow> session \<Rightarrow> bool" where
  "sound E s \<longleftrightarrow> session_inv s \<and> recvs_ok E s"

lemma sound_new: "limits_ok 64 l \<Longrightarrow> sound [] (session_inner_new server l)"
  using session_inv_new [of l server]
  by (simp add: sound_def recvs_ok_def queued_recvs_def refs_ok_def session_inner_new_def hmap_simps)

lemma sound_step: "step_ok s s' \<Longrightarrow> sound E s \<Longrightarrow> sound E s'"
  using transits_evolves [of s s' E] by (auto simp: step_ok_def sound_def transits_def)

lemma sound_write:
  assumes "sound E s" "ss_ok ss" "write_buf ss d s = (r, s')"
  shows "sound E s'"
  using write_buf_ok [of s ss d] assms transits_evolves [of s s' E] by (auto simp: write_ok_def sound_def transits_def)

lemma sound_finish: "sound E s \<Longrightarrow> ss_ok ss \<Longrightarrow> send_finish ss s = (r, s') \<Longrightarrow> sound E s'"
  using send_finish_ok(1) [of ss s] sound_step [of s s' E] by simp

lemma sound_drain: "sound E s \<Longrightarrow> sound E (s\<lparr>outbound := []\<rparr>)"
proof -
  have "step_ok s (s\<lparr>outbound := []\<rparr>)"
    by (auto simp: step_ok_def session_inv_def session_inv_parts evolves_defs)
  then show "sound E s \<Longrightarrow> sound E (s\<lparr>outbound := []\<rparr>)" by (rule sound_step)
qed

lemma sound_read:
  assumes "sound [rv] s" "recv_read_chunk mx rv s = (Ready (Inr x), rv', s')"
  shows "sound [rv'] s'"
proof -
  have "read_ok rv s rv' s'"
    using recv_read_chunk_spec [of mx rv s] assms(2) by (cases x) (simp_all add: read_spec_def)
  then have "transits [rv] s [rv'] s'" "session_inv s \<and> recv_link rv s \<longrightarrow> session_inv s'" by (simp_all add: read_ok_def)
  moreover have "recv_link rv s" using assms(1) by (simp add: sound_def recvs_ok_def)
  ultimately show ?thesis using assms(1) by (simp add: sound_def transits_def)
qed

lemma sound_handle:
  assumes "sound E s" "list_all (frame_wf 64) fs" "handle_all fs s = (InLoop, s')"
  shows "sound E s'"
proof -
  have r: "inbound_frames (enc_all fs) s = (InLoop, s')" using inbound_frames_handle_all assms(2,3) by simp
  show ?thesis
    using inbound_frames_ok [OF _ r] transits_inbound_frames [OF _ r, of E] assms(1)
    by (auto simp: sound_def transits_def)
qed

end
