(* ===== verification/Mux_Echo.thy ===== *)
theory Mux_Echo
  imports Stream_Transfer
begin

text \<open>
  Programs over mux streams: the receive loop of the example client
  (\<open>websock-mux/examples/echo-client-mux.rs\<close>), the echo task of the example server
  (\<open>websock-mux/examples/echo-server-mux.rs\<close>) and the mux endpoint of the server for the browser tests
  (\<open>websock-browser-test-server/src/main.rs\<close>), over the operations of the native session. The loops
  run up to the next \<open>await\<close> that suspends; the resumptions continue them.
\<close>

section \<open>The loops\<close>

text \<open>What is left to read, with a byte for every event.\<close>

definition read_measure :: "recv_stream \<Rightarrow> session \<Rightarrow> nat" where
  "read_measure rv s = length (rv_pending rv)
     + sum_list (map (\<lambda>e. Suc (length (ev_data e))) (items (chan_mem s (receiver rv))))"

lemma consume_measure:
  assumes "on_bytes_consumed n rv s = (rv', s')"
  shows "read_measure rv' s' = read_measure rv s"
  using assms by (cases rule: on_bytes_consumed_cases) (auto simp: read_measure_def chan_update_def)

lemma read_measure_less:
  assumes "recv_read_chunk mx rv s = (Ready (Inr (Some c)), rv', s')"
  shows "read_measure rv' s' < read_measure rv s"
proof (cases "rv_pending rv = []")
  case False
  let ?a = "min (length (rv_pending rv)) mx"
  have "mx \<noteq> 0" using assms by (cases "mx = 0") (auto simp: recv_read_chunk_def)
  then have "on_bytes_consumed (length (take ?a (rv_pending rv))) (rv\<lparr>rv_pending := drop ?a (rv_pending rv)\<rparr>) s = (rv', s')"
    using assms False by (auto simp: recv_read_chunk_def Let_def split: prod.splits)
  from consume_measure [OF this] False \<open>mx \<noteq> 0\<close> show ?thesis by (simp add: read_measure_def)
next
  case True
  then have "\<exists>e es. items (chan_mem s (receiver rv)) = e # es"
    using assms
    by (cases "items (chan_mem s (receiver rv))")
      (auto simp: recv_read_chunk_def chan_recv_def split: if_splits)
  then obtain e es where e: "items (chan_mem s (receiver rv)) = e # es" by blast
  let ?s1 = "chan_update (receiver rv) (\<lambda>c. c\<lparr>items := es\<rparr>) s"
  obtain n p b where "on_bytes_consumed n (rv\<lparr>rv_pending := drop p (ev_data e), rv_finished := b\<rparr>) ?s1 = (rv', s')"
  proof -
    have "chan_recv (receiver rv) s = (Ready (Some e), ?s1)" using e by (simp add: chan_recv_def)
    then consider n b where "on_bytes_consumed n (rv\<lparr>rv_pending := drop mx (ev_data e), rv_finished := b\<rparr>) ?s1 = (rv', s')"
      | n b where "on_bytes_consumed n (rv\<lparr>rv_finished := b\<rparr>) ?s1 = (rv', s')"
      using assms True
      by (cases rv) (auto simp: recv_read_chunk_def Let_def split: prod.splits if_splits)
    moreover have "rv\<lparr>rv_finished := b\<rparr> = rv\<lparr>rv_pending := drop (length (ev_data e)) (ev_data e), rv_finished := b\<rparr>" for b
      using True by (cases rv) simp
    ultimately show ?thesis using that by metis
  qed
  from consume_measure [OF this] e True show ?thesis by (simp add: read_measure_def chan_update_def)
qed

text \<open>\<open>while let Some(chunk) = recv.read_chunk(max).await? { .. }\<close>, with the chunks it was given.\<close>

function read_to_end ::
  "nat \<Rightarrow> recv_stream \<Rightarrow> session \<Rightarrow> bytes list \<times> (error + unit) poll \<times> recv_stream \<times> session" where
  "read_to_end mx rv s = (case recv_read_chunk mx rv s of
     (Pending, rv1, s1) \<Rightarrow> ([], Pending, rv1, s1)
   | (Ready (Inl e), rv1, s1) \<Rightarrow> ([], Ready (Inl e), rv1, s1)
   | (Ready (Inr None), rv1, s1) \<Rightarrow> ([], Ready (Inr ()), rv1, s1)
   | (Ready (Inr (Some c)), rv1, s1) \<Rightarrow> apfst ((#) c) (read_to_end mx rv1 s1))"
  by pat_completeness auto
termination
  by (relation "measure (\<lambda>(mx, rv, s). read_measure rv s)") (auto dest: read_measure_less [OF sym])

declare read_to_end.simps [simp del]

lemma write_loop_chan: "chan_mem (snd (write_loop ss d s)) = chan_mem s"
proof (induction ss d s rule: write_loop.induct)
  case (1 ss d s)
  have r: "chan_mem s1 = chan_mem s" if "reserve_poll w ss s = (q, s1)" for w q s1
    using that by (auto simp: reserve_poll_def flow_update_def Let_def split: prod.splits if_splits)
  have f: "chan_mem s2 = chan_mem s1" if "send_frame f s1 = (q, s2)" for f q s1 s2
    using that by (auto simp: send_frame_def send_frame_resume_def outbound_push_def split: if_splits frame.splits)
  show ?case
    using 1 r f
    by (subst write_loop.simps) (auto simp: flow_update_def split: prod.splits poll.splits sum.splits)
qed

lemma write_buf_chan: "chan_mem (snd (write_buf ss d s)) = chan_mem s"
proof -
  have sh: "chan_mem (shared_update r g t) = chan_mem t" for r g t by (simp add: shared_update_def)
  have e: "chan_mem (snd (end_guarded ss x)) = chan_mem (snd x)" for x :: "(wb_await, error + unit) async \<times> session"
    by (cases x; cases "fst x") (simp_all add: end_guarded_def end_operation_def sh)
  have b: "chan_mem (snd (begin_operation m ss s)) = chan_mem s" for m
    by (auto simp: begin_operation_def select_api_def sh Let_def)
  show ?thesis
    using b [of 1] by (auto simp: write_buf_def guarded_def e write_loop_chan split: prod.splits sum.splits)
qed

lemma echo_measure_less:
  assumes "recv_read_chunk mx rv s = (Ready (Inr (Some c)), rv', s')" "write_buf ss c s' = (w, s'')"
  shows "read_measure rv' s'' < read_measure rv s"
  using read_measure_less [OF assms(1)] write_buf_chan [of ss c s'] assms(2) by (simp add: read_measure_def)

datatype echo_await = EchoRead | EchoWrite wb_await

text \<open>
  \<open>while let Ok(Some(chunk)) = recv.read_chunk(max).await { if send.write_buf(chunk).await.is_err() { .. } }\<close>:
  \<open>True\<close> when the condition of the loop ended it, \<open>False\<close> after a failed write.
\<close>

function echo_loop ::
  "nat \<Rightarrow> send_stream \<Rightarrow> recv_stream \<Rightarrow> session \<Rightarrow> (echo_await, bool) async \<times> recv_stream \<times> session" where
  "echo_loop mx ss rv s = (case recv_read_chunk mx rv s of
     (Pending, rv1, s1) \<Rightarrow> (Awaiting EchoRead, rv1, s1)
   | (Ready (Inl e), rv1, s1) \<Rightarrow> (Finished True, rv1, s1)
   | (Ready (Inr None), rv1, s1) \<Rightarrow> (Finished True, rv1, s1)
   | (Ready (Inr (Some c)), rv1, s1) \<Rightarrow>
       (case write_buf ss c s1 of
          (Awaiting k, s2) \<Rightarrow> (Awaiting (EchoWrite k), rv1, s2)
        | (Finished (Inl e), s2) \<Rightarrow> (Finished False, rv1, s2)
        | (Finished (Inr _), s2) \<Rightarrow> echo_loop mx ss rv1 s2))"
  by pat_completeness auto
termination
  by (relation "measure (\<lambda>(mx, ss, rv, s). read_measure rv s)") (auto dest: echo_measure_less [OF sym sym])

declare echo_loop.simps [simp del]

definition echo_loop_resume ::
  "nat \<Rightarrow> send_stream \<Rightarrow> echo_await \<Rightarrow> recv_stream \<Rightarrow> session
     \<Rightarrow> (echo_await, bool) async \<times> recv_stream \<times> session" where
  "echo_loop_resume mx ss k rv s = (case k of
     EchoRead \<Rightarrow> echo_loop mx ss rv s
   | EchoWrite w \<Rightarrow>
       (case write_buf_resume ss w s of
          (Awaiting k1, s1) \<Rightarrow> (Awaiting (EchoWrite k1), rv, s1)
        | (Finished (Inl e), s1) \<Rightarrow> (Finished False, rv, s1)
        | (Finished (Inr _), s1) \<Rightarrow> echo_loop mx ss rv s1))"

section \<open>The example server\<close>

text \<open>
  The task spawned for an accepted stream: the loop with chunks of 1024 bytes, then \<open>finish\<close> whatever
  ended it, then the handles are dropped.
\<close>

datatype echo_task = EtLoop echo_await | EtFinish | EtDone

definition echo_finished ::
  "send_stream \<Rightarrow> recv_stream \<Rightarrow> (unit, error + unit) async \<times> session \<Rightarrow> echo_task \<times> recv_stream \<times> session" where
  "echo_finished ss rv r = (case r of
     (Awaiting _, s) \<Rightarrow> (EtFinish, rv, s) | (Finished _, s) \<Rightarrow> (EtDone, rv, drop_pair ss rv s))"

definition echo_looped ::
  "send_stream \<Rightarrow> (echo_await, bool) async \<times> recv_stream \<times> session \<Rightarrow> echo_task \<times> recv_stream \<times> session" where
  "echo_looped ss r = (case r of
     (Awaiting k, rv, s) \<Rightarrow> (EtLoop k, rv, s)
   | (Finished _, rv, s) \<Rightarrow> echo_finished ss rv (send_finish ss s))"

definition echo_task_start :: "send_stream \<Rightarrow> recv_stream \<Rightarrow> session \<Rightarrow> echo_task \<times> recv_stream \<times> session" where
  "echo_task_start ss rv s = echo_looped ss (echo_loop 1024 ss rv s)"

fun echo_task_resume ::
  "send_stream \<Rightarrow> echo_task \<Rightarrow> recv_stream \<Rightarrow> session \<Rightarrow> echo_task \<times> recv_stream \<times> session" where
  "echo_task_resume ss (EtLoop k) rv s = echo_looped ss (echo_loop_resume 1024 ss k rv s)"
| "echo_task_resume ss EtFinish rv s = echo_finished ss rv (send_finish_resume ss s)"
| "echo_task_resume ss EtDone rv s = (EtDone, rv, s)"

text \<open>The task of a session: it spawns an echo task for every accepted stream until accepting fails.\<close>

datatype echo_accept = AcceptWait | AcceptSpawn send_stream recv_stream | AcceptDone

definition echo_accept_next :: "session \<Rightarrow> echo_accept \<times> session" where
  "echo_accept_next s = (case accept_bi s of
     (Pending, s1) \<Rightarrow> (AcceptWait, s1)
   | (Ready (Inl e), s1) \<Rightarrow> (AcceptDone, session_drop s1)
   | (Ready (Inr (ss, rv)), s1) \<Rightarrow> (AcceptSpawn ss rv, s1))"

section \<open>The mux endpoint of the test server\<close>

text \<open>
  It serves the streams of a session one after the other, with chunks of 16384 bytes, and gives up on
  the session when a write or a finish fails. The variables of an iteration are dropped in reverse
  order of their declaration.
\<close>

datatype srv_mux = SrvAccept | SrvEcho send_stream recv_stream echo_await | SrvFinish send_stream recv_stream | SrvEnd

definition srv_drop :: "send_stream \<Rightarrow> recv_stream \<Rightarrow> session \<Rightarrow> session" where
  "srv_drop ss rv s = send_stream_drop ss (recv_stream_drop rv s)"

definition srv_finished ::
  "send_stream \<Rightarrow> recv_stream \<Rightarrow> (unit, error + unit) async \<times> session \<Rightarrow> srv_mux \<times> session" where
  "srv_finished ss rv r = (case r of
     (Awaiting _, s) \<Rightarrow> (SrvFinish ss rv, s)
   | (Finished (Inl e), s) \<Rightarrow> (SrvEnd, session_drop (srv_drop ss rv s))
   | (Finished (Inr _), s) \<Rightarrow> (SrvAccept, srv_drop ss rv s))"

definition srv_looped ::
  "send_stream \<Rightarrow> (echo_await, bool) async \<times> recv_stream \<times> session \<Rightarrow> srv_mux \<times> session" where
  "srv_looped ss r = (case r of
     (Awaiting k, rv, s) \<Rightarrow> (SrvEcho ss rv k, s)
   | (Finished False, rv, s) \<Rightarrow> (SrvEnd, session_drop (srv_drop ss rv s))
   | (Finished True, rv, s) \<Rightarrow> srv_finished ss rv (send_finish ss s))"

text \<open>One poll, up to the next \<open>await\<close> that suspends or the next turn of the accept loop.\<close>

fun srv_mux_poll :: "srv_mux \<Rightarrow> session \<Rightarrow> srv_mux \<times> session" where
  "srv_mux_poll SrvAccept s = (case accept_bi s of
     (Pending, s1) \<Rightarrow> (SrvAccept, s1)
   | (Ready (Inl e), s1) \<Rightarrow> (SrvEnd, session_drop s1)
   | (Ready (Inr (ss, rv)), s1) \<Rightarrow> srv_looped ss (echo_loop (16 * 1024) ss rv s1))"
| "srv_mux_poll (SrvEcho ss rv k) s = srv_looped ss (echo_loop_resume (16 * 1024) ss k rv s)"
| "srv_mux_poll (SrvFinish ss rv) s = srv_finished ss rv (send_finish_resume ss s)"
| "srv_mux_poll SrvEnd s = (SrvEnd, s)"

section \<open>Echoing exactly\<close>

text \<open>
  The specification of an echo of the bytes \<open>d\<close>: the queue grows by data frames of the stream whose
  payloads are the bytes read, in order and without gaps. When the loop waits for the peer it has echoed
  everything that arrived, when it waits for credit or room it holds the rest of one chunk, and when a
  write failed at most a part of one chunk is missing.
\<close>

definition echo_spec ::
  "send_stream \<Rightarrow> bytes \<Rightarrow> session \<Rightarrow> (echo_await, bool) async \<times> recv_stream \<times> session \<Rightarrow> bool" where
  "echo_spec ss d s r \<longleftrightarrow> (case r of (a, rv', s') \<Rightarrow> \<exists>cs.
     outbound s' = outbound s @ data_cmds (ss_id ss) cs \<and> list_all (\<lambda>c. c \<noteq> []) cs
     \<and> (case a of
          Awaiting EchoRead \<Rightarrow> d = concat cs \<and> contents rv' s' = []
        | Awaiting (EchoWrite k) \<Rightarrow> d = concat cs @ wb_rest k @ contents rv' s'
        | Finished True \<Rightarrow> d = concat cs @ contents rv' s' \<and> rv_finished rv' \<and> rv_pending rv' = []
        | Finished False \<Rightarrow> \<exists>lost. d = concat cs @ lost @ contents rv' s'))"

lemma echo_spec_prefix:
  assumes "echo_spec ss d t r" "outbound t = outbound s @ data_cmds (ss_id ss) cs" "list_all (\<lambda>c. c \<noteq> []) cs"
  shows "echo_spec ss (concat cs @ d) s r"
proof -
  obtain a rv' s' where r: "r = (a, rv', s')" by (cases r)
  obtain ds where ds: "outbound s' = outbound t @ data_cmds (ss_id ss) ds" "list_all (\<lambda>c. c \<noteq> []) ds"
      "case a of Awaiting EchoRead \<Rightarrow> d = concat ds \<and> contents rv' s' = []
        | Awaiting (EchoWrite k) \<Rightarrow> d = concat ds @ wb_rest k @ contents rv' s'
        | Finished True \<Rightarrow> d = concat ds @ contents rv' s' \<and> rv_finished rv' \<and> rv_pending rv' = []
        | Finished False \<Rightarrow> \<exists>lost. d = concat ds @ lost @ contents rv' s'"
    using assms(1) r by (auto simp: echo_spec_def)
  show ?thesis
    unfolding echo_spec_def r prod.case
    by (rule exI [of _ "cs @ ds"])
      (use ds assms(2,3) in \<open>auto simp: data_cmds_def split: async.splits echo_await.splits bool.splits\<close>)
qed

lemma write_spec_pieces:
  assumes "write_spec ss c s (a, s')"
  obtains cs where "outbound s' = outbound s @ data_cmds (ss_id ss) cs" "list_all (\<lambda>c. c \<noteq> []) cs"
    "case a of Finished (Inr _) \<Rightarrow> concat cs = c | Finished (Inl e) \<Rightarrow> (\<exists>rest. c = concat cs @ rest)
       | Awaiting k \<Rightarrow> c = concat cs @ wb_rest k"
  using assms by (fastforce simp: write_spec_def list_all_iff split: async.splits sum.splits)

text \<open>What a write inside the loop leads to, given what follows a successful one.\<close>

lemma echo_after_write:
  assumes "write_spec ss c s (a, s')" "contents rv s' = rest"
    and "\<And>u. a = Finished (Inr u) \<Longrightarrow> echo_spec ss rest s' (next s')"
  shows "echo_spec ss (c @ rest) s (case a of
      Awaiting k \<Rightarrow> (Awaiting (EchoWrite k), rv, s')
    | Finished (Inl e) \<Rightarrow> (Finished False, rv, s')
    | Finished (Inr _) \<Rightarrow> next s')"
proof -
  obtain cs where cs: "outbound s' = outbound s @ data_cmds (ss_id ss) cs" "list_all (\<lambda>c. c \<noteq> []) cs"
    "case a of Finished (Inr _) \<Rightarrow> concat cs = c | Finished (Inl e) \<Rightarrow> (\<exists>rest. c = concat cs @ rest)
       | Awaiting k \<Rightarrow> c = concat cs @ wb_rest k"
    using write_spec_pieces [OF assms(1)] .
  show ?thesis
  proof (cases a)
    case (Awaiting k)
    then show ?thesis using cs assms(2) by (auto simp: echo_spec_def)
  next
    case (Finished x)
    show ?thesis
    proof (cases x)
      case (Inl e)
      then show ?thesis using Finished cs assms(2) by (fastforce simp: echo_spec_def)
    next
      case (Inr u)
      then show ?thesis using Finished cs echo_spec_prefix [OF assms(3) cs(1,2)] by simp
    qed
  qed
qed

lemma consume_outbound: "on_bytes_consumed n rv s = (rv', s') \<Longrightarrow> outbound s' = outbound s"
  by (cases rule: on_bytes_consumed_cases)
    (auto simp: queue_credit_def request_shutdown_def chan_update_def Let_def split: option.splits)

lemma read_chunk_frame:
  assumes "recv_read_chunk mx rv s = (q, rv', s')"
  shows "outbound s' = outbound s" "q = Ready (Inr None) \<Longrightarrow> rv_pending rv' = []"
proof -
  have ch: "outbound t = outbound s" if "chan_recv r s = (x, t)" for r x t
    using that by (auto simp: chan_recv_def chan_update_def split: list.splits)
  show "outbound s' = outbound s"
    using assms consume_outbound ch
    by (cases "mx = 0"; cases "rv_pending rv = []"; cases "rv_finished rv"; cases "chan_recv (receiver rv) s")
      (auto simp: recv_read_chunk_def Let_def split: prod.splits poll.splits option.splits if_splits)
  show "q = Ready (Inr None) \<Longrightarrow> rv_pending rv' = []"
    using assms
    by (cases "mx = 0"; cases "rv_pending rv = []"; cases "rv_finished rv"; cases "chan_recv (receiver rv) s")
      (auto simp: recv_read_chunk_def Let_def split: prod.splits poll.splits option.splits if_splits)
qed

lemma echo_loop_exact:
  "sound [rv] s \<Longrightarrow> ss_ok ss \<Longrightarrow> 0 < mx \<Longrightarrow> echo_spec ss (contents rv s) s (echo_loop mx ss rv s)"
proof (induction mx ss rv s rule: echo_loop.induct)
  case (1 mx ss rv s)
  obtain q rv1 s1 where r: "recv_read_chunk mx rv s = (q, rv1, s1)" by (cases "recv_read_chunk mx rv s")
  have spec: "read_spec mx rv s (q, rv1, s1)" using recv_read_chunk_spec [of mx rv s] r by simp
  note frame = read_chunk_frame [OF r]
  show ?case
  proof (cases q)
    case Pending
    then show ?thesis using r spec by (auto simp: echo_loop.simps [of mx ss rv s] read_spec_def echo_spec_def data_cmds_def)
  next
    case (Ready x)
    show ?thesis
    proof (cases "\<exists>c. x = Inr (Some c)")
      case False
      then show ?thesis
        using r spec Ready "1.prems"(3) frame
        by (auto simp: echo_loop.simps [of mx ss rv s] read_spec_def echo_spec_def data_cmds_def split: sum.splits option.splits)
    next
      case True
      then obtain c where x: "x = Inr (Some c)" by blast
      then have r': "recv_read_chunk mx rv s = (Ready (Inr (Some c)), rv1, s1)" using r Ready by simp
      have inv1: "sound [rv1] s1" by (rule sound_read [OF "1.prems"(1) r'])
      obtain w s2 where w: "write_buf ss c s1 = (w, s2)" by fastforce
      have ws: "write_spec ss c s1 (w, s2)"
        using write_buf_spec [of s1 ss c] inv1 "1.prems"(2) w by (simp add: sound_def)
      have inv2: "sound [rv1] s2" by (rule sound_write [OF inv1 "1.prems"(2) w])
      have c2: "contents rv1 s2 = contents rv1 s1" using write_buf_chan [of ss c s1] w by (simp add: contents_def)
      have "echo_spec ss (c @ contents rv1 s1) s1 (case w of
          Awaiting k \<Rightarrow> (Awaiting (EchoWrite k), rv1, s2)
        | Finished (Inl e) \<Rightarrow> (Finished False, rv1, s2)
        | Finished (Inr _) \<Rightarrow> echo_loop mx ss rv1 s2)"
      proof (rule echo_after_write [OF ws c2])
        fix u assume "w = Finished (Inr u)"
        with "1.IH" [OF r' [symmetric] refl refl refl refl w [symmetric] _ refl inv2 "1.prems"(2,3)]
        show "echo_spec ss (contents rv1 s1) s2 (echo_loop mx ss rv1 s2)" using c2 by simp
      qed
      moreover have "contents rv s = c @ contents rv1 s1" using spec Ready x by (simp add: read_spec_def)
      moreover have "echo_loop mx ss rv s = (case w of
          Awaiting k \<Rightarrow> (Awaiting (EchoWrite k), rv1, s2)
        | Finished (Inl e) \<Rightarrow> (Finished False, rv1, s2)
        | Finished (Inr _) \<Rightarrow> echo_loop mx ss rv1 s2)"
        using r' w by (simp add: echo_loop.simps [of mx ss rv s])
      ultimately show ?thesis using frame(1) by (simp add: echo_spec_def)
    qed
  qed
qed

fun echo_held :: "echo_await \<Rightarrow> bytes" where
  "echo_held EchoRead = []"
| "echo_held (EchoWrite k) = wb_rest k"

text \<open>A suspended write holds a piece within the limits, and its credit is accounted for.\<close>

fun echo_await_ok :: "send_stream \<Rightarrow> echo_await \<Rightarrow> session \<Rightarrow> bool" where
  "echo_await_ok ss EchoRead s \<longleftrightarrow> True"
| "echo_await_ok ss (EchoWrite k) s \<longleftrightarrow> wb_ok (limits_of s) k
     \<and> wb_await_held k \<le> unat (sent_data (flow_mem s (ss_flow ss)))"

lemma sound_release: "session_inv s \<Longrightarrow> n \<le> unat (sent_data (flow_mem s r)) \<Longrightarrow>
    recvs_ok E (flow_update r (release n) s) = recvs_ok E s"
  by (simp add: flow_update_def recvs_ok_def refs_ok_def queued_recvs_def recv_link_def unread_def)

lemma write_buf_resume_chan: "chan_mem (snd (write_buf_resume ss k s)) = chan_mem s"
proof -
  have e: "chan_mem (snd (end_guarded ss x)) = chan_mem (snd x)" for x :: "(wb_await, error + unit) async \<times> session"
    by (cases x; cases "fst x") (simp_all add: end_guarded_def end_operation_def shared_update_def)
  have f: "chan_mem (snd (send_frame_resume f s)) = chan_mem s" for f
    by (auto simp: send_frame_resume_def outbound_push_def split: frame.splits)
  show ?thesis
  proof (cases k)
    case (WbSend rest n)
    obtain p s1 where p: "send_frame_resume (Stream (ss_id ss) (take n rest) False) s = (p, s1)" by fastforce
    then have "chan_mem s1 = chan_mem s" using f [of "Stream (ss_id ss) (take n rest) False"] by simp
    then show ?thesis
      using WbSend p by (auto simp: e write_loop_chan flow_update_def split: poll.splits sum.splits)
  qed (simp add: e write_loop_chan)
qed

lemma sound_write_resume:
  assumes "sound E s" "ss_ok ss" "echo_await_ok ss (EchoWrite k) s" "write_buf_resume ss k s = (w, s')"
  shows "sound E s'"
proof -
  let ?t = "flow_update (ss_flow ss) (release (wb_await_held k)) s"
  have "write_ok ss ?t (w, s')"
    using write_buf_resume_ok [of s ss k] assms by (cases k) (auto simp: sound_def)
  then have "session_inv s'" "transits E ?t E s'" using transits_evolves by (auto simp: write_ok_def)
  then show ?thesis using assms(1,3) sound_release [of s _ _ E] by (auto simp: sound_def transits_def)
qed

lemma echo_resume_exact:
  assumes "sound [rv] s" "ss_ok ss" "0 < mx" "echo_await_ok ss k s"
  shows "echo_spec ss (echo_held k @ contents rv s) s (echo_loop_resume mx ss k rv s)"
proof (cases k)
  case EchoRead
  then show ?thesis using echo_loop_exact [OF assms(1-3)] by (simp add: echo_loop_resume_def)
next
  case (EchoWrite w)
  let ?t = "flow_update (ss_flow ss) (release (wb_await_held w)) s"
  obtain a s' where a: "write_buf_resume ss w s = (a, s')" by fastforce
  have "write_spec ss (wb_rest w) ?t (a, s')"
    using write_resume_exact [of s ss w] assms EchoWrite a by (simp add: sound_def)
  moreover have inv: "sound [rv] s'" using sound_write_resume [OF assms(1,2) _ a] assms(4) EchoWrite by simp
  moreover have c: "contents rv s' = contents rv s" using write_buf_resume_chan [of ss w s] a by (simp add: contents_def)
  ultimately have "echo_spec ss (wb_rest w @ contents rv s) ?t (case a of
      Awaiting k \<Rightarrow> (Awaiting (EchoWrite k), rv, s')
    | Finished (Inl e) \<Rightarrow> (Finished False, rv, s')
    | Finished (Inr _) \<Rightarrow> echo_loop mx ss rv s')"
    using echo_loop_exact [OF inv assms(2,3)] by (intro echo_after_write) (simp_all add: c)
  then show ?thesis using EchoWrite a by (simp add: echo_loop_resume_def echo_spec_def flow_update_def)
qed


lemma demo_sound: "sound [demo_stream] demo_session"
proof -
  have "sys_inv demo_sys" by (rule session_system.reachable_inv [OF demo_reachable])
  then show ?thesis by (simp add: sys_inv_def sound_def demo_sys_def sys_start_def app_recvs_def)
qed


end
