(* ===== verification/Echo_Roundtrip.thy ===== *)
theory Echo_Roundtrip
  imports Mux_Echo
begin

text \<open>
  The round trip of the example programs over two fresh sessions: the client opens a bidirectional stream,
  writes and finishes, the server accepts and echoes, and the client reads to the end.
\<close>

section \<open>Loops over a delivered stream\<close>

lemma read_to_end_delivered:
  "reading rv p cs s \<Longrightarrow> list_all (\<lambda>c. c \<noteq> []) cs \<Longrightarrow> 0 < mx \<Longrightarrow>
     \<exists>rv' s'. read_to_end mx rv s = (read_list mx p cs, Ready (Inr ()), rv', s')"
proof (induction "length (read_list mx p cs)" arbitrary: rv p cs s rule: less_induct)
  case less
  from less.prems show ?case
  proof (cases rule: read_next)
    case (chunk c rv' s' p' cs')
    then obtain rv'' s'' where "read_to_end mx rv' s' = (read_list mx p' cs', Ready (Inr ()), rv'', s'')"
      using less.hyps [of p' cs' rv' s'] less.prems(3) by auto
    then show ?thesis using chunk by (simp add: read_to_end.simps [of mx rv s])
  next
    case (fin s')
    then show ?thesis by (simp add: read_to_end.simps [of mx rv s])
  qed
qed

lemma only_reads_ready:
  assumes "only_reads rv s rv' s'"
  shows "handle_ready ss s' = handle_ready ss s" "flow_ready ss s' = flow_ready ss s"
    "has_credit n ss s' = has_credit n ss s" "limits_of s' = limits_of s" "outbound s' = outbound s"
  using assms
  by (auto simp: only_reads_def handle_ready_def flow_ready_def has_credit_def session_is_closed_def)

lemma written_ready:
  assumes "handle_ready ss s" "flow_ready ss s" "max_data f = max_data (flow_mem s (ss_flow ss))" "flow_ok f" "\<not> flow_closed f"
    and "unat (sent_data f) = unat (sent_data (flow_mem s (ss_flow ss))) + n" "has_credit (n + m) ss s"
    and "s' = direct_mode False ss (queued ss cs f s)"
  shows "handle_ready ss s'" "flow_ready ss s'" "has_credit m ss s'" "limits_of s' = limits_of s"
    "outbound s' = outbound s @ data_cmds (ss_id ss) cs" "reading rv p ds s' = reading rv p ds s"
  using assms
  by (simp_all add: direct_mode_def handle_ready_def flow_ready_def has_credit_def session_is_closed_def
      queued_def shared_update_def reading_def Let_def)

lemma echo_loop_delivered:
  "reading rv p cs s \<Longrightarrow> list_all (\<lambda>c. c \<noteq> []) cs \<Longrightarrow> 0 < mx \<Longrightarrow> handle_ready ss s \<Longrightarrow> flow_ready ss s
   \<Longrightarrow> has_credit (length (concat (read_list mx p cs))) ss s \<Longrightarrow> 0 < write_piece (limits_of s)
   \<Longrightarrow> length (outbound s) + length (concat (map (chunks (write_piece (limits_of s))) (read_list mx p cs)))
         \<le> outbound_queue_len (limits_of s)
   \<Longrightarrow> sound [rv] s \<Longrightarrow> ss_ok ss
   \<Longrightarrow> \<exists>rv' s'. echo_loop mx ss rv s = (Finished True, rv', s') \<and> sound [rv'] s'
       \<and> outbound s' = outbound s @ data_cmds (ss_id ss) (concat (map (chunks (write_piece (limits_of s))) (read_list mx p cs)))
       \<and> handle_ready ss s' \<and> flow_ready ss s' \<and> limits_of s' = limits_of s
       \<and> rv_id rv' = rv_id rv \<and> hm_get (streams s') (rv_id rv) = None"
proof (induction "length (read_list mx p cs)" arbitrary: rv p cs s rule: less_induct)
  case less
  let ?k = "write_piece (limits_of s)"
  from less.prems(1-3) show ?case
  proof (cases rule: read_next)
    case (chunk c rv1 s1 p' cs')
    note rd = only_reads_ready [OF chunk(4)]
    have sound1: "sound [rv1] s1" by (rule sound_read [OF less.prems(9) chunk(1)])
    have credit: "has_credit (length c + length (concat (read_list mx p' cs'))) ss s1"
      using less.prems(6) rd chunk(2) by simp
    have "has_credit (length c) ss s1" using credit by (simp add: has_credit_def)
    moreover have "length (outbound s1) + length (chunks (write_piece (limits_of s1)) c) \<le> outbound_queue_len (limits_of s1)"
      using less.prems(8) rd chunk(2) by simp
    ultimately obtain f where f: "write_buf ss c s1 = (Finished (Inr ()), direct_mode False ss (queued ss (chunks (write_piece (limits_of s1)) c) f s1))"
        "max_data f = max_data (flow_mem s1 (ss_flow ss))" "flow_ok f" "\<not> flow_closed f"
        "unat (sent_data f) = unat (sent_data (flow_mem s1 (ss_flow ss))) + length c"
      using write_buf_all [of ss s1 c] less.prems(4,5,7) rd by metis
    define s2 where "s2 = direct_mode False ss (queued ss (chunks ?k c) f s1)"
    have w: "write_buf ss c s1 = (Finished (Inr ()), s2)" using f(1) rd(4) by (simp add: s2_def)
    note wr = written_ready [of ss s1 f "length c" "length (concat (read_list mx p' cs'))" s2 "chunks ?k c", OF _ _ f(2-5) credit s2_def]
    have s2: "handle_ready ss s2" "flow_ready ss s2" "has_credit (length (concat (read_list mx p' cs'))) ss s2"
        "limits_of s2 = limits_of s" "outbound s2 = outbound s @ data_cmds (ss_id ss) (chunks ?k c)" "reading rv1 p' cs' s2"
      using wr less.prems(4,5) rd chunk(3) by simp_all
    have len: "length (data_cmds i xs) = length xs" for i xs by (simp add: data_cmds_def)
    have "\<exists>rv' s'. echo_loop mx ss rv1 s2 = (Finished True, rv', s') \<and> sound [rv'] s'
       \<and> outbound s' = outbound s2 @ data_cmds (ss_id ss) (concat (map (chunks (write_piece (limits_of s2))) (read_list mx p' cs')))
       \<and> handle_ready ss s' \<and> flow_ready ss s' \<and> limits_of s' = limits_of s2
       \<and> rv_id rv' = rv_id rv1 \<and> hm_get (streams s') (rv_id rv1) = None"
      by (rule less.hyps) (use chunk s2 less.prems len sound_write [OF sound1 less.prems(10) w] in auto)
    moreover have "echo_loop mx ss rv s = echo_loop mx ss rv1 s2"
      using chunk(1) w by (simp add: echo_loop.simps [of mx ss rv s])
    moreover have "rv_id rv1 = rv_id rv" using chunk(4) by (simp add: only_reads_def)
    ultimately show ?thesis using s2 chunk(2) by (auto simp: data_cmds_def)
  next
    case (fin s')
    have "sound [rv\<lparr>rv_finished := True\<rparr>] s'" by (rule sound_read [OF less.prems(9) fin(1)])
    moreover have "hm_get (streams s') (rv_id rv) = None"
      using fin(3) less.prems(1) by (auto simp: only_reads_def reading_def)
    ultimately show ?thesis
      using fin only_reads_ready [OF fin(3)] less.prems(4,5)
      by (simp add: echo_loop.simps [of mx ss rv s] data_cmds_def)
  qed
qed

section \<open>Opening over fresh sessions\<close>

definition window :: "limits \<Rightarrow> u64" where
  "window l = of_nat (initial_stream_window l)"

text \<open>
  An endpoint of a bidirectional stream that has not been used: its reader has granted the initial
  window, and its writer may send \<open>m\<close> bytes.
\<close>

definition recv_end :: "stream_id \<Rightarrow> recv_stream \<Rightarrow> session \<Rightarrow> bool" where
  "recv_end i rv s \<longleftrightarrow> rv_id rv = i \<and> rv_pending rv = [] \<and> \<not> rv_finished rv \<and> sound [rv] s
     \<and> (\<exists>st. feeds i st rv s \<and> received st = 0)
     \<and> chan_mem s (receiver rv) = \<lparr>items = [], rx_open = True, chan_max = window (limits_of s)\<rparr>"

definition endpoint :: "stream_id \<Rightarrow> u64 \<Rightarrow> send_stream \<Rightarrow> recv_stream \<Rightarrow> session \<Rightarrow> bool" where
  "endpoint i m ss rv s \<longleftrightarrow> ss_id ss = i \<and> ss_ok ss \<and> handle_ready ss s \<and> flow_ready ss s
     \<and> sent_data (flow_mem s (ss_flow ss)) = 0 \<and> max_data (flow_mem s (ss_flow ss)) = m \<and> recv_end i rv s"

lemma recv_end_frame:
  assumes "recv_end i rv s" "sound [rv] s'" "streams s' = streams s" "chan_mem s' = chan_mem s" "limits_of s' = limits_of s"
  shows "recv_end i rv s'"
  using assms by (auto simp: recv_end_def feeds_def)

definition bi_id :: stream_id where
  "bi_id = StreamId 0"

lemma bi_id_facts: "stream_id_new 0 False Bi = Inr bi_id" "stream_id_dir bi_id = Bi" "\<not> initiator_is_server bi_id"
    "stream_id_counter bi_id = 0" "in_varint (sid bi_id)"
  by (simp_all add: bi_id_def stream_id_new_def checked_mul_def from_u64_def varint_MAX_def stream_id_dir_def
      initiator_is_server_def stream_id_counter_def in_varint_def)

lemmas open_bi_run = open_bi_def next_stream_id_def register_send_flow_def register_recv_stream_def recv_stream_new_def
  open_bi_result_def open_bi_credit_result_def send_stream_new_def initial_credit_frame_def send_frame_def
  send_frame_resume_def session_is_closed_def outbound_full_def outbound_push_def

lemma open_bi_fresh:
  assumes "limits_ok 64 l" "2 \<le> outbound_queue_len l"
  obtains ss rv s where "open_bi (session_inner_new False l) = (Finished (Inr (ss, rv)), s)" "endpoint bi_id 0 ss rv s"
    "limits_of s = l" "outbound s = map FrameCmd [OpenBi bi_id, MaxStreamData bi_id (window l)]"
proof -
  let ?s0 = "session_inner_new False l"
  define ss where "ss = \<lparr>ss_id = bi_id, ss_shared = 2, ss_flow = 0, flush_waiter = None, fin_queued = False\<rparr>"
  define rv where "rv = recv_stream_new bi_id 1 (window l) (of_nat (stream_window_update_threshold l))"
  obtain s where s: "open_bi ?s0 = (Finished (Inr (ss, rv)), s)"
      "s = ?s0\<lparr>next_bi := 1, next_ref := 3, flow_mem := (flow_mem ?s0)(0 := flow_new 0), send_flows := [(bi_id, 0)],
         chan_mem := (chan_mem ?s0)(1 := \<lparr>items = [], rx_open = True, chan_max = window l\<rparr>),
         streams := [(bi_id, \<lparr>stopped = False, sender = 1, received = 0\<rparr>)],
         outbound := map FrameCmd [OpenBi bi_id, MaxStreamData bi_id (window l)],
         shared_mem := (shared_mem ?s0)(2 := \<lparr>ss_finished = False, operation = False, api_mode = 0, handles = 1\<rparr>)\<rparr>"
    using assms
    by (simp add: open_bi_run session_inner_new_def bi_id_facts hmap_simps hm_contains_def hm_insert_def hm_remove_def
        limits_ok_def window_def rv_def ss_def numeral_2_eq_2 numeral_3_eq_3 Let_def)
  have "sound [rv] s"
    using open_bi_ok [OF session_inv_new [OF assms(1)] s(1), of "[]"] sound_new [OF assms(1), of False]
    by (simp add: sound_def transits_def)
  then have "endpoint bi_id 0 ss rv s"
    using s(2) bi_id_facts
    by (simp add: endpoint_def recv_end_def ss_def rv_def recv_stream_new_def ss_ok_def handle_ready_def flow_ready_def feeds_def
        session_inner_new_def session_is_closed_def hm_get_def flow_new_def flow_ok_def)
  then show ?thesis using that s by (simp add: session_inner_new_def)
qed

lemmas handle_bi_run = handle_open_bi_def peer_is_server_def validate_peer_stream_id_def
  try_register_inbound_recv_stream_def register_recv_stream_def recv_stream_new_def initial_credit_frame_def
  send_frame_def send_frame_resume_def session_is_closed_def outbound_full_def outbound_push_def
  initial_credit_result_def open_bi_registered_def register_send_flow_def send_stream_new_def deliver_bi_def
  saturating_add_def handle_max_data_def flow_update_def update_max_def

lemma window_pos: "limits_ok 64 l \<Longrightarrow> 0 < window l" "limits_ok 64 l \<Longrightarrow> unat (window l) = initial_stream_window l"
  "limits_ok 64 l \<Longrightarrow> in_varint (window l)"
proof -
  assume "limits_ok 64 l"
  then have w: "initial_stream_window l < 2 ^ 62" "0 < initial_stream_window l" by (simp_all add: limits_ok_def)
  then show u: "unat (window l) = initial_stream_window l" by (simp add: window_def unat_of_nat_u64)
  show "0 < window l" using w u by (metis unat_gt_0 word_gt_0 gr_zeroI unat_0)
  show "in_varint (window l)" using w u by (simp add: in_varint_def)
qed

lemma accept_bi_fresh:
  assumes "limits_ok 64 l" "0 < m" "in_varint m"
  obtains ss rv r1 r2 where "handle_all [OpenBi bi_id, MaxStreamData bi_id m] (session_inner_new True l) = (InLoop, r1)"
    "accept_bi r1 = (Ready (Inr (ss, rv)), r2)" "endpoint bi_id m ss rv r2" "limits_of r2 = l"
    "outbound r2 = map FrameCmd [MaxStreamData bi_id (window l)]"
proof -
  let ?s0 = "session_inner_new True l"
  define ss where "ss = \<lparr>ss_id = bi_id, ss_shared = Suc (Suc 0), ss_flow = Suc 0, flush_waiter = None, fin_queued = False\<rparr>"
  define rv where "rv = recv_stream_new bi_id 0 (window l) (of_nat (stream_window_update_threshold l))"
  define r1 where "r1 = ?s0\<lparr>next_peer_bi := 1, next_ref := Suc (Suc (Suc 0)),
         chan_mem := (chan_mem ?s0)(0 := \<lparr>items = [], rx_open = True, chan_max = window l\<rparr>),
         streams := [(bi_id, \<lparr>stopped = False, sender = 0, received = 0\<rparr>)],
         outbound := map FrameCmd [MaxStreamData bi_id (window l)],
         flow_mem := (flow_mem ?s0)(Suc 0 := (flow_new 0)\<lparr>max_data := m\<rparr>), send_flows := [(bi_id, Suc 0)],
         shared_mem := (shared_mem ?s0)(Suc (Suc 0) := \<lparr>ss_finished = False, operation = False, api_mode = 0, handles = 1\<rparr>),
         accept_bi_queue := [(ss, rv)]\<rparr>"
  have h: "handle_all [OpenBi bi_id, MaxStreamData bi_id m] ?s0 = (InLoop, r1)"
    using assms(1,2)
    by (simp add: handle_bi_run session_inner_new_def bi_id_facts hmap_simps hm_contains_def hm_insert_def hm_remove_def
        limits_ok_def window_def rv_def ss_def r1_def flow_new_def waker_wake_def Let_def)
  define r2 where "r2 = r1\<lparr>accept_bi_queue := []\<rparr>"
  have a: "accept_bi r1 = (Ready (Inr (ss, rv)), r2)" by (simp add: accept_bi_def r1_def r2_def)
  have "list_all (frame_wf 64) [OpenBi bi_id, MaxStreamData bi_id m]"
    using assms(3) bi_id_facts by (simp add: frame_wf_control)
  then have "sound [] r1" using sound_handle [OF sound_new [OF assms(1)] _ h] by simp
  then have "sound [rv] r2" using accept_bi_ok(1,3) [OF a] by (simp add: sound_def transits_def)
  then have "endpoint bi_id m ss rv r2"
    using bi_id_facts
    by (simp add: endpoint_def recv_end_def ss_def rv_def recv_stream_new_def ss_ok_def handle_ready_def flow_ready_def feeds_def
        session_inner_new_def session_is_closed_def hm_get_def flow_new_def flow_ok_def r1_def r2_def)
  then show ?thesis using that h a by (simp add: r1_def r2_def session_inner_new_def)
qed

lemma endpoint_granted:
  assumes "endpoint i 0 ss rv s" "0 < m" "in_varint m" "in_varint (sid i)"
  obtains s' where "handle_all [MaxStreamData i m] s = (InLoop, s')" "endpoint i m ss rv s'"
    "limits_of s' = limits_of s" "outbound s' = outbound s"
proof -
  let ?s' = "handle_max_data i m s"
  have h: "handle_all [MaxStreamData i m] s = (InLoop, ?s')" by simp
  have "sound [rv] ?s'"
    using sound_handle [OF _ _ h] assms by (simp add: endpoint_def recv_end_def frame_wf_control)
  moreover have "hm_get (send_flows s) i = Some (ss_flow ss)" "\<not> flow_closed (flow_mem s (ss_flow ss))"
    using assms(1) by (auto simp: endpoint_def flow_ready_def)
  ultimately have "endpoint i m ss rv ?s'" "limits_of ?s' = limits_of s" "outbound ?s' = outbound s"
    using assms(1,2)
    by (auto simp: endpoint_def recv_end_def handle_max_data_def flow_update_def update_max_def handle_ready_def flow_ready_def
        feeds_def session_is_closed_def flow_ok_def)
  then show ?thesis using that h by blast
qed

lemma endpoint_drain: "endpoint i m ss rv s \<Longrightarrow> endpoint i m ss rv (s\<lparr>outbound := []\<rparr>)"
  using sound_drain [of "[rv]" s]
  by (auto simp: endpoint_def recv_end_def handle_ready_def flow_ready_def feeds_def session_is_closed_def)

section \<open>One direction\<close>

text \<open>The limits of a sender suit those of a receiver: no message and no frame is too large for it.\<close>

definition suits :: "limits \<Rightarrow> limits \<Rightarrow> bool" where
  "suits l l' \<longleftrightarrow> max_bytes l \<le> max_ws_message_size l' \<and> write_piece l \<le> max_stream_data_per_frame l'"

lemma suits_refl: "suits l l"
  by (simp add: suits_def max_bytes_def write_piece_def)

lemma data_cmds_fin: "data_cmds i cs @ [FrameCmd (fin_frame i)] = map FrameCmd (fin_frames i cs)"
  by (simp add: data_cmds_def fin_frames_def)

lemma fin_frames_ok:
  assumes "limits_ok 64 l" "in_varint (sid i)" "list_all (\<lambda>c. length c \<le> write_piece l) cs"
  shows "list_all (fits l) (fin_frames i cs)" "list_all (frame_wf 64) (fin_frames i cs)"
proof -
  have wf: "frame_wf 64 (Stream i c fin)" if "length c \<le> write_piece l" for c fin
    using that assms(2) by (intro stream_frame_wf) (auto simp: write_piece_def MAX_WRITE_CHUNK_def)
  have "fits l (Stream i c fin)" if "length c \<le> write_piece l" for c fin
    using that by (intro fits_stream [OF assms(1) _ wf]) (auto simp: write_piece_def)
  with wf assms(3) show "list_all (fits l) (fin_frames i cs)" "list_all (frame_wf 64) (fin_frames i cs)"
    by (auto simp: fin_frames_def fin_frame_def list_all_iff)
qed

text \<open>Data and FIN that wait in the queue of one endpoint reach the reader of the other.\<close>

lemma transmit_fin:
  assumes "sink_works tx" "session_inv s" "outbound s = map FrameCmd (fin_frames i cs)"
    and "recv_end i rv r" "suits (limits_of s) (limits_of r)" "in_varint (sid i)"
    and "list_all (\<lambda>c. c \<noteq> [] \<and> length c \<le> write_piece (limits_of s)) cs"
    and "length (concat cs) \<le> initial_stream_window (limits_of r)" "length cs < recv_event_queue_len (limits_of r)"
  shows "transmit tx s r = (s\<lparr>outbound := []\<rparr>, InLoop, stream_delivered rv cs r)"
    "reading rv [] cs (stream_delivered rv cs r)" "sound [rv] (stream_delivered rv cs r)"
proof -
  have r: "rv_id rv = i" "sound [rv] r" "chan_mem r (receiver rv) = \<lparr>items = [], rx_open = True, chan_max = window (limits_of r)\<rparr>"
      "rv_pending rv = []" "\<not> rv_finished rv"
    using assms(4) by (auto simp: recv_end_def)
  have inv: "session_inv r" "limits_ok 64 (limits_of r)" "limits_ok 64 (limits_of s)"
    using r(2) assms(2) by (auto simp: sound_def session_inv_def)
  obtain st where st: "feeds i st rv r" "received st = 0" using assms(4) by (auto simp: recv_end_def)
  have small: "list_all (\<lambda>c. length c \<le> write_piece (limits_of s)) cs" using assms(7) by (auto simp: list_all_iff)
  note ok = fin_frames_ok [OF inv(3) assms(6) small]
  have "within_credit (cs @ [[]]) st rv r"
    using assms(5,8,9) st(2) r(3) small window_pos(2) [OF inv(2)]
    by (auto simp: within_credit_def suits_def list_all_iff)
  then have h: "handle_all (fin_frames i cs) r = (InLoop, stream_delivered rv cs r)"
    using handle_all_fin [of rv st r cs] st(1) r(1) by simp
  show "transmit tx s r = (s\<lparr>outbound := []\<rparr>, InLoop, stream_delivered rv cs r)"
    using assms(5) by (intro transmit_frames [OF assms(1-3) inv(1) _ ok(1) h]) (simp add: suits_def)
  show "sound [rv] (stream_delivered rv cs r)" by (rule sound_handle [OF r(2) ok(2) h])
  show "reading rv [] cs (stream_delivered rv cs r)"
    using r(1,3-5) by (simp add: reading_def stream_delivered_def chan_update_def data_events_def hmap_simps)
qed

text \<open>Finishing a writer that is ready, and what is left of a stream whose halves are both finished.\<close>

lemma finish_ready:
  assumes "handle_ready ss s" "flow_ready ss s" "\<not> outbound_full s"
  obtains s' where "send_finish ss s = (Finished (Inr ()), s')"
    "outbound s' = outbound s @ [FrameCmd (fin_frame (ss_id ss))]" "limits_of s' = limits_of s"
    "streams s' = streams s" "chan_mem s' = chan_mem s" "ss_finished (shared_mem s' (ss_shared ss))"
  using send_finish_all [OF assms] that
  by (simp add: direct_mode_def finished_send_def shared_update_def)

lemma drop_pair_quiet:
  assumes "ss_finished (shared_mem s (ss_shared ss))" "hm_get (streams s) (rv_id rv) = None"
  shows "outbound (drop_pair ss rv s) = outbound s" "limits_of (drop_pair ss rv s) = limits_of s"
proof -
  have "outbound (send_stream_drop ss s) = outbound s \<and> limits_of (send_stream_drop ss s) = limits_of s
      \<and> streams (send_stream_drop ss s) = streams s"
    using assms(1)
    by (auto simp: send_stream_drop_def shared_update_def remove_send_flow_def flow_update_def Let_def split: option.splits)
  then show "outbound (drop_pair ss rv s) = outbound s" "limits_of (drop_pair ss rv s) = limits_of s"
    using assms(2) by (simp_all add: drop_pair_def recv_stream_drop_def stop_recv_stream_def chan_update_def)
qed

text \<open>A stream written in full and finished.\<close>

lemma write_finish_all:
  assumes "endpoint i m ss rv s" "length d \<le> unat m" "outbound s = []"
    and "length (chunks (write_piece (limits_of s)) d) < outbound_queue_len (limits_of s)"
  obtains s1 s2 where "write_buf ss d s = (Finished (Inr ()), s1)" "send_finish ss s1 = (Finished (Inr ()), s2)"
    "outbound s2 = map FrameCmd (fin_frames i (chunks (write_piece (limits_of s)) d))"
    "limits_of s2 = limits_of s" "recv_end i rv s2"
proof -
  let ?cs = "chunks (write_piece (limits_of s)) d"
  have e: "ss_id ss = i" "ss_ok ss" "handle_ready ss s" "flow_ready ss s" "has_credit (length d + 0) ss s" "recv_end i rv s"
    using assms(1,2) by (auto simp: endpoint_def has_credit_def)
  then have "sound [rv] s" by (simp add: recv_end_def)
  then have pos: "0 < write_piece (limits_of s)"
    by (simp add: sound_def session_inv_def limits_ok_def write_piece_def MAX_WRITE_CHUNK_def)
  obtain f where f: "write_buf ss d s = (Finished (Inr ()), direct_mode False ss (queued ss ?cs f s))"
      "max_data f = max_data (flow_mem s (ss_flow ss))" "flow_ok f" "\<not> flow_closed f"
      "unat (sent_data f) = unat (sent_data (flow_mem s (ss_flow ss))) + length d"
    using write_buf_all [OF e(3,4) _ pos, of d] assms(3,4) e(5) by (metis add.right_neutral less_or_eq_imp_le list.size(3) add_0)
  define s1 where "s1 = direct_mode False ss (queued ss ?cs f s)"
  have w1: "write_buf ss d s = (Finished (Inr ()), s1)" using f(1) by (simp add: s1_def)
  note w = written_ready [OF e(3,4) f(2-5) e(5) s1_def]
  have "\<not> outbound_full s1" using w(4,5) assms(3,4) by (simp add: outbound_full_def data_cmds_def)
  with w obtain s2 where s2: "send_finish ss s1 = (Finished (Inr ()), s2)"
      "outbound s2 = outbound s1 @ [FrameCmd (fin_frame i)]" "limits_of s2 = limits_of s1"
      "streams s2 = streams s1" "chan_mem s2 = chan_mem s1"
    using finish_ready [of ss s1] e(1) by metis
  have "sound [rv] s2" by (rule sound_finish [OF sound_write [OF \<open>sound [rv] s\<close> e(2) w1] e(2) s2(1)])
  moreover have "streams s1 = streams s" "chan_mem s1 = chan_mem s"
    by (simp_all add: s1_def direct_mode_def queued_def shared_update_def)
  ultimately have "recv_end i rv s2" using recv_end_frame [OF e(6)] s2 w(4) by simp
  moreover have "outbound s2 = map FrameCmd (fin_frames i ?cs)"
    using s2(2) w(5) assms(3) e(1) data_cmds_fin [of i ?cs] by simp
  ultimately show ?thesis using that w1 s2 w(4) by simp
qed

text \<open>The echo task on a delivered stream: it echoes everything, finishes and leaves only data and FIN.\<close>

lemma echo_task_delivered:
  assumes "endpoint i m ss rv r" "s = stream_delivered rv cs r" "reading rv [] cs s" "sound [rv] s" "outbound r = []"
    and "list_all (\<lambda>c. c \<noteq> []) cs" "length (concat cs) \<le> unat m"
    and "es = concat (map (chunks (write_piece (limits_of r))) (read_list 1024 [] cs))"
    and "length es < outbound_queue_len (limits_of r)"
  obtains rv' s' where "echo_task_start ss rv s = (EtDone, rv', s')" "session_inv s'" "limits_of s' = limits_of r"
    "outbound s' = map FrameCmd (fin_frames i es)"
proof -
  have id: "rv_id rv = i" "ss_id ss = i" "ss_ok ss" using assms(1) by (simp_all add: endpoint_def recv_end_def)
  have s: "limits_of s = limits_of r" "outbound s = []" using assms(2,5) by (simp_all add: stream_delivered_def chan_update_def)
  have e: "handle_ready ss s" "flow_ready ss s" "has_credit (length (concat (read_list 1024 [] cs))) ss s"
    using assms(1,2,7) concat_read_list [of 1024 "[]" cs]
    by (auto simp: endpoint_def handle_ready_def flow_ready_def has_credit_def stream_delivered_def chan_update_def session_is_closed_def)
  have pos: "0 < write_piece (limits_of s)"
    using assms(4) by (simp add: sound_def session_inv_def limits_ok_def write_piece_def MAX_WRITE_CHUNK_def)
  have "\<exists>rv' s'. echo_loop 1024 ss rv s = (Finished True, rv', s') \<and> sound [rv'] s'
       \<and> outbound s' = outbound s @ data_cmds (ss_id ss) (concat (map (chunks (write_piece (limits_of s))) (read_list 1024 [] cs)))
       \<and> handle_ready ss s' \<and> flow_ready ss s' \<and> limits_of s' = limits_of s
       \<and> rv_id rv' = rv_id rv \<and> hm_get (streams s') (rv_id rv) = None"
    by (rule echo_loop_delivered) (use assms(3,4,6,8,9) id e pos s in simp_all)
  then obtain rv1 s1 where l: "echo_loop 1024 ss rv s = (Finished True, rv1, s1)" "sound [rv1] s1"
      "outbound s1 = data_cmds i es" "handle_ready ss s1" "flow_ready ss s1" "limits_of s1 = limits_of r"
      "rv_id rv1 = i" "hm_get (streams s1) i = None"
    using id assms(8) s by auto
  have "\<not> outbound_full s1" using l(3,6) assms(9) by (simp add: outbound_full_def data_cmds_def)
  then obtain s2 where s2: "send_finish ss s1 = (Finished (Inr ()), s2)" "outbound s2 = data_cmds i es @ [FrameCmd (fin_frame i)]"
      "limits_of s2 = limits_of r" "streams s2 = streams s1" "ss_finished (shared_mem s2 (ss_shared ss))"
    using finish_ready [OF l(4,5)] l(3,6) id(2) by metis
  have "hm_get (streams s2) (rv_id rv1) = None" using l(7,8) s2(4) by simp
  note q = drop_pair_quiet [OF s2(5) this]
  have "sound [rv1] s2" by (rule sound_finish [OF l(2) id(3) s2(1)])
  then have "session_inv (drop_pair ss rv1 s2)"
    using send_stream_drop_ok [OF id(3), of s2] id(2,3) l(7)
    by (auto simp: drop_pair_def step_ok_def sound_def rv_ok_def ss_ok_def intro!: session_inv_recv_stream_drop)
  moreover have "echo_task_start ss rv s = (EtDone, rv1, drop_pair ss rv1 s2)"
    using l(1) s2(1) by (simp add: echo_task_start_def echo_looped_def echo_finished_def)
  ultimately show ?thesis using that q s2(2,3) data_cmds_fin [of i es] by simp
qed

section \<open>The round trip\<close>

text \<open>Opening and accepting: both sides end up with an unused endpoint and the credit of the other.\<close>

lemma opened_endpoints:
  assumes "sink_works tx" "limits_ok 64 l" "limits_ok 64 l'" "suits l l'" "suits l' l" "2 \<le> outbound_queue_len l"
  obtains ss rv s1 s2 s3 ss' rv' r1 r2 r3 where
    "open_bi (session_inner_new False l) = (Finished (Inr (ss, rv)), s1)"
    "transmit tx s1 (session_inner_new True l') = (s2, InLoop, r1)"
    "accept_bi r1 = (Ready (Inr (ss', rv')), r2)" "transmit tx r2 s2 = (r3, InLoop, s3)"
    "endpoint bi_id (window l') ss rv s3" "limits_of s3 = l" "outbound s3 = []"
    "endpoint bi_id (window l) ss' rv' r3" "limits_of r3 = l'" "outbound r3 = []"
proof -
  let ?r0 = "session_inner_new True l'"
  note w = window_pos [OF assms(2)] and w' = window_pos [OF assms(3)]
  obtain ss rv s1 where o: "open_bi (session_inner_new False l) = (Finished (Inr (ss, rv)), s1)" "endpoint bi_id 0 ss rv s1"
      "limits_of s1 = l" "outbound s1 = map FrameCmd [OpenBi bi_id, MaxStreamData bi_id (window l)]"
    by (rule open_bi_fresh [OF assms(2,6)])
  obtain ss' rv' r1 r2 where a: "handle_all [OpenBi bi_id, MaxStreamData bi_id (window l)] ?r0 = (InLoop, r1)"
      "accept_bi r1 = (Ready (Inr (ss', rv')), r2)" "endpoint bi_id (window l) ss' rv' r2" "limits_of r2 = l'"
      "outbound r2 = map FrameCmd [MaxStreamData bi_id (window l')]"
    by (rule accept_bi_fresh [OF assms(3) w(1,3)])
  let ?s2 = "s1\<lparr>outbound := []\<rparr>" and ?r3 = "r2\<lparr>outbound := []\<rparr>"
  have small: "list_all (fits l) [OpenBi bi_id, MaxStreamData bi_id (window l)]" "list_all (fits l') [MaxStreamData bi_id (window l')]"
    using fits_control [OF assms(2)] fits_control [OF assms(3)] bi_id_facts(5) w(3) w'(3) by (simp_all add: frame_wf_control)
  have inv: "session_inv s1" "session_inv r2" "session_inv ?r0"
    using o(2) a(3) session_inv_new [OF assms(3)] by (simp_all add: endpoint_def recv_end_def sound_def)
  have t1: "transmit tx s1 ?r0 = (?s2, InLoop, r1)"
    using transmit_frames [OF assms(1) inv(1) o(4) inv(3) _ _ a(1)] small(1) o(3) assms(4)
    by (simp add: suits_def) (simp add: session_inner_new_def)
  note e2 = endpoint_drain [OF o(2)] endpoint_drain [OF a(3)]
  obtain s3 where s3: "handle_all [MaxStreamData bi_id (window l')] ?s2 = (InLoop, s3)" "endpoint bi_id (window l') ss rv s3"
      "limits_of s3 = limits_of ?s2" "outbound s3 = outbound ?s2"
    by (rule endpoint_granted [OF e2(1) w'(1,3) bi_id_facts(5)])
  have "session_inv ?s2" using e2(1) by (simp add: endpoint_def recv_end_def sound_def)
  from transmit_frames [OF assms(1) inv(2) a(5) this _ _ s3(1)]
  have "transmit tx r2 ?s2 = (?r3, InLoop, s3)" using small(2) a(4) o(3) assms(5) by (simp add: suits_def)
  then show ?thesis using that o(1,3) t1 a(2,4) s3(2-4) e2(2) by simp
qed


definition hello_mux :: bytes where
  "hello_mux = as_bytes ''hello mux''"


end
