(* ===== verification/Mux_Contract.thy ===== *)
theory Mux_Contract
  imports Mux_Echo Wasm_Agreement
begin

text \<open>
  The traits of the mux layer (\<open>websock-mux-proto/src/transport.rs\<close>) as records of their methods, the
  implementations of the native and of the browser session as values of these records, and the contract
  of each trait as a locale that both implementations interpret. A method that is asynchronous in one
  implementation and immediate in the other returns \<open>Finished\<close> at once in the latter. Environments of type
  \<open>'e\<close> carry the answers of the browser's channels; the native methods do not use them.
\<close>

section \<open>The traits\<close>

record ('e, 's, 'k) mux_send_stream_trait =
  ms_write_buf :: "'e \<Rightarrow> send_stream \<Rightarrow> bytes \<Rightarrow> 's \<Rightarrow> ('k, error + unit) async \<times> 's"
  ms_finish :: "'e \<Rightarrow> send_stream \<Rightarrow> 's \<Rightarrow> (unit, error + unit) async \<times> 's"
  ms_reset :: "'e \<Rightarrow> send_stream \<Rightarrow> u64 \<Rightarrow> 's \<Rightarrow> (u64, error + unit) async \<times> 's"
  ms_closed :: "send_stream \<Rightarrow> 's \<Rightarrow> bool"

record ('e, 's) mux_recv_stream_trait =
  mr_read_chunk :: "recv_stream \<Rightarrow> nat \<Rightarrow> 's \<Rightarrow> (error + bytes option) poll \<times> recv_stream \<times> 's"
  mr_stop :: "'e \<Rightarrow> recv_stream \<Rightarrow> u64 \<Rightarrow> 's \<Rightarrow> (u64, error + unit) async \<times> recv_stream \<times> 's"
  mr_closed :: "recv_stream \<Rightarrow> bool"

record ('e, 's, 'u, 'b, 'd) mux_session_trait =
  mx_open_uni :: "'e \<Rightarrow> 's \<Rightarrow> ('u, error + send_stream) async \<times> 's"
  mx_open_bi :: "'e \<Rightarrow> 's \<Rightarrow> ('b, error + (send_stream \<times> recv_stream)) async \<times> 's"
  mx_accept_uni :: "'s \<Rightarrow> (error + recv_stream) poll \<times> 's"
  mx_accept_bi :: "'s \<Rightarrow> (error + (send_stream \<times> recv_stream)) poll \<times> 's"
  mx_shutdown :: "'s \<Rightarrow> ('d, error + unit) async \<times> 's"
  mx_closed :: "'s \<Rightarrow> bool"

definition native_send_stream :: "(unit, session, wb_await) mux_send_stream_trait" where
  "native_send_stream = \<lparr>
     ms_write_buf = (\<lambda>_. write_buf), ms_finish = (\<lambda>_. send_finish),
     ms_reset = (\<lambda>_ ss code. send_reset code ss), ms_closed = send_closed\<rparr>"

definition native_recv_stream :: "(unit, session) mux_recv_stream_trait" where
  "native_recv_stream = \<lparr>
     mr_read_chunk = (\<lambda>rv mx. recv_read_chunk mx rv), mr_stop = (\<lambda>_ rv code. recv_stop code rv),
     mr_closed = recv_closed\<rparr>"

definition native_session :: "(unit, session, open_uni_await, open_bi_await, shutdown_await) mux_session_trait" where
  "native_session = \<lparr>
     mx_open_uni = (\<lambda>_. open_uni), mx_open_bi = (\<lambda>_. open_bi), mx_accept_uni = accept_uni,
     mx_accept_bi = accept_bi, mx_shutdown = shutdown, mx_closed = session_is_closed\<rparr>"

definition browser_send_stream :: "(chan_env, session, wb_await) mux_send_stream_trait" where
  "browser_send_stream = \<lparr>
     ms_write_buf = wasm_write_buf, ms_finish = (\<lambda>e ss s. apfst Finished (wasm_finish e ss s)),
     ms_reset = (\<lambda>e ss code s. apfst Finished (wasm_reset e code ss s)), ms_closed = wasm_send_closed\<rparr>"

definition wasm_recv_closed :: "recv_stream \<Rightarrow> bool" where
  "wasm_recv_closed rv = rv_finished rv"

definition browser_recv_stream :: "(chan_env, session) mux_recv_stream_trait" where
  "browser_recv_stream = \<lparr>
     mr_read_chunk = (\<lambda>rv mx. wasm_read_chunk mx rv),
     mr_stop = (\<lambda>e rv code s. apfst Finished (wasm_stop e code rv s)), mr_closed = wasm_recv_closed\<rparr>"

definition browser_session :: "(chan_env, session, unit, unit, unit) mux_session_trait" where
  "browser_session = \<lparr>
     mx_open_uni = (\<lambda>e s. apfst Finished (wasm_open_uni e s)),
     mx_open_bi = (\<lambda>e s. apfst Finished (wasm_open_bi e s)), mx_accept_uni = wasm_accept_uni,
     mx_accept_bi = wasm_accept_bi,
     mx_shutdown = (\<lambda>s. case wasm_shutdown s of (Pending, s1) \<Rightarrow> (Awaiting (), s1) | (Ready r, s1) \<Rightarrow> (Finished r, s1)),
     mx_closed = wasm_is_closed\<rparr>"

section \<open>Clients\<close>

text \<open>Buffers written in turn, each with the environment of its call, while the writes succeed.\<close>

fun write_many ::
  "('e \<Rightarrow> bytes \<Rightarrow> 's \<Rightarrow> ('k, error + unit) async \<times> 's) \<Rightarrow> ('e \<times> bytes) list \<Rightarrow> 's \<Rightarrow> bool \<times> 's" where
  "write_many wbuf [] s = (True, s)"
| "write_many wbuf ((e, d) # ds) s = (case wbuf e d s of
     (Finished (Inr _), s') \<Rightarrow> write_many wbuf ds s' | (_, s') \<Rightarrow> (False, s'))"

text \<open>Reads in turn while they return chunks, at most \<open>n\<close> of them; \<open>None\<close> when \<open>n\<close> was too small.\<close>

fun read_many ::
  "('r \<Rightarrow> 's \<Rightarrow> (error + bytes option) poll \<times> 'r \<times> 's) \<Rightarrow> nat \<Rightarrow> 'r \<Rightarrow> 's
     \<Rightarrow> (bytes list \<times> (error + bytes option) poll \<times> 'r \<times> 's) option" where
  "read_many rd 0 r s = None"
| "read_many rd (Suc n) r s = (case rd r s of
     (Ready (Inr (Some c)), r', s') \<Rightarrow> map_option (apfst ((#) c)) (read_many rd n r' s')
   | (q, r', s') \<Rightarrow> Some ([], q, r', s'))"

text \<open>Up to \<open>n\<close> streams accepted in turn.\<close>

fun accept_many :: "('s \<Rightarrow> (error + 'h) poll \<times> 's) \<Rightarrow> nat \<Rightarrow> 's \<Rightarrow> 'h list \<times> 's" where
  "accept_many acc 0 s = ([], s)"
| "accept_many acc (Suc n) s = (case acc s of
     (Ready (Inr h), s') \<Rightarrow> apfst ((#) h) (accept_many acc n s') | (_, s') \<Rightarrow> ([], s'))"

lemma read_outcome_cases:
  fixes q :: "(error + bytes option) poll"
  obtains "q = Pending" | e where "q = Ready (Inl e)" | "q = Ready (Inr None)" | c where "q = Ready (Inr (Some c))"
  by (metis poll.exhaust sum.exhaust option.exhaust)

section \<open>The contracts\<close>

text \<open>
  Sending: a successful write hands over all of its buffer, any write hands over a prefix of it, and a
  stream that is finished or closed takes no more bytes.
\<close>

locale mux_sending =
  fixes T :: "('e, 's, 'k) mux_send_stream_trait"
    and usable :: "send_stream \<Rightarrow> 's \<Rightarrow> bool"
    and taken :: "send_stream \<Rightarrow> 's \<Rightarrow> bytes"
  assumes write_usable: "usable h s \<Longrightarrow> ms_write_buf T e h d s = (r, s') \<Longrightarrow> usable h s'"
    and write_whole: "usable h s \<Longrightarrow> ms_write_buf T e h d s = (Finished (Inr u), s') \<Longrightarrow> taken h s' = taken h s @ d"
    and write_prefix: "usable h s \<Longrightarrow> ms_write_buf T e h d s = (r, s') \<Longrightarrow> \<exists>p q. d = p @ q \<and> taken h s' = taken h s @ p"
    and finish_closes: "usable h s \<Longrightarrow> ms_finish T e h s = (Finished (Inr u), s') \<Longrightarrow> ms_closed T h s' \<and> taken h s' = taken h s"
    and closed_refuses: "ms_closed T h s \<Longrightarrow> d \<noteq> [] \<Longrightarrow> ms_write_buf T e h d s = (r, s')
      \<Longrightarrow> (\<exists>err. r = Finished (Inl err)) \<and> taken h s' = taken h s"
begin

lemma write_many_taken:
  "usable h s \<Longrightarrow> write_many (\<lambda>e. ms_write_buf T e h) ds s = (ok, s')
     \<Longrightarrow> usable h s' \<and> (\<exists>p q. concat (map snd ds) = p @ q \<and> taken h s' = taken h s @ p \<and> (ok \<longrightarrow> q = []))"
proof (induction ds arbitrary: s)
  case (Cons ed ds)
  obtain e d where ed: "ed = (e, d)" by (cases ed)
  obtain r s1 where w: "ms_write_buf T e h d s = (r, s1)" by fastforce
  note u = write_usable [OF Cons.prems(1) w]
  show ?case
  proof (cases "\<exists>u. r = Finished (Inr u)")
    case True
    then obtain v where r: "r = Finished (Inr v)" by blast
    have t: "taken h s1 = taken h s @ d" using write_whole [OF Cons.prems(1)] w r by blast
    have "write_many (\<lambda>e. ms_write_buf T e h) ds s1 = (ok, s')" using Cons.prems(2) ed w r by simp
    from Cons.IH [OF u this] show ?thesis using t ed by fastforce
  next
    case False
    then have "s' = s1" "\<not> ok" using Cons.prems(2) ed w by (auto split: async.splits sum.splits)
    then show ?thesis using u write_prefix [OF Cons.prems(1) w] ed by fastforce
  qed
qed simp

lemma write_then_finish:
  assumes "usable h s" "write_many (\<lambda>e. ms_write_buf T e h) ds s = (True, s1)" "ms_finish T e h s1 = (Finished (Inr u), s2)"
  shows "taken h s2 = taken h s @ concat (map snd ds) \<and> ms_closed T h s2"
    "d \<noteq> [] \<Longrightarrow> ms_write_buf T e' h d s2 = (r, s3) \<Longrightarrow> (\<exists>err. r = Finished (Inl err)) \<and> taken h s3 = taken h s2"
proof -
  have "usable h s1" "taken h s1 = taken h s @ concat (map snd ds)"
    using write_many_taken [OF assms(1,2)] by auto
  then have f: "ms_closed T h s2 \<and> taken h s2 = taken h s1" using finish_closes assms(3) by blast
  then show "taken h s2 = taken h s @ concat (map snd ds) \<and> ms_closed T h s2"
    using \<open>taken h s1 = taken h s @ concat (map snd ds)\<close> by simp
  show "d \<noteq> [] \<Longrightarrow> ms_write_buf T e' h d s2 = (r, s3) \<Longrightarrow> (\<exists>err. r = Finished (Inl err)) \<and> taken h s3 = taken h s2"
    using closed_refuses f by blast
qed

end

text \<open>
  Receiving: a chunk is a prefix of what is unread and within the maximum asked for, reading makes
  progress, and it waits only when nothing is unread.
\<close>

locale mux_receiving =
  fixes T :: "('e, 's) mux_recv_stream_trait"
    and unread_bytes :: "recv_stream \<Rightarrow> 's \<Rightarrow> bytes"
    and left :: "recv_stream \<Rightarrow> 's \<Rightarrow> nat"
  assumes chunk_prefix: "mr_read_chunk T h mx s = (Ready (Inr (Some c)), h', s')
      \<Longrightarrow> unread_bytes h s = c @ unread_bytes h' s' \<and> length c \<le> mx \<and> left h' s' < left h s"
    and end_closed: "mr_read_chunk T h mx s = (Ready (Inr None), h', s')
      \<Longrightarrow> unread_bytes h' s' = unread_bytes h s \<and> mr_closed T h'"
    and wait_empty: "mr_read_chunk T h mx s = (Pending, h', s') \<Longrightarrow> h' = h \<and> s' = s \<and> unread_bytes h s = []"
    and no_error: "mr_read_chunk T h mx s = (Ready (Inl e), h', s') \<Longrightarrow> mx = 0"
begin

lemma read_many_delivers:
  "0 < mx \<Longrightarrow> left h s < n \<Longrightarrow> \<exists>cs q h' s'. read_many (\<lambda>h. mr_read_chunk T h mx) n h s = Some (cs, q, h', s')
     \<and> unread_bytes h s = concat cs @ unread_bytes h' s' \<and> list_all (\<lambda>c. length c \<le> mx) cs
     \<and> (q = Pending \<and> unread_bytes h' s' = [] \<or> q = Ready (Inr None) \<and> mr_closed T h')"
proof (induction n arbitrary: h s)
  case (Suc n)
  obtain q h1 s1 where r: "mr_read_chunk T h mx s = (q, h1, s1)" by (cases "mr_read_chunk T h mx s")
  show ?case
  proof (cases "\<exists>c. q = Ready (Inr (Some c))")
    case True
    then obtain c where q: "q = Ready (Inr (Some c))" by blast
    note c = chunk_prefix [OF r [unfolded q]]
    then have "left h1 s1 < n" using Suc.prems(2) by simp
    from Suc.IH [OF Suc.prems(1) this] obtain cs q' h' s' where
      "read_many (\<lambda>h. mr_read_chunk T h mx) n h1 s1 = Some (cs, q', h', s')"
      "unread_bytes h1 s1 = concat cs @ unread_bytes h' s'" "list_all (\<lambda>c. length c \<le> mx) cs"
      "q' = Pending \<and> unread_bytes h' s' = [] \<or> q' = Ready (Inr None) \<and> mr_closed T h'" by blast
    then show ?thesis using r q c by (intro exI [of _ "c # cs"] exI [of _ q'] exI [of _ h'] exI [of _ s']) auto
  next
    case False
    then show ?thesis
      using r wait_empty [of h mx s h1 s1] no_error [of h mx s _ h1 s1] end_closed [of h mx s h1 s1] Suc.prems(1)
      by (cases q rule: read_outcome_cases) auto
  qed
qed simp

end

text \<open>Accepting: the streams that have arrived are accepted one by one, in order.\<close>

locale mux_accepting =
  fixes T :: "('e, 's, 'u, 'b, 'd) mux_session_trait"
    and arrived_uni :: "'s \<Rightarrow> recv_stream list"
    and arrived_bi :: "'s \<Rightarrow> (send_stream \<times> recv_stream) list"
  assumes accept_uni_first: "arrived_uni s = rv # q \<Longrightarrow> \<exists>s'. mx_accept_uni T s = (Ready (Inr rv), s') \<and> arrived_uni s' = q"
    and accept_bi_first: "arrived_bi s = p # b \<Longrightarrow> \<exists>s'. mx_accept_bi T s = (Ready (Inr p), s') \<and> arrived_bi s' = b"
begin

lemma accept_many_uni: "arrived_uni s = xs @ q \<Longrightarrow> \<exists>s'. accept_many (mx_accept_uni T) (length xs) s = (xs, s') \<and> arrived_uni s' = q"
proof (induction xs arbitrary: s)
  case (Cons x xs)
  then obtain s' where "mx_accept_uni T s = (Ready (Inr x), s')" "arrived_uni s' = xs @ q" using accept_uni_first by fastforce
  then show ?case using Cons.IH [of s'] by auto
qed simp

lemma accept_many_bi: "arrived_bi s = xs @ q \<Longrightarrow> \<exists>s'. accept_many (mx_accept_bi T) (length xs) s = (xs, s') \<and> arrived_bi s' = q"
proof (induction xs arbitrary: s)
  case (Cons x xs)
  then obtain s' where "mx_accept_bi T s = (Ready (Inr x), s')" "arrived_bi s' = xs @ q" using accept_bi_first by fastforce
  then show ?case using Cons.IH [of s'] by auto
qed simp

end

section \<open>Sending on both platforms\<close>

text \<open>The bytes of a stream that wait in an outbound queue.\<close>

fun cmd_bytes :: "stream_id \<Rightarrow> outbound_cmd \<Rightarrow> bytes" where
  "cmd_bytes i (FrameCmd (Stream j d _)) = (if j = i then d else [])"
| "cmd_bytes i _ = []"

definition stream_bytes :: "send_stream \<Rightarrow> session \<Rightarrow> bytes" where
  "stream_bytes ss s = concat (map (cmd_bytes (ss_id ss)) (outbound s))"

lemma stream_bytes_data:
  "outbound s' = outbound s @ data_cmds (ss_id ss) cs \<Longrightarrow> stream_bytes ss s' = stream_bytes ss s @ concat cs"
proof -
  have "map (cmd_bytes (ss_id ss)) (data_cmds (ss_id ss) cs) = cs" by (induction cs) (simp_all add: data_cmds_def)
  then show "outbound s' = outbound s @ data_cmds (ss_id ss) cs \<Longrightarrow> stream_bytes ss s' = stream_bytes ss s @ concat cs"
    by (simp add: stream_bytes_def)
qed

lemma stream_bytes_shared [simp]: "stream_bytes ss (shared_update r g s) = stream_bytes ss s"
  by (simp add: stream_bytes_def shared_update_def)

lemma guarded_cases:
  assumes "guarded mode ss body s = (r, s')"
  obtains (refused) e where "r = Finished (Inl e)" "stream_bytes ss s' = stream_bytes ss s"
  | (ran) s1 s2 where "begin_operation mode ss s = (Inr (), s1)" "body s1 = (r, s2)" "stream_bytes ss s' = stream_bytes ss s2"
      "stream_bytes ss s1 = stream_bytes ss s" "send_closed ss s1 = send_closed ss s" "send_closed ss s' = send_closed ss s2"
proof -
  obtain q s1 where b: "begin_operation mode ss s = (q, s1)" by fastforce
  have bytes: "stream_bytes ss s1 = stream_bytes ss s" using begin_operation_frame(1) [OF b] by (simp add: stream_bytes_def)
  have cl: "send_closed ss (shared_update (ss_shared ss) g t) = send_closed ss t"
    if "ss_finished (g (shared_mem t (ss_shared ss))) = ss_finished (shared_mem t (ss_shared ss))" for g t
    using that by (simp add: send_closed_def)
  show ?thesis
  proof (cases q)
    case (Inl e)
    then show ?thesis using refused [of e] b bytes assms by (auto simp: guarded_def)
  next
    case (Inr u)
    have closed: "send_closed ss s1 = send_closed ss s"
      using b Inr by (auto simp: begin_operation_def select_api_def cl Let_def split: if_splits sum.splits)
    obtain x s2 where x: "body s1 = (x, s2)" by fastforce
    then have "r = x" "s' = s2 \<or> s' = end_operation ss s2"
      using assms b Inr by (auto simp: guarded_def end_guarded_def split: async.splits)
    then have "stream_bytes ss s' = stream_bytes ss s2" "send_closed ss s' = send_closed ss s2"
      by (auto simp: end_operation_def cl)
    then show ?thesis using ran b x Inr bytes closed \<open>r = x\<close> by simp
  qed
qed

lemma native_finish_closes:
  assumes "send_finish ss s = (Finished (Inr u), s')"
  shows "send_closed ss s' \<and> stream_bytes ss s' = stream_bytes ss s"
  using assms unfolding send_finish_def
proof (cases rule: guarded_cases)
  case (ran s1 s2)
  obtain p s3 where p: "send_frame (fin_frame (ss_id ss)) (shared_update (ss_shared ss) (\<lambda>c. c\<lparr>ss_finished := True\<rparr>) s1) = (p, s3)"
    by fastforce
  have "outbound s3 = (if p = Ready (Inr ()) then outbound s1 @ [FrameCmd (fin_frame (ss_id ss))] else outbound s1)"
    using send_frame_push(1) [OF p] by simp
  then have by3: "stream_bytes ss s3 = stream_bytes ss s1" by (auto simp: stream_bytes_def fin_frame_def)
  have "shared_mem s3 = shared_mem (shared_update (ss_shared ss) (\<lambda>c. c\<lparr>ss_finished := True\<rparr>) s1)"
    using p by (auto simp: send_frame_def send_frame_resume_def outbound_push_def split: if_splits frame.splits)
  then have fin3: "ss_finished (shared_mem s3 (ss_shared ss))" by simp
  have rm: "stream_bytes ss (snd (remove_send_flow i t)) = stream_bytes ss t"
    "shared_mem (snd (remove_send_flow i t)) = shared_mem t" for i t
    by (auto simp: remove_send_flow_def flow_update_def stream_bytes_def split: option.splits)
  have "send_closed ss s2 \<and> stream_bytes ss s2 = stream_bytes ss s1"
    using ran(2) p by3 fin3 rm by (auto simp: send_closed_def finish_result_def split: if_splits poll.splits sum.splits)
  then show ?thesis using ran by simp
qed simp

lemma native_closed_refuses:
  assumes "send_closed ss s" "d \<noteq> []" "write_buf ss d s = (r, s')"
  shows "(\<exists>e. r = Finished (Inl e)) \<and> stream_bytes ss s' = stream_bytes ss s"
  using assms(3) unfolding write_buf_def
proof (cases rule: guarded_cases)
  case (ran s1 s2)
  obtain b d' where d: "d = b # d'" using assms(2) by (cases d) auto
  have "send_closed ss s1" using ran assms(1) by simp
  then have "(\<exists>e. r = Finished (Inl e)) \<and> outbound s2 = outbound s1"
    using ran(2) write_closed_flow [of s1 ss b d'] d by (auto simp: send_closed_def split: if_splits)
  then show ?thesis using ran by (simp add: stream_bytes_def)
qed simp

text \<open>A write hands over a prefix of its buffer, and all of it when it succeeds.\<close>

definition hands_over :: "send_stream \<Rightarrow> bytes \<Rightarrow> session \<Rightarrow> ('k, error + unit) async \<times> session \<Rightarrow> bool" where
  "hands_over ss d s r \<longleftrightarrow> (\<exists>p q. d = p @ q \<and> stream_bytes ss (snd r) = stream_bytes ss s @ p
     \<and> (\<forall>u. fst r = Finished (Inr u) \<longrightarrow> q = []))"

lemma hands_over_native:
  assumes "write_spec ss d s (r, s')"
  shows "hands_over ss d s (r, s')"
proof -
  obtain cs where cs: "outbound s' = outbound s @ data_cmds (ss_id ss) cs"
    "case r of Finished (Inr _) \<Rightarrow> concat cs = d | Finished (Inl e) \<Rightarrow> (\<exists>rest. d = concat cs @ rest)
       | Awaiting k \<Rightarrow> d = concat cs @ wb_rest k"
    using write_spec_pieces [OF assms] .
  then obtain q where "d = concat cs @ q" "\<forall>u. r = Finished (Inr u) \<longrightarrow> q = []"
    by (fastforce split: async.splits sum.splits)
  then show ?thesis using stream_bytes_data [OF cs(1)] unfolding hands_over_def by auto
qed

lemma hands_over_step:
  assumes "hands_over ss rest t r" "stream_bytes ss t = stream_bytes ss s @ c"
  shows "hands_over ss (c @ rest) s r"
  using assms unfolding hands_over_def by fastforce

lemma hands_over_stop:
  "stream_bytes ss (snd r) = stream_bytes ss s \<Longrightarrow> (\<And>u. fst r = Finished (Inr u) \<Longrightarrow> d = []) \<Longrightarrow> hands_over ss d s r"
  unfolding hands_over_def by (intro exI [of _ "[]"] exI [of _ d]) auto

lemma stream_bytes_flow [simp]: "stream_bytes ss (flow_update r g s) = stream_bytes ss s"
  by (simp add: stream_bytes_def flow_update_def)

lemma reserve_outcome_cases:
  fixes q :: "(error + 'n) poll"
  obtains "q = Pending" | e where "q = Ready (Inl e)" | n where "q = Ready (Inr n)"
  by (metis poll.exhaust sum.exhaust)

lemma wasm_write_loop_unfold:
  "wasm_write_loop e ss rest s =
     (if rest = [] then (Finished (Inr ()), s)
      else if write_wanted rest s = 0 then (Finished (Inl (Protocol ''stream frame payload limit is zero'')), s)
      else case wasm_reserve_poll (write_wanted rest s) ss s of
          (Pending, s1) \<Rightarrow> (Awaiting (WbCredit rest), s1)
        | (Ready (Inl err), s1) \<Rightarrow> (Finished (Inl err), s1)
        | (Ready (Inr n), s1) \<Rightarrow>
            (case wasm_queue_poll e (Stream (ss_id ss) (take n rest) False) ss s1 of
               (Pending, s2) \<Rightarrow> (Awaiting (WbSend rest n), s2)
             | (Ready (Inl _), s2) \<Rightarrow> (Finished (Inl Closed), flow_update (ss_flow ss) (wasm_release n) s2)
             | (Ready (Inr _), s2) \<Rightarrow> wasm_write_loop e ss (drop n rest) s2))"
  unfolding wasm_write_loop.simps [of e ss rest s] write_wanted_def MAX_WRITE_CHUNK_def Let_def ..

lemma wasm_write_loop_hands_over: "hands_over ss rest s (wasm_write_loop e ss rest s)"
proof (induction "length rest" arbitrary: rest s rule: less_induct)
  case less
  note eq = wasm_write_loop_unfold [of e ss rest s]
  obtain q s1 where rp: "wasm_reserve_poll (write_wanted rest s) ss s = (q, s1)" by fastforce
  have s1: "stream_bytes ss s1 = stream_bytes ss s"
    using rp by (auto simp: wasm_reserve_poll_def Let_def split: prod.splits if_splits)
  show ?case
  proof (cases "rest = [] \<or> write_wanted rest s = 0")
    case True
    then show ?thesis using eq by (auto intro!: hands_over_stop split: if_splits)
  next
    case go: False
    show ?thesis
    proof (cases q rule: reserve_outcome_cases)
      case (3 n)
      then have n: "n \<noteq> 0" using rp by (auto simp: wasm_reserve_poll_def Let_def split: prod.splits if_splits)
      obtain p s2 where qp: "wasm_queue_poll e (Stream (ss_id ss) (take n rest) False) ss s1 = (p, s2)" by fastforce
      then have s2: "stream_bytes ss s2 = stream_bytes ss s1 @ (if p = Ready (Inr ()) then take n rest else [])"
        by (auto simp: wasm_queue_poll_def Let_def outbound_push_def split: if_splits) (simp_all add: stream_bytes_def flow_update_def)
      show ?thesis
      proof (cases p rule: reserve_outcome_cases)
        case (3 u)
        then have eq2: "wasm_write_loop e ss rest s = wasm_write_loop e ss (drop n rest) s2"
          using eq go rp qp \<open>q = Ready (Inr n)\<close> by simp
        have "hands_over ss (take n rest @ drop n rest) s (wasm_write_loop e ss rest s)"
          unfolding eq2 by (rule hands_over_step [OF less.hyps]) (use go n s1 s2 3 in auto)
        then show ?thesis by simp
      qed (use eq go rp qp s1 s2 \<open>q = Ready (Inr n)\<close> in \<open>auto intro!: hands_over_stop\<close>)
    qed (use eq go rp s1 in \<open>auto intro!: hands_over_stop\<close>)
  qed
qed

lemma wasm_write_hands_over: "hands_over ss d s (wasm_write_buf e ss d s)"
proof -
  obtain r s' where w: "wasm_write_buf e ss d s = (r, s')" by fastforce
  then have "hands_over ss d s (r, s')"
    unfolding wasm_write_buf_def
  proof (cases rule: guarded_cases)
    case (refused err)
    then show ?thesis by (intro hands_over_stop) simp_all
  next
    case (ran s1 s2)
    have "hands_over ss d s1 (r, s2)"
      using ran(2) wasm_write_loop_hands_over [of ss d s1 e] hands_over_stop [of ss "(r, s2)" s1 d] by (auto split: if_splits)
    then show ?thesis using ran(3,4) by (simp add: hands_over_def)
  qed
  then show ?thesis using w by simp
qed

lemma wasm_finish_closes:
  assumes "wasm_finish e ss s = (Inr u, s')"
  shows "wasm_send_closed ss s' \<and> stream_bytes ss s' = stream_bytes ss s"
proof -
  let ?r = "ss_shared ss"
  obtain q s1 where b: "begin_operation 1 ss s = (q, s1)" by fastforce
  have bytes: "stream_bytes ss s1 = stream_bytes ss s" using begin_operation_frame(1) [OF b] by (simp add: stream_bytes_def)
  let ?s2 = "shared_update ?r (\<lambda>c. c\<lparr>ss_finished := True\<rparr>) s1"
  let ?s3 = "snd (wasm_remove_send_flow (ss_id ss) (outbound_push (FrameCmd (Stream (ss_id ss) [] True)) ?s2))"
  have s3: "ss_finished (shared_mem ?s3 ?r)" "stream_bytes ss ?s3 = stream_bytes ss s1"
    by (auto simp: wasm_remove_send_flow_def flow_update_def outbound_push_def stream_bytes_def shared_update_def split: option.splits)
  have "s' = end_operation ss s1 \<and> ss_finished (shared_mem s1 ?r) \<or> s' = end_operation ss ?s3"
    using assms b
    by (auto simp: wasm_finish_def wasm_guarded_def wasm_send_frame_def wasm_try_send_frame_def Let_def
        split: sum.splits if_splits prod.splits)
  then show ?thesis using s3 bytes by (auto simp: end_operation_def wasm_send_closed_def)
qed

lemma wasm_closed_refuses:
  assumes "wasm_send_closed ss s" "d \<noteq> []" "wasm_write_buf e ss d s = (r, s')"
  shows "(\<exists>err. r = Finished (Inl err)) \<and> stream_bytes ss s' = stream_bytes ss s"
proof -
  have same: "wasm_send_closed ss t = send_closed ss t" for t by (simp add: wasm_send_closed_def send_closed_def wasm_state_eq)
  from assms(3) show ?thesis
    unfolding wasm_write_buf_def
  proof (cases rule: guarded_cases)
    case (ran s1 s2)
    then have "wasm_send_closed ss s1" using assms(1) by (simp add: same)
    then show ?thesis using ran by (auto simp: wasm_send_closed_def)
  qed simp
qed

interpretation native_sending: mux_sending native_send_stream "\<lambda>ss s. session_inv s \<and> ss_ok ss" stream_bytes
proof (unfold_locales, unfold native_send_stream_def mux_send_stream_trait.simps)
  fix ss d s r s'
  assume u: "session_inv s \<and> ss_ok ss" and w: "write_buf ss d s = (r, s')"
  show "session_inv s' \<and> ss_ok ss" using write_buf_ok [of s ss d] u w by (simp add: write_ok_def)
  show "\<exists>p q. d = p @ q \<and> stream_bytes ss s' = stream_bytes ss s @ p"
    using hands_over_native [of ss d s r s'] write_buf_spec [of s ss d] u w by (auto simp: hands_over_def)
next
  fix ss d s u s'
  assume "session_inv s \<and> ss_ok ss" "write_buf ss d s = (Finished (Inr u), s')"
  then show "stream_bytes ss s' = stream_bytes ss s @ d"
    using hands_over_native [of ss d s "Finished (Inr u)" s'] write_buf_spec [of s ss d] by (auto simp: hands_over_def)
qed (use native_finish_closes native_closed_refuses in blast)+

interpretation browser_sending: mux_sending browser_send_stream "\<lambda>ss s. True" stream_bytes
proof (unfold_locales, unfold browser_send_stream_def mux_send_stream_trait.simps)
  fix ss d s e and r :: "(wb_await, error + unit) async" and s'
  show "\<exists>p q. d = p @ q \<and> stream_bytes ss s' = stream_bytes ss s @ p" if "wasm_write_buf e ss d s = (r, s')"
    using wasm_write_hands_over [of ss d s e] that by (auto simp: hands_over_def)
  show "stream_bytes ss s' = stream_bytes ss s @ d" if "wasm_write_buf e ss d s = (Finished (Inr u), s')" for u
    using wasm_write_hands_over [of ss d s e] that by (auto simp: hands_over_def)
  show "wasm_send_closed ss s' \<and> stream_bytes ss s' = stream_bytes ss s"
    if "apfst Finished (wasm_finish e ss s) = (Finished (Inr u), s')" for u
    using wasm_finish_closes [of e ss s u s'] that by (cases "wasm_finish e ss s") simp
qed (use wasm_closed_refuses in blast)+

section \<open>Receiving on both platforms\<close>

lemma wasm_consume_same:
  "fst (wasm_on_bytes_consumed n rv s) = fst (on_bytes_consumed n rv s)
   \<and> chan_mem (snd (wasm_on_bytes_consumed n rv s)) = chan_mem (snd (on_bytes_consumed n rv s))"
proof -
  have "chan_mem (wasm_queue_credit i m t) = chan_mem t" for i m t
    by (simp add: wasm_queue_credit_def wasm_request_shutdown_def Let_def split: option.splits)
  then show ?thesis by (simp add: wasm_on_bytes_consumed_def on_bytes_consumed_def Let_def)
qed

text \<open>The readers of the two platforms return the same, on every input.\<close>

lemma wasm_read_chunk_same:
  assumes "wasm_read_chunk mx rv s = (q, rv', s')"
  obtains s'' where "recv_read_chunk mx rv s = (q, rv', s'')" "chan_mem s'' = chan_mem s'"
proof -
  note same = wasm_consume_same
  have "fst (wasm_read_chunk mx rv s) = fst (recv_read_chunk mx rv s)
    \<and> fst (snd (wasm_read_chunk mx rv s)) = fst (snd (recv_read_chunk mx rv s))
    \<and> chan_mem (snd (snd (wasm_read_chunk mx rv s))) = chan_mem (snd (snd (recv_read_chunk mx rv s)))"
  proof (cases "mx = 0 \<or> rv_pending rv \<noteq> [] \<or> rv_finished rv")
    case True
    then show ?thesis using same by (auto simp: wasm_read_chunk_def recv_read_chunk_def Let_def split_beta)
  next
    case False
    obtain x t where c: "chan_recv (receiver rv) s = (x, t)" by fastforce
    show ?thesis
    proof (cases x)
      case (Ready y)
      then show ?thesis
        using False c same by (cases y) (simp_all add: wasm_read_chunk_def recv_read_chunk_def Let_def split_beta)
    qed (use False c in \<open>simp add: wasm_read_chunk_def recv_read_chunk_def\<close>)
  qed
  then show ?thesis using that assms by (cases "recv_read_chunk mx rv s") simp
qed

lemma native_read_laws:
  assumes "recv_read_chunk mx rv s = (q, rv', s')"
  shows "q = Ready (Inr (Some c)) \<Longrightarrow> contents rv s = c @ contents rv' s' \<and> length c \<le> mx \<and> read_measure rv' s' < read_measure rv s"
    "q = Ready (Inr None) \<Longrightarrow> contents rv' s' = contents rv s \<and> rv_finished rv'"
    "q = Pending \<Longrightarrow> rv' = rv \<and> s' = s \<and> contents rv s = []" "q = Ready (Inl e) \<Longrightarrow> mx = 0"
  using recv_read_chunk_spec [of mx rv s] read_measure_less [of mx rv s c rv' s'] assms by (auto simp: read_spec_def)

interpretation native_receiving: mux_receiving native_recv_stream contents read_measure
  by (unfold_locales; unfold native_recv_stream_def mux_recv_stream_trait.simps)
    (auto simp: recv_closed_def dest: native_read_laws)

lemma wasm_read_pending:
  assumes "wasm_read_chunk mx rv s = (Pending, rv', s')"
  shows "rv' = rv \<and> s' = s"
proof -
  have "mx \<noteq> 0" "rv_pending rv = []" "\<not> rv_finished rv"
    using assms by (auto simp: wasm_read_chunk_def Let_def split_beta split: if_splits)
  then show ?thesis
    using assms by (cases "items (chan_mem s (receiver rv))")
      (auto simp: wasm_read_chunk_def chan_recv_def Let_def split_beta split: if_splits)
qed

lemma wasm_read_laws:
  assumes "wasm_read_chunk mx rv s = (q, rv', s')"
  shows "q = Ready (Inr (Some c)) \<Longrightarrow> contents rv s = c @ contents rv' s' \<and> length c \<le> mx \<and> read_measure rv' s' < read_measure rv s"
    "q = Ready (Inr None) \<Longrightarrow> contents rv' s' = contents rv s \<and> rv_finished rv'"
    "q = Pending \<Longrightarrow> rv' = rv \<and> s' = s \<and> contents rv s = []" "q = Ready (Inl e) \<Longrightarrow> mx = 0"
proof -
  obtain t where t: "recv_read_chunk mx rv s = (q, rv', t)" "chan_mem t = chan_mem s'"
    by (rule wasm_read_chunk_same [OF assms])
  have eq: "contents rv' s' = contents rv' t" "read_measure rv' s' = read_measure rv' t"
    using t(2) by (simp_all add: contents_def read_measure_def)
  note laws = native_read_laws [OF t(1)]
  show "q = Ready (Inr (Some c)) \<Longrightarrow> contents rv s = c @ contents rv' s' \<and> length c \<le> mx \<and> read_measure rv' s' < read_measure rv s"
    unfolding eq by (rule laws(1))
  show "q = Ready (Inr None) \<Longrightarrow> contents rv' s' = contents rv s \<and> rv_finished rv'" unfolding eq by (rule laws(2))
  show "q = Ready (Inl e) \<Longrightarrow> mx = 0" by (rule laws(4))
  show "q = Pending \<Longrightarrow> rv' = rv \<and> s' = s \<and> contents rv s = []"
    using laws(3) wasm_read_pending assms by blast
qed

interpretation browser_receiving: mux_receiving browser_recv_stream contents read_measure
  by (unfold_locales; unfold browser_recv_stream_def mux_recv_stream_trait.simps)
    (auto simp: wasm_recv_closed_def dest: wasm_read_laws)

section \<open>Sessions on both platforms\<close>

interpretation native_accepting: mux_accepting native_session accept_uni_queue accept_bi_queue
  by (unfold_locales; unfold native_session_def mux_session_trait.simps) (auto simp: accept_uni_def accept_bi_def)

interpretation browser_accepting: mux_accepting browser_session accept_uni_queue accept_bi_queue
  by (unfold_locales; unfold browser_session_def mux_session_trait.simps) (auto simp: wasm_accept_uni_def wasm_accept_bi_def)

section \<open>What a portable client may rely on\<close>

text \<open>
  C14: writers keep the contract of the trait on both platforms. When buffers are written in turn, all
  writes succeed and the stream is finished, then the bytes queued for the stream are what was queued
  before followed by exactly the concatenated buffers, the stream is closed, and a further write of data
  fails and queues nothing.
\<close>

theorem mux_send_contract:
  fixes ds :: "(unit \<times> bytes) list" and ds' :: "(chan_env \<times> bytes) list"
  assumes "session_inv s" "ss_ok ss"
    and "write_many (\<lambda>_. write_buf ss) ds s = (True, s1)" "send_finish ss s1 = (Finished (Inr ()), s2)"
    and "write_many (\<lambda>e. wasm_write_buf e ss') ds' t = (True, t1)" "wasm_finish e ss' t1 = (Inr (), t2)"
    and "d \<noteq> []" "write_buf ss d s2 = (r, s3)" "wasm_write_buf e' ss' d t2 = (r', t3)"
  shows "stream_bytes ss s2 = stream_bytes ss s @ concat (map snd ds) \<and> send_closed ss s2
    \<and> stream_bytes ss' t2 = stream_bytes ss' t @ concat (map snd ds') \<and> wasm_send_closed ss' t2
    \<and> (\<exists>err. r = Finished (Inl err)) \<and> stream_bytes ss s3 = stream_bytes ss s2
    \<and> (\<exists>err. r' = Finished (Inl err)) \<and> stream_bytes ss' t3 = stream_bytes ss' t2"
proof -
  note native = native_sending.write_then_finish [of s ss ds s1 "()" "()" s2, unfolded native_send_stream_def mux_send_stream_trait.simps]
  note browser = browser_sending.write_then_finish [where s = t and h = ss' and ds = ds' and ?s1.0 = t1 and e = e and u = "()" and ?s2.0 = t2, unfolded browser_send_stream_def mux_send_stream_trait.simps]
  show ?thesis
    using native(1) native(2) [where d = d and r = r and ?s3.0 = s3] browser(1)
      browser(2) [where d = d and e' = e' and r = r' and ?s3.0 = t3] assms by simp
qed



lemma demo_finish:
  "\<exists>s1 s2. write_buf demo_send [1, 2, 3] demo_client = (Finished (Inr ()), s1) \<and> send_finish demo_send s1 = (Finished (Inr ()), s2)"
  "\<exists>t1 t2. wasm_write_buf demo_channels demo_send [1, 2, 3] demo_client = (Finished (Inr ()), t1)
     \<and> wasm_finish demo_channels demo_send t1 = (Inr (), t2)"
proof -
  obtain s1 where w: "write_buf demo_send [1, 2, 3] demo_client = (Finished (Inr ()), s1)" using demo_write by blast
  then have s1: "s1 = demo_client\<lparr>outbound := [FrameCmd (Stream (StreamId 2) [1, 2, 3] False)],
      shared_mem := (shared_mem demo_client)(0 := \<lparr>ss_finished = False, operation = False, api_mode = 1, handles = 0\<rparr>),
      flow_mem := (flow_mem demo_client)(0 := (flow_new 5)\<lparr>waker := True, sent_data := 3\<rparr>)\<rparr>"
    using demo_write by simp
  have "\<exists>s2. send_finish demo_send s1 = (Finished (Inr ()), s2)"
    unfolding s1
    by (simp add: send_finish_def guarded_def begin_operation_def select_api_def shared_update_def demo_client_def
        demo_send_def session_inner_new_def session_is_closed_def demo_limits_def flow_new_def finish_result_def
        fin_frame_def send_frame_def send_frame_resume_def outbound_full_def outbound_push_def hm_contains_def hm_get_def
        end_guarded_def end_operation_def Let_def)
  with w show "\<exists>s1 s2. write_buf demo_send [1, 2, 3] demo_client = (Finished (Inr ()), s1)
      \<and> send_finish demo_send s1 = (Finished (Inr ()), s2)" by blast
  show "\<exists>t1 t2. wasm_write_buf demo_channels demo_send [1, 2, 3] demo_client = (Finished (Inr ()), t1)
     \<and> wasm_finish demo_channels demo_send t1 = (Inr (), t2)"
    by (simp add: wasm_write_buf_def guarded_def begin_operation_def select_api_def shared_update_def demo_client_def
        demo_send_def session_inner_new_def wasm_session_closed_def wasm_write_loop.simps wasm_reserve_poll_def
        demo_limits_def wasm_try_reserve_def flow_update_def waker_register_def flow_new_def wasm_queue_poll_def demo_channels_def
        outbound_push_def end_guarded_def end_operation_def wasm_finish_def wasm_guarded_def wasm_send_frame_def
        wasm_try_send_frame_def Let_def)
qed

theorem mux_send_contract_witness:
  "\<exists>s2 t2. stream_bytes demo_send s2 = [1, 2, 3] \<and> send_closed demo_send s2
     \<and> stream_bytes demo_send t2 = [1, 2, 3] \<and> wasm_send_closed demo_send t2"
proof -
  obtain s1 s2 where n: "write_buf demo_send [1, 2, 3] demo_client = (Finished (Inr ()), s1)" "send_finish demo_send s1 = (Finished (Inr ()), s2)"
    using demo_finish(1) by blast
  obtain t1 t2 where b: "wasm_write_buf demo_channels demo_send [1, 2, 3] demo_client = (Finished (Inr ()), t1)"
      "wasm_finish demo_channels demo_send t1 = (Inr (), t2)" using demo_finish(2) by blast
  obtain r s3 r' t3 where "write_buf demo_send [1] s2 = (r, s3)" "wasm_write_buf demo_channels demo_send [1] t2 = (r', t3)"
    by (metis surj_pair)
  moreover have "stream_bytes demo_send demo_client = []" by (simp add: stream_bytes_def demo_client_def session_inner_new_def)
  ultimately show ?thesis
    using mux_send_contract [OF demo_client_inv, of "[((), [1, 2, 3])]" s1 s2 demo_send "[(demo_channels, [1, 2, 3])]" demo_client t1
        demo_channels t2 "[1]" r s3 demo_channels r' t3] n b by auto
qed

end
