(* ===== verification/Example_Programs.thy ===== *)
theory Example_Programs
  imports Plain_Endpoints Test_Programs
begin

text \<open>
  The example programs of the native crates (\<open>websock/examples\<close>, \<open>websock-mux/examples\<close>) and the accept
  loops of the test server: how a client chooses what it trusts, how a server is set
  up from its arguments, and the plain echo. The argument parser and the logging are left out. The
  package \<open>url\<close> is the record of what it reports about a URL; the PEM readers of \<open>rustls-pki-types\<close> and the
  default builders of \<open>rustls\<close> are arguments, a result \<open>None\<close> being a panic.
\<close>

section \<open>Arguments and errors\<close>

record parsed_url =
  url_str :: string
  url_scheme :: string
  url_host :: "string option"

record client_args =
  ca_url :: "parsed_url option"
  ca_tls_cert :: "string option"
  ca_tls_disable_verify :: bool

record server_args =
  sa_addr :: socket_addr
  sa_tls_cert :: "string option"
  sa_tls_key :: "string option"

text \<open>The errors that \<open>anyhow\<close> collects: of the library, of the PEM readers, of rustls, and messages.\<close>

datatype example_error = LibError error | PemError string | RustlsError string | Bail string

record pem_files =
  pem_file_iter :: "string \<Rightarrow> string + (string + certificate_der) list"
  from_pem_file :: "string \<Rightarrow> string + private_key_der"

definition map_pem :: "string + 'a \<Rightarrow> example_error + 'a" where
  "map_pem r = (case r of Inl e \<Rightarrow> Inl (PemError e) | Inr x \<Rightarrow> Inr x)"

definition map_rustls :: "string + 'a \<Rightarrow> example_error + 'a" where
  "map_rustls r = (case r of Inl e \<Rightarrow> Inl (RustlsError e) | Inr x \<Rightarrow> Inr x)"

definition map_lib :: "error + 'a \<Rightarrow> example_error + 'a" where
  "map_lib r = (case r of Inl e \<Rightarrow> Inl (LibError e) | Inr x \<Rightarrow> Inr x)"

lemma map_pem_Inr [simp]: "map_pem r = Inr x \<longleftrightarrow> r = Inr x"
  by (simp add: map_pem_def split: sum.splits)

lemma map_rustls_Inr [simp]: "map_rustls r = Inr x \<longleftrightarrow> r = Inr x"
  by (simp add: map_rustls_def split: sum.splits)

lemma map_lib_Inr [simp]: "map_lib r = Inr x \<longleftrightarrow> r = Inr x"
  by (simp add: map_lib_def split: sum.splits)

lemma map_option_lib [simp]: "map_option map_lib r = Some (Inr x) \<longleftrightarrow> r = Some (Inr x)"
  by (cases r) simp_all

definition ensure_nonempty :: "'a list \<Rightarrow> example_error + unit" where
  "ensure_nonempty xs = (if xs = [] then Inl (Bail ''could not find certificate'') else Inr ())"

lemma ensure_nonempty_Inr [simp]: "ensure_nonempty xs = Inr u \<longleftrightarrow> xs \<noteq> []"
  by (simp add: ensure_nonempty_def)

definition load_pem_certs :: "pem_files \<Rightarrow> string \<Rightarrow> example_error + certificate_der list" where
  "load_pem_certs f p = try_bind (map_pem (pem_file_iter f p)) (\<lambda>certs. map_pem (collect_results certs))"

definition load_pem_cert_and_key ::
  "pem_files \<Rightarrow> string \<Rightarrow> string \<Rightarrow> example_error + (certificate_der list \<times> private_key_der)" where
  "load_pem_cert_and_key f cert_path key_path =
     try_bind (map_pem (pem_file_iter f cert_path)) (\<lambda>certs.
     try_bind (map_pem (collect_results certs)) (\<lambda>chain.
     try_bind (ensure_nonempty chain) (\<lambda>_.
     try_bind (map_pem (from_pem_file f key_path)) (\<lambda>key. Inr (chain, key)))))"

section \<open>Clients\<close>

definition DEFAULT_ECHO_URL :: string where
  "DEFAULT_ECHO_URL = ''wss://echo.websocket.org''"

text \<open>The URL of the arguments or the default one; \<open>None\<close> is a panic on a default that does not parse.\<close>

definition client_url :: "(string \<Rightarrow> parsed_url option) \<Rightarrow> client_args \<Rightarrow> parsed_url option" where
  "client_url parse args = (case ca_url args of Some u \<Rightarrow> Some u | None \<Rightarrow> parse DEFAULT_ECHO_URL)"

definition is_localhost_url :: "parsed_url \<Rightarrow> bool" where
  "is_localhost_url u = (case url_host u of
     Some host \<Rightarrow> host = ''localhost'' \<or> host = ''127.0.0.1'' \<or> host = ''::1''
   | None \<Rightarrow> False)"

text \<open>\<open>build_client\<close> of the plain clients.\<close>

definition build_client ::
  "('p, 'r, 'v, 'c, 's) tls_env \<Rightarrow> pem_files \<Rightarrow> parsed_url \<Rightarrow> client_args \<Rightarrow> (example_error + 'c plain_client) option" where
  "build_client e f u args =
     (if url_scheme u = ''ws'' then Some (Inr (plain_client_build plain_client_builder_new))
      else if ca_tls_disable_verify args then
        map_option map_lib (with_no_certificate_verification e (plain_dangerous (plain_client_builder_new :: 'c plain_client_builder)))
      else case ca_tls_cert args of
        Some path \<Rightarrow>
          panic_bind (Some (load_pem_certs f path)) (\<lambda>chain.
          panic_bind (Some (ensure_nonempty chain)) (\<lambda>_.
          map_option map_lib (plain_with_server_certificates e chain plain_client_builder_new)))
      | None \<Rightarrow>
          if is_localhost_url u then
            map_option map_lib (with_no_certificate_verification e (plain_dangerous (plain_client_builder_new :: 'c plain_client_builder)))
          else map_option map_lib (plain_with_system_roots e plain_client_builder_new))"

text \<open>
  \<open>build_client\<close> of the mux client. It loads certificates with the helper of the library, skips those that
  the root store refuses, and makes the configuration with the default builder of rustls.
\<close>

definition mux_tls_config ::
  "('p, 'r, 'v, 'c, 's) tls_env \<Rightarrow> (string \<Rightarrow> io_error + bytes) \<Rightarrow> ('r \<Rightarrow> 'c tls_config option) \<Rightarrow> parsed_url \<Rightarrow> client_args
   \<Rightarrow> (example_error + 'c tls_config) option" where
  "mux_tls_config e read_file default_client u args =
     (if ca_tls_disable_verify args then map_option map_lib (client_new_insecure e)
      else case ca_tls_cert args of
        Some path \<Rightarrow>
          panic_bind (Some (map_lib (load_certs e read_file path))) (\<lambda>certs.
          panic_bind (Some (ensure_nonempty certs)) (\<lambda>_.
          map_option Inr (default_client
            (fold (\<lambda>c roots. case add_root e c roots of Inl _ \<Rightarrow> roots | Inr r \<Rightarrow> r) certs (empty_roots e)))))
      | None \<Rightarrow>
          if is_localhost_url u then map_option map_lib (client_new_insecure e)
          else map_option map_lib (client_new_with_native_certs e))"

definition mux_build_client ::
  "('p, 'r, 'v, 'c, 's) tls_env \<Rightarrow> (string \<Rightarrow> io_error + bytes) \<Rightarrow> ('r \<Rightarrow> 'c tls_config option) \<Rightarrow> parsed_url \<Rightarrow> client_args
   \<Rightarrow> (example_error + 'c tls_config mux_client) option" where
  "mux_build_client e read_file default_client u args =
     (if url_scheme u = ''ws'' then Some (Inr (mux_client_build with_alpn_protocols mux_client_builder_new))
      else panic_bind (mux_tls_config e read_file default_client u args) (\<lambda>tls_cfg.
        Some (Inr (mux_client_build with_alpn_protocols
          (mux_client_with_default_alpn (mux_client_with_tls tls_cfg mux_client_builder_new))))))"

section \<open>Servers\<close>

definition tls_arguments_incomplete :: example_error where
  "tls_arguments_incomplete = Bail ''both --tls-cert and --tls-key must be provided together, or neither''"

definition echo_server ::
  "('n, 'v, 'h) http_api \<Rightarrow> ('p, 'r, 'w, 'c, 's) tls_env \<Rightarrow> pem_files \<Rightarrow> (socket_addr \<Rightarrow> io_error + (io_error + socket_addr))
   \<Rightarrow> server_args \<Rightarrow> (example_error + ('n, 'v, 's tls_config) plain_server) option" where
  "echo_server a e f tcp_bind args =
     (let builder = plain_server_with_default_alpn (plain_server_with_addr (sa_addr args) plain_server_builder_new) in
      panic_bind
        (case (sa_tls_cert args, sa_tls_key args) of
           (Some cert_path, Some key_path) \<Rightarrow>
             panic_bind (Some (load_pem_cert_and_key f cert_path key_path)) (\<lambda>(chain, key).
             map_option map_lib (plain_server_with_certificate e chain key builder))
         | (None, None) \<Rightarrow> Some (Inr builder)
         | _ \<Rightarrow> Some (Inl tls_arguments_incomplete))
        (\<lambda>builder. Some (map_lib (plain_server_build a tcp_bind builder))))"

definition mux_echo_server ::
  "('n, 'v, 'h) http_api \<Rightarrow> (certificate_der list \<Rightarrow> private_key_der \<Rightarrow> (string + 's tls_config) option) \<Rightarrow> pem_files
   \<Rightarrow> (socket_addr \<Rightarrow> io_error + (io_error + socket_addr)) \<Rightarrow> server_args
   \<Rightarrow> (example_error + ('n, 'v, 's tls_config) mux_server) option" where
  "mux_echo_server a default_server f tcp_bind args =
     (let builder = mux_server_with_default_alpn (mux_server_with_addr (sa_addr args) mux_server_builder_new) in
      panic_bind
        (case (sa_tls_cert args, sa_tls_key args) of
           (Some cert_path, Some key_path) \<Rightarrow>
             panic_bind (Some (load_pem_cert_and_key f cert_path key_path)) (\<lambda>(chain, key).
             panic_bind (map_option map_rustls (default_server chain key)) (\<lambda>cfg.
             Some (Inr (mux_server_with_tls cfg builder))))
         | (None, None) \<Rightarrow> Some (Inr builder)
         | _ \<Rightarrow> Some (Inl tls_arguments_incomplete))
        (\<lambda>builder. Some (map_lib (mux_server_build a with_alpn_protocols tcp_bind builder))))"

text \<open>
  One turn of an accept loop: \<open>main\<close> of the example servers returns the first error of \<open>accept\<close>, the test
  server goes on after it.
\<close>

datatype ('e, 'c) accepted = Spawn 'c | Continue | Return 'e

definition echo_server_turn ::
  "('n, 'v, 'h) http_api \<Rightarrow> ('h, 's tls_config, socket_addr) incoming \<Rightarrow> ('n, 'v, 's tls_config) plain_server
   \<Rightarrow> (error, plain_conn) accepted option" where
  "echo_server_turn a inc srv = map_option (\<lambda>r. case r of Inr conn \<Rightarrow> Spawn conn | Inl e \<Rightarrow> Return e) (plain_accept a inc srv)"

definition mux_echo_server_turn ::
  "('n, 'v, 'h) http_api \<Rightarrow> ('h, 'tls, 'addr) incoming \<Rightarrow> ('n, 'v, 'tls) mux_server \<Rightarrow> (error, session) accepted option" where
  "mux_echo_server_turn a inc srv = map_option (\<lambda>r. case r of Inr s \<Rightarrow> Spawn s | Inl e \<Rightarrow> Return e) (mux_accept a inc srv)"

definition serve_mux_server ::
  "('n, 'v, 'h) http_api \<Rightarrow> (bytes list \<Rightarrow> 'tls \<Rightarrow> 'tls) \<Rightarrow> (socket_addr \<Rightarrow> io_error + (io_error + socket_addr))
   \<Rightarrow> error + ('n, 'v, 'tls) mux_server" where
  "serve_mux_server a set_alpn tcp_bind =
     mux_server_build a set_alpn tcp_bind (mux_server_with_addr (AddrV4 [127, 0, 0, 1] 32124) mux_server_builder_new)"

definition serve_mux_turn ::
  "('n, 'v, 'h) http_api \<Rightarrow> ('h, 'tls, 'addr) incoming \<Rightarrow> ('n, 'v, 'tls) mux_server \<Rightarrow> (error, session) accepted option" where
  "serve_mux_turn a inc srv = map_option (\<lambda>r. case r of Inr s \<Rightarrow> Spawn s | Inl e \<Rightarrow> Continue) (mux_accept a inc srv)"

text \<open>
  The plain endpoints of the test server: the listener spawns a handler per TCP connection, and the handler
  keeps the path of the request. \<open>uri_path\<close> is the path that the \<open>http\<close> package reports.
\<close>

definition serve_websocket_turn :: "('h, 'tls, 'addr) incoming \<Rightarrow> (io_error, ('h, 'tls, 'addr) incoming) accepted" where
  "serve_websocket_turn inc = (case tcp_accept inc of Inr _ \<Rightarrow> Spawn inc | Inl e \<Rightarrow> Return e)"

definition websocket_handler ::
  "('h \<Rightarrow> string) \<Rightarrow> ws_config \<Rightarrow> ws_sink \<Rightarrow> ('h, 'tls, 'addr) incoming \<Rightarrow> ((tungstenite_error + unit) \<times> sink_op list) option" where
  "websocket_handler uri_path cfg tx inc =
     map_option (\<lambda>r. case r of Inl e \<Rightarrow> (Inl e, []) | Inr path \<Rightarrow> handle_websocket tx path (hs_items inc) [])
       (accept_hdr inc (\<lambda>req resp. Some (Inr (resp, uri_path req))) cfg)"

text \<open>Its handler never panics, and on a path of its own it answers with exactly what arrives before a close.\<close>

lemma websocket_handler_total: "\<exists>r. websocket_handler uri_path cfg tx inc = Some r"
  using accept_hdr_total [of "\<lambda>req resp. Some (Inr (resp, uri_path req))" inc cfg] by (auto simp: websocket_handler_def)

lemma websocket_handler_echo:
  assumes "\<And>h a. tx h a = Inr ()" "hs_request inc cfg = Inr (req, resp)" "hs_reply inc resp = Inr ()"
    and "uri_path req \<notin> {''/overflow'', ''/close'', ''/delayed''}" "hs_items inc = map Inr ms"
  shows "websocket_handler uri_path cfg tx inc = Some (Inr (), map SinkSend (takeWhile (\<lambda>m. \<not> is_close (Inr m)) ms))"
  using assms(2-) srv_echo_all [of tx ms "[]"] assms(1)
  by (simp add: websocket_handler_def accept_hdr_def handle_websocket_def)

section \<open>What the programs trust\<close>

text \<open>
  A client verifies its server unless it is told not to, or has no certificate for a host that looks
  local. The roots are those of the file that was given, else those of the system.
\<close>

definition verifies :: "parsed_url \<Rightarrow> client_args \<Rightarrow> bool" where
  "verifies u args \<longleftrightarrow> \<not> ca_tls_disable_verify args \<and> (ca_tls_cert args \<noteq> None \<or> \<not> is_localhost_url u)"

definition plain_trust ::
  "('p, 'r, 'v, 'c, 's) tls_env \<Rightarrow> pem_files \<Rightarrow> parsed_url \<Rightarrow> client_args \<Rightarrow> ('r, 'v, 'p) verifier \<Rightarrow> bool" where
  "plain_trust e f u args v \<longleftrightarrow>
     (if \<not> verifies u args then v = SkipServerVerification (ring_provider e)
      else case ca_tls_cert args of
        None \<Rightarrow> v = RootCertificates (get_native_certs e)
      | Some path \<Rightarrow> \<exists>chain roots. load_pem_certs f path = Inr chain \<and> chain \<noteq> []
          \<and> add_roots e chain (empty_roots e) = Inr roots \<and> v = RootCertificates roots)"

lemma plain_client_trust:
  assumes "build_client e f u args = Some (Inr c)" "url_scheme u \<noteq> ''ws''"
  obtains p v t where "default_provider e = Some p" "client_config e p v = Inr t" "pc_tls c = Some t"
    "plain_trust e f u args v"
  using assms that
  by (cases "ca_tls_disable_verify args"; cases "ca_tls_cert args")
    (auto simp: build_client_def with_no_certificate_verification_def plain_with_system_roots_def panic_bind_Some_Inr
      plain_with_server_certificates_def client_new_insecure_def client_new_with_native_certs_def client_with_verifier_def
      plain_trust_def verifies_def split: option.splits if_splits)

text \<open>The multiplexing client keeps the certificates of its file that the root store accepts.\<close>

definition mux_trust ::
  "('p, 'r, 'v, 'c, 's) tls_env \<Rightarrow> (string \<Rightarrow> io_error + bytes) \<Rightarrow> ('r \<Rightarrow> 'c tls_config option) \<Rightarrow> parsed_url \<Rightarrow> client_args
   \<Rightarrow> 'c tls_config \<Rightarrow> bool" where
  "mux_trust e read_file dc u args t \<longleftrightarrow>
     (if \<not> verifies u args then client_new_insecure e = Some (Inr t)
      else case ca_tls_cert args of
        None \<Rightarrow> client_new_with_native_certs e = Some (Inr t)
      | Some path \<Rightarrow> \<exists>certs. load_certs e read_file path = Inr certs \<and> certs \<noteq> []
          \<and> dc (fold (\<lambda>x r. case add_root e x r of Inl _ \<Rightarrow> r | Inr r' \<Rightarrow> r') certs (empty_roots e)) = Some t)"

lemma mux_client_trust:
  assumes "mux_build_client e read_file dc u args = Some (Inr m)" "url_scheme u \<noteq> ''ws''"
  obtains t where "mc_tls m = Some (t\<lparr>alpn_protocols := default_ws_alpn\<rparr>)" "mux_trust e read_file dc u args t"
proof -
  obtain t where t: "mux_tls_config e read_file dc u args = Some (Inr t)"
      "m = mux_client_build with_alpn_protocols (mux_client_with_default_alpn (mux_client_with_tls t mux_client_builder_new))"
    using assms by (auto simp: mux_build_client_def panic_bind_Some_Inr)
  show ?thesis
  proof (rule that [of t])
    show "mc_tls m = Some (t\<lparr>alpn_protocols := default_ws_alpn\<rparr>)"
      by (simp add: t(2) mux_client_build_def mux_client_with_default_alpn_def mux_client_with_tls_def
          build_tls_config_def with_alpn_protocols_def)
    show "mux_trust e read_file dc u args t"
      using t(1)
      by (auto simp: mux_tls_config_def mux_trust_def verifies_def panic_bind_Some_Inr split: option.splits if_splits)
  qed
qed

lemma echo_server_acceptor:
  assumes "echo_server a e f tcp_bind args = Some (Inr srv)"
  shows "ps_acceptor srv = None \<and> sa_tls_cert args = None \<and> sa_tls_key args = None
    \<or> (\<exists>cp kp chain key p cfg. sa_tls_cert args = Some cp \<and> sa_tls_key args = Some kp
        \<and> load_pem_cert_and_key f cp kp = Inr (chain, key) \<and> chain \<noteq> [] \<and> default_provider e = Some p
        \<and> server_config e p chain key = Inr cfg \<and> ps_acceptor srv = Some (cfg\<lparr>alpn_protocols := default_ws_alpn\<rparr>))"
  using assms
  by (auto simp: echo_server_def Let_def panic_bind_Some_Inr plain_server_with_certificate_def server_with_certs_def
      plain_server_with_default_alpn_def plain_server_with_addr_def plain_server_builder_new_def plain_server_build_def
      build_tls_config_def with_alpn_protocols_def load_pem_cert_and_key_def try_bind_Inr_iff
      dest!: plain_bind_server(4) split: option.splits)

lemma mux_echo_server_acceptor:
  assumes "mux_echo_server a ds f tcp_bind args = Some (Inr srv)"
  shows "ms_acceptor srv = None \<and> sa_tls_cert args = None \<and> sa_tls_key args = None
    \<or> (\<exists>cp kp chain key cfg. sa_tls_cert args = Some cp \<and> sa_tls_key args = Some kp
        \<and> load_pem_cert_and_key f cp kp = Inr (chain, key) \<and> chain \<noteq> [] \<and> ds chain key = Some (Inr cfg)
        \<and> ms_acceptor srv = Some (cfg\<lparr>alpn_protocols := default_ws_alpn\<rparr>))"
  using assms
  by (auto simp: mux_echo_server_def Let_def panic_bind_Some_Inr mux_server_with_tls_def mux_server_with_default_alpn_def
      mux_server_with_addr_def mux_server_builder_new_def mux_server_build_def build_tls_config_def with_alpn_protocols_def
      load_pem_cert_and_key_def try_bind_Inr_iff dest!: mux_bind_server(6) split: option.splits)

text \<open>The mux endpoint of the test server never stops accepting, whatever a client does.\<close>

lemma serve_mux_goes_on:
  assumes "serve_mux_server a set_alpn tcp_bind = Inr srv"
  shows "(\<exists>s. serve_mux_turn a inc srv = Some (Spawn s)) \<or> serve_mux_turn a inc srv = Some Continue"
proof -
  obtain r where "mux_accept a inc srv = Some r"
    using mux_accept_total assms unfolding serve_mux_server_def mux_server_build_def by blast
  then show ?thesis by (cases r) (simp_all add: serve_mux_turn_def)
qed

section \<open>The plain echo\<close>

text \<open>The task of an accepted connection.\<close>

lemma conn_send_in: "ws_in (snd (conn_send tx m c)) = ws_in c"
  by (simp add: conn_send_def conn_sink_def split: sum.splits)

lemma conn_send_shorter:
  assumes "conn_recv tx c = (Inr m, c1)" "conn_send tx m c1 = (r, c2)"
  shows "length (ws_in c2) < length (ws_in c)"
  using conn_recv_shorter [OF assms(1)] conn_send_in [of tx m c1] assms(2) by simp

function echo_conn :: "ws_sink \<Rightarrow> plain_conn \<Rightarrow> plain_conn" where
  "echo_conn tx c = (case conn_recv tx c of
     (Inl e, c1) \<Rightarrow> c1
   | (Inr m, c1) \<Rightarrow>
       (case conn_send tx m c1 of (Inl e, c2) \<Rightarrow> c2 | (Inr _, c2) \<Rightarrow> echo_conn tx c2))"
  by pat_completeness auto
termination
  by (relation "measure (\<lambda>(tx, c). length (ws_in c))") (auto dest: conn_send_shorter [OF sym sym])

declare echo_conn.simps [simp del]

definition echo_conn_task :: "ws_sink \<Rightarrow> plain_conn \<Rightarrow> plain_conn" where
  "echo_conn_task tx c = snd (conn_close tx (echo_conn tx c))"

text \<open>The client: connecting, and the exchange after it has connected.\<close>

definition echo_client_connect ::
  "('n, 'v, 'h) http_api \<Rightarrow> ('p, 'r, 'w, 'c, 's) tls_env \<Rightarrow> pem_files \<Rightarrow> (string \<Rightarrow> parsed_url option)
   \<Rightarrow> (string \<Rightarrow> string + 'h) \<Rightarrow> ('c tls_config option \<Rightarrow> ws_config \<Rightarrow> 'h \<Rightarrow> tungstenite_error + 'h dialled) \<Rightarrow> client_args
   \<Rightarrow> (example_error + plain_conn) option" where
  "echo_client_connect a e f parse into_client_request dial args = (case client_url parse args of
     None \<Rightarrow> None
   | Some url \<Rightarrow>
       panic_bind (build_client e f url args) (\<lambda>client.
       Some (map_lib (plain_client_connect a into_client_request dial client (url_str url)))))"

definition echo_client :: "ws_sink \<Rightarrow> plain_conn \<Rightarrow> (error + message) \<times> plain_conn" where
  "echo_client tx c = (case conn_send tx (Text ''hello'') c of
     (Inl e, c1) \<Rightarrow> (Inl e, c1)
   | (Inr _, c1) \<Rightarrow>
       (case conn_recv tx c1 of
          (Inl e, c2) \<Rightarrow> (Inl e, c2)
        | (Inr msg, c2) \<Rightarrow>
            (case conn_close tx c2 of (Inl e, c3) \<Rightarrow> (Inl e, c3) | (Inr _, c3) \<Rightarrow> (Inr msg, c3))))"

text \<open>What was sent, and what an echo sends for what arrives: every message as it is, and the pongs.\<close>

fun op_message :: "sink_op \<Rightarrow> ws_message option" where
  "op_message (SinkSend m) = Some m"
| "op_message _ = None"

definition conn_sent :: "plain_conn \<Rightarrow> ws_message list" where
  "conn_sent c = List.map_filter op_message (ws_out c)"

fun echoed :: "(tungstenite_error + ws_message) list \<Rightarrow> ws_message list" where
  "echoed (Inr (WsText t) # r) = WsText t # echoed r"
| "echoed (Inr (WsBinary b) # r) = WsBinary b # echoed r"
| "echoed (Inr (WsPing p) # r) = WsPong p # echoed r"
| "echoed (Inr (WsPong p) # r) = echoed r"
| "echoed _ = []"

lemma conn_sent_simps [simp]:
  "conn_sent (c\<lparr>ws_in := r\<rparr>) = conn_sent c"
  "conn_sent (c\<lparr>conn_close_frame := f\<rparr>) = conn_sent c"
  "conn_sent (c\<lparr>ws_out := ws_out c @ [SinkSend m]\<rparr>) = conn_sent c @ [m]"
  "conn_sent (c\<lparr>ws_in := r, ws_out := ws_out c @ [SinkSend m]\<rparr>) = conn_sent c @ [m]"
  "conn_sent (snd (conn_sink tx SinkClose c)) = conn_sent c"
  by (simp_all add: conn_sent_def map_filter_def conn_sink_def split: sum.splits)

lemma echo_conn_control:
  assumes "conn_recv tx c = conn_recv tx d"
  shows "echo_conn tx c = echo_conn tx d"
  using assms by (simp add: echo_conn.simps)

lemma echo_conn_message:
  assumes "conn_recv tx c = (Inr m, c\<lparr>ws_in := r\<rparr>)" "to_ws m = w"
  shows "echo_conn tx c = (case tx (ws_out c) (SinkSend w) of
      Inl e \<Rightarrow> c\<lparr>ws_in := r\<rparr>
    | Inr _ \<Rightarrow> echo_conn tx (c\<lparr>ws_in := r, ws_out := ws_out c @ [SinkSend w]\<rparr>))"
  using assms by (simp add: echo_conn.simps [of tx c] conn_send_def conn_sink_def split: sum.splits)

definition sends_work :: "ws_sink \<Rightarrow> bool" where
  "sends_work tx \<longleftrightarrow> (\<forall>h m. tx h (SinkSend m) = Inr ())"

text \<open>
  Over any sink an echo sends a beginning of what it owes, and all of it when sending works.
\<close>

definition echo_conn_spec :: "ws_sink \<Rightarrow> plain_conn \<Rightarrow> plain_conn \<Rightarrow> bool" where
  "echo_conn_spec tx c c' \<longleftrightarrow> prefix (conn_sent c') (conn_sent c @ echoed (ws_in c))
     \<and> (sends_work tx \<longrightarrow> conn_sent c' = conn_sent c @ echoed (ws_in c))"

lemma echo_conn_sends: "echo_conn_spec tx c (echo_conn tx c)"
proof (induction "ws_in c" arbitrary: c)
  case (Cons item rest)
  note [simp] = Cons.hyps(2) [symmetric]
  have go: "echo_conn_spec tx d (echo_conn tx d)" if "ws_in d = rest" for d
    using Cons.hyps(1) [of d] that by simp
  have send: "echo_conn_spec tx c (case tx (ws_out c) (SinkSend m) of
        Inl e \<Rightarrow> c\<lparr>ws_in := rest\<rparr>
      | Inr _ \<Rightarrow> echo_conn tx (c\<lparr>ws_in := rest, ws_out := ws_out c @ [SinkSend m]\<rparr>))"
    if "echoed (ws_in c) = m # echoed rest" for m
    using go [of "c\<lparr>ws_in := rest, ws_out := ws_out c @ [SinkSend m]\<rparr>"] that
    by (auto simp: echo_conn_spec_def sends_work_def split: sum.splits)
  show ?case
  proof (cases item)
    case (Inl e)
    then show ?thesis by (simp add: echo_conn.simps [of tx c] conn_recv_eqs echo_conn_spec_def)
  next
    case item: (Inr w)
    show ?thesis
    proof (cases w)
      case (WsText t)
      then show ?thesis using item send echo_conn_message [OF conn_recv_eqs(3) [of c t rest tx], of "WsText t"] by simp
    next
      case (WsBinary b)
      then show ?thesis using item send echo_conn_message [OF conn_recv_eqs(4) [of c b rest tx], of "WsBinary b"] by simp
    next
      case (WsPing p)
      show ?thesis
      proof (cases "tx (ws_out c) (SinkSend (WsPong p))")
        case (Inl e)
        then show ?thesis
          using item WsPing send [of "WsPong p"] by (simp add: echo_conn.simps [of tx c] conn_recv_eqs(6) [of c p rest])
      next
        case (Inr u)
        then show ?thesis
          using item WsPing send [of "WsPong p"]
            echo_conn_control [of tx c "c\<lparr>ws_in := rest, ws_out := ws_out c @ [SinkSend (WsPong p)]\<rparr>"]
          by (simp add: conn_recv_eqs(6) [of c p rest])
      qed
    next
      case (WsPong p)
      then show ?thesis
        using item go [of "c\<lparr>ws_in := rest\<rparr>"] echo_conn_control [of tx c "c\<lparr>ws_in := rest\<rparr>"]
        by (simp add: conn_recv_eqs(5) [of c p rest] echo_conn_spec_def)
    next
      case (WsClose f)
      then show ?thesis using item by (simp add: echo_conn.simps [of tx c] conn_recv_eqs echo_conn_spec_def)
    qed (use item in \<open>simp add: echo_conn.simps [of tx c] conn_recv_eqs echo_conn_spec_def\<close>)
  qed
qed (simp add: echo_conn.simps conn_recv_eqs echo_conn_spec_def)

lemma echo_task_sends: "echo_conn_spec tx c (echo_conn_task tx c)"
  using echo_conn_sends [of tx c] by (simp add: echo_conn_task_def conn_close_def echo_conn_spec_def)

lemma conn_close_sent: "conn_close tx c = (r, c') \<Longrightarrow> conn_sent c' = conn_sent c"
  using conn_sent_simps(5) [of tx c] by (cases "conn_sink tx SinkClose c") (simp add: conn_close_def)

lemma conn_recv_sent: "prefix (conn_sent c) (conn_sent (snd (conn_recv tx c)))"
proof (induction "ws_in c" arbitrary: c)
  case (Cons item rest)
  note [simp] = Cons.hyps(2) [symmetric]
  have go: "prefix (conn_sent d) (conn_sent (snd (conn_recv tx d)))" if "ws_in d = rest" for d
    using Cons.hyps(1) [of d] that by simp
  show ?case
  proof (cases item)
    case item: (Inr w)
    show ?thesis
    proof (cases w)
      case (WsPing p)
      have "prefix (conn_sent c) (conn_sent (snd (conn_recv tx
          (c\<lparr>ws_in := rest, ws_out := ws_out c @ [SinkSend (WsPong p)]\<rparr>))))"
        using go [of "c\<lparr>ws_in := rest, ws_out := ws_out c @ [SinkSend (WsPong p)]\<rparr>"] by (auto simp: prefix_def)
      then show ?thesis using item WsPing by (simp add: conn_recv_eqs(6) [of c p rest] split: sum.splits)
    next
      case (WsPong p)
      then show ?thesis using item go [of "c\<lparr>ws_in := rest\<rparr>"] by (simp add: conn_recv_eqs(5) [of c p rest])
    qed (use item in \<open>simp_all add: conn_recv_eqs\<close>)
  qed (simp add: conn_recv_eqs)
qed (simp add: conn_recv_eqs)

lemma echo_client_sends:
  assumes "\<forall>h a. tx h a = Inr ()"
  shows "\<exists>r. conn_sent (snd (echo_client tx c)) = conn_sent c @ WsText ''hello'' # r"
    and "\<And>r. ws_in c = Inr (WsText t) # r \<Longrightarrow> fst (echo_client tx c) = Inr (Text t)"
proof -
  let ?c1 = "c\<lparr>ws_out := ws_out c @ [SinkSend (WsText ''hello'')]\<rparr>"
  have c1: "conn_send tx (Text ''hello'') c = (Inr (), ?c1)" using assms by (simp add: conn_send_def conn_sink_def)
  show "\<exists>r. conn_sent (snd (echo_client tx c)) = conn_sent c @ WsText ''hello'' # r"
  proof -
    have "prefix (conn_sent ?c1) (conn_sent (snd (conn_recv tx ?c1)))"
      by (rule conn_recv_sent)
    then have "prefix (conn_sent ?c1) (conn_sent (snd (echo_client tx c)))"
      using c1 by (auto simp: echo_client_def dest: conn_close_sent split: prod.splits sum.splits)
    then show ?thesis by (auto simp: prefix_def)
  qed
  show "\<And>r. ws_in c = Inr (WsText t) # r \<Longrightarrow> fst (echo_client tx c) = Inr (Text t)"
    using c1 assms by (simp add: echo_client_def conn_recv_eqs conn_close_def conn_sink_def)
qed

text \<open>New connections have sent nothing.\<close>

lemma connected_fresh:
  "echo_client_connect a e f parse icr dial args = Some (Inr c) \<Longrightarrow> conn_sent c = []"
  "echo_server_turn a inc srv = Some (Spawn d) \<Longrightarrow> conn_sent d = []"
  by (auto simp: echo_client_connect_def panic_bind_Some_Inr plain_client_connect_def plain_connect_with_tls_def
      try_bind_Inr_iff conn_sent_def map_filter_def echo_server_turn_def plain_accept_def plain_handshake_def
      panic_bind_def split: option.splits sum.splits)

text \<open>
  C23: the plain echo. The server task answers what arrives on its connection with exactly the same text
  and binary messages in order, and a pong for every ping, up to the first close, error or end; over a
  sink that fails it sends a beginning of that. So when the network carries what one side sends to the
  other side, the client gets its own message back.
\<close>

theorem plain_echo:
  assumes "echo_client_connect a e f parse icr dial args = Some (Inr c)" "echo_server_turn b inc srv = Some (Spawn d)"
    and "\<forall>h x. tx h x = Inr ()" "sends_work tx'"
    and "prefix (map Inr (conn_sent (snd (echo_client tx c)))) (ws_in d)"
    and "prefix (map Inr (conn_sent (echo_conn_task tx' d))) (ws_in c)"
  shows "fst (echo_client tx c) = Inr (Text ''hello'')
    \<and> conn_sent (echo_conn_task tx' d) = echoed (ws_in d)
    \<and> (\<forall>tx''. prefix (conn_sent (echo_conn_task tx'' d)) (echoed (ws_in d)))"
proof -
  note fresh = connected_fresh(1) [OF assms(1)] connected_fresh(2) [OF assms(2)]
  have spec: "echo_conn_spec s d (echo_conn_task s d)" for s by (rule echo_task_sends)
  obtain r where "ws_in d = Inr (WsText ''hello'') # r"
    using echo_client_sends(1) [OF assms(3), of c] fresh(1) assms(5) by (auto simp: prefix_def)
  then have "\<exists>r. conn_sent (echo_conn_task tx' d) = WsText ''hello'' # r"
    using spec [of tx'] assms(4) fresh(2) by (simp add: echo_conn_spec_def)
  then obtain r where "ws_in c = Inr (WsText ''hello'') # r" using assms(6) by (auto simp: prefix_def)
  then show ?thesis using echo_client_sends(2) [OF assms(3)] spec assms(4) fresh(2) by (simp add: echo_conn_spec_def)
qed

text \<open>An environment in which a configuration shows how the server is verified.\<close>

definition demo_tls_env :: "(unit, bytes list, unit, (bytes list, unit, unit) verifier, unit) tls_env" where
  "demo_tls_env = \<lparr>installed_provider = None, feature_ring = True, ring_provider = (), feature_aws_lc_rs = False,
     aws_lc_rs_provider = (), empty_roots = [], add_root = (\<lambda>c r. Inr (r @ [c])), native_certs = [[9]],
     pem_certs = (\<lambda>b. [Inr b]), pem_key = (\<lambda>b. Inr (Pkcs8 b)), self_signed = (\<lambda>_. Inl ''unused''),
     client_config = (\<lambda>p v. Inr \<lparr>alpn_protocols = [], tls_inner = v\<rparr>),
     server_config = (\<lambda>p c k. Inr \<lparr>alpn_protocols = [], tls_inner = ()\<rparr>)\<rparr>"

definition demo_pem_files :: pem_files where
  "demo_pem_files = \<lparr>pem_file_iter = (\<lambda>_. Inr [Inr [1], Inr [2]]), from_pem_file = (\<lambda>_. Inr (Pkcs8 [3]))\<rparr>"

definition demo_echo_incoming :: "((string \<times> string) list, unit tls_config, socket_addr) incoming" where
  "demo_echo_incoming = demo_plain_incoming\<lparr>hs_items := [Inr (WsText ''hello''), Inr (WsPing [7]), Inr (WsClose None)]\<rparr>"

definition demo_echo_dial ::
  "'tls option \<Rightarrow> ws_config \<Rightarrow> (string \<times> string) list \<Rightarrow> tungstenite_error + (string \<times> string) list dialled" where
  "demo_echo_dial tls cfg req = Inr \<lparr>dl_peer = Inr (AddrV4 [127, 0, 0, 1] 80), dl_local = Inr (AddrV4 [10, 0, 0, 1] 5),
     dl_rustls = False, dl_response = [], dl_items = [Inr (WsText ''hello''), Inr (WsPong [7])]\<rparr>"

definition demo_ws_args :: client_args where
  "demo_ws_args = \<lparr>ca_url = Some \<lparr>url_str = ''ws://x'', url_scheme = ''ws'', url_host = Some ''x''\<rparr>,
     ca_tls_cert = None, ca_tls_disable_verify = False\<rparr>"

lemma demo_echo_connections:
  obtains srv c d where
    "echo_client_connect demo_http demo_tls_env demo_pem_files (\<lambda>_. None) (\<lambda>_. Inr []) demo_echo_dial demo_ws_args = Some (Inr c)"
    "ws_in c = [Inr (WsText ''hello''), Inr (WsPong [7])]" "ws_out c = []"
    "echo_server_turn demo_http demo_echo_incoming srv = Some (Spawn d)"
    "ws_in d = [Inr (WsText ''hello''), Inr (WsPing [7]), Inr (WsClose None)]" "ws_out d = []"
proof -
  obtain srv where srv: "plain_server_build demo_http (\<lambda>_. Inr demo_listener) demo_plain_server = Inr srv"
      "ps_headers srv = []" "ps_acceptor srv = None" "ps_protocols srv = {''json''}"
    using demo_plain_bound .
  have "\<exists>c. echo_client_connect demo_http demo_tls_env demo_pem_files (\<lambda>_. None) (\<lambda>_. Inr []) demo_echo_dial demo_ws_args
      = Some (Inr c) \<and> ws_in c = [Inr (WsText ''hello''), Inr (WsPong [7])] \<and> ws_out c = []"
    by (simp add: echo_client_connect_def client_url_def demo_ws_args_def build_client_def plain_client_build_def
        plain_client_builder_new_def plain_client_connect_def plain_connect_with_tls_def connect_options_default_def
        websocket_limits_default_def websocket_limits_validate_def client_request_def apply_protocols_def map_ws_def map_io_def
        demo_echo_dial_def)
  moreover have "\<exists>d. echo_server_turn demo_http demo_echo_incoming srv = Some (Spawn d)
      \<and> ws_in d = [Inr (WsText ''hello''), Inr (WsPing [7]), Inr (WsClose None)] \<and> ws_out d = []"
    using srv(2-4)
    by (simp add: echo_server_turn_def plain_accept_def plain_handshake_def accept_hdr_def demo_echo_incoming_def
        demo_plain_incoming_def map_io_def map_ws_def tls_upgrade_def plain_callback_def response_headers_def
        select_protocol_def demo_http_def trim_def is_whitespace_def Let_def)
  ultimately show ?thesis using that by blast
qed

theorem plain_echo_witness:
  "\<exists>srv c d.
      echo_client_connect demo_http demo_tls_env demo_pem_files (\<lambda>_. None) (\<lambda>_. Inr []) demo_echo_dial demo_ws_args = Some (Inr c)
    \<and> echo_server_turn demo_http demo_echo_incoming srv = Some (Spawn d)
    \<and> fst (echo_client (\<lambda>_ _. Inr ()) c) = Inr (Text ''hello'')
    \<and> conn_sent (echo_conn_task (\<lambda>_ _. Inr ()) d) = [WsText ''hello'', WsPong [7]]"
proof -
  let ?tx = "\<lambda>_ _. Inr ()"
  obtain srv c d where w:
      "echo_client_connect demo_http demo_tls_env demo_pem_files (\<lambda>_. None) (\<lambda>_. Inr []) demo_echo_dial demo_ws_args = Some (Inr c)"
      "ws_in c = [Inr (WsText ''hello''), Inr (WsPong [7])]" "ws_out c = []"
      "echo_server_turn demo_http demo_echo_incoming srv = Some (Spawn d)"
      "ws_in d = [Inr (WsText ''hello''), Inr (WsPing [7]), Inr (WsClose None)]" "ws_out d = []"
    using demo_echo_connections .
  have c: "conn_sent (snd (echo_client ?tx c)) = [WsText ''hello'']"
    using w(2,3)
    by (simp add: echo_client_def conn_send_def conn_close_def conn_sink_def conn_recv_eqs conn_sent_def map_filter_def)
  have d: "conn_sent (echo_conn_task ?tx d) = [WsText ''hello'', WsPong [7]]"
    using w(5,6)
    by (simp add: echo_conn_task_def echo_conn.simps conn_send_def conn_close_def conn_sink_def conn_recv_eqs
        conn_sent_def map_filter_def)
  have "fst (echo_client ?tx c) = Inr (Text ''hello'')"
    using plain_echo [OF w(1,4), of ?tx ?tx] c d w(2,5) by (simp add: sends_work_def)
  then show ?thesis using d w(1,4) by blast
qed

text \<open>
  C35: what the example programs trust. A client for a TLS URL has a TLS configuration, and it is one that
  verifies the server unless verification was disabled, or no certificate was given for a host that looks
  local. A verifying client trusts the certificates of the given file, of which there is at least one, else
  the roots of the system. Both clients, plain and multiplexing, decide alike.
\<close>

theorem example_clients_verify:
  assumes "url_scheme u \<noteq> ''ws''" "build_client e f u args = Some (Inr c)"
    and "mux_build_client e read_file dc u args = Some (Inr m)"
  shows "\<exists>p v t t'. default_provider e = Some p \<and> client_config e p v = Inr t \<and> pc_tls c = Some t
    \<and> mc_tls m = Some (t'\<lparr>alpn_protocols := default_ws_alpn\<rparr>)
    \<and> (if \<not> verifies u args then v = SkipServerVerification (ring_provider e) \<and> t' = t
       else case ca_tls_cert args of
         None \<Rightarrow> v = RootCertificates (get_native_certs e) \<and> t' = t
       | Some path \<Rightarrow> \<exists>chain roots certs roots'. v = RootCertificates roots \<and> dc roots' = Some t'
           \<and> load_pem_certs f path = Inr chain \<and> chain \<noteq> [] \<and> add_roots e chain (empty_roots e) = Inr roots
           \<and> load_certs e read_file path = Inr certs \<and> certs \<noteq> []
           \<and> roots' = fold (\<lambda>x r. case add_root e x r of Inl _ \<Rightarrow> r | Inr r' \<Rightarrow> r') certs (empty_roots e))"
proof -
  obtain p v t where t: "default_provider e = Some p" "client_config e p v = Inr t" "pc_tls c = Some t"
    and v: "plain_trust e f u args v"
    using plain_client_trust [OF assms(2,1)] .
  obtain t' where m: "mc_tls m = Some (t'\<lparr>alpn_protocols := default_ws_alpn\<rparr>)"
    and t': "mux_trust e read_file dc u args t'"
    using mux_client_trust [OF assms(3,1)] .
  have same: "t' = t" if "client_with_verifier e v = Some (Inr t')"
    using that t(1,2) by (simp add: client_with_verifier_def)
  show ?thesis
    by (intro exI [of _ p] exI [of _ v] exI [of _ t] exI [of _ t'])
      (use t m v t' same in \<open>auto simp: plain_trust_def mux_trust_def client_new_insecure_def client_new_with_native_certs_def
        split: option.splits if_splits\<close>)
qed

theorem example_clients_verify_witness:
  "\<exists>c m. build_client demo_tls_env demo_pem_files \<lparr>url_str = ''wss://localhost'', url_scheme = ''wss'', url_host = Some ''localhost''\<rparr>
        \<lparr>ca_url = None, ca_tls_cert = Some ''ca.pem'', ca_tls_disable_verify = False\<rparr> = Some (Inr c)
    \<and> mux_build_client demo_tls_env (\<lambda>_. Inr [5]) (\<lambda>r. Some \<lparr>alpn_protocols = [], tls_inner = RootCertificates r\<rparr>)
        \<lparr>url_str = ''wss://localhost'', url_scheme = ''wss'', url_host = Some ''localhost''\<rparr>
        \<lparr>ca_url = None, ca_tls_cert = Some ''ca.pem'', ca_tls_disable_verify = False\<rparr> = Some (Inr m)
    \<and> map_option tls_inner (pc_tls c) = Some (RootCertificates [[1], [2]])
    \<and> map_option tls_inner (mc_tls m) = Some (RootCertificates [[5]])"
proof -
  let ?u = "\<lparr>url_str = ''wss://localhost'', url_scheme = ''wss'', url_host = Some ''localhost''\<rparr>"
    and ?a = "\<lparr>ca_url = None, ca_tls_cert = Some ''ca.pem'', ca_tls_disable_verify = False\<rparr>"
    and ?dc = "\<lambda>r. Some \<lparr>alpn_protocols = [], tls_inner = RootCertificates r\<rparr>"
  note env = demo_tls_env_def demo_pem_files_def
  have pem: "load_pem_certs demo_pem_files ''ca.pem'' = Inr [[1], [2]]" by (simp add: load_pem_certs_def env map_pem_def)
  have der: "extension ''ca.pem'' \<noteq> Some ''der''" by code_simp
  then have load: "load_certs demo_tls_env (\<lambda>_. Inr [5]) ''ca.pem'' = Inr [[5]]"
    by (simp add: load_certs_def env map_io_def map_tls_def)
  have "\<exists>c. plain_with_server_certificates demo_tls_env [[1], [2]] plain_client_builder_new = Some (Inr c)"
    by (simp add: plain_with_server_certificates_def client_with_verifier_def default_provider_def demo_tls_env_def map_tls_def)
  then obtain c where c: "build_client demo_tls_env demo_pem_files ?u ?a = Some (Inr c)"
    by (auto simp: build_client_def pem ensure_nonempty_def)
  obtain m where m: "mux_build_client demo_tls_env (\<lambda>_. Inr [5]) ?dc ?u ?a = Some (Inr m)"
    by (simp add: mux_build_client_def mux_tls_config_def load map_lib_def ensure_nonempty_def)
  have "verifies ?u ?a" by (simp add: verifies_def)
  then show ?thesis
    using example_clients_verify [OF _ c m] c m pem load by (auto simp: env map_tls_def)
qed

end
