(* ===== verification/Spec2Isabelle.thy ===== *)
theory Spec2Isabelle
  imports Send_Flow_Cas Session_Guarantees Write_Delivery Wire Stream_Behaviour Wasm_Wire Plain_Endpoints
    Browser_Endpoints Ws_Contract Test_Programs Echo_Roundtrip Mux_Contract Example_Programs
begin

text \<open>
  A verification of \<open>websock\<close>: its WebSocket transports and its stream multiplexer.

  \<^bold>\<open>The program.\<close> A WebSocket connection carries binary messages. The multiplexer runs many streams over
  it: \<open>websock-mux-proto\<close> defines frames and their wire format, \<open>websock-tungstenite-mux\<close> the native
  session over tokio, \<open>websock-wasm-mux\<close> the browser session. A session has a table of receive streams,
  a table of send flows, an outbound queue of frames, two accept queues, and tasks that move frames
  between the connection and these tables: the inbound task decodes messages and handles frames, the
  writer task groups queued frames and pending credit into messages. Applications hold a session handle
  and stream handles. Each direction of each stream is under credit-based flow control. Below the
  multiplexer, \<open>websock-tungstenite\<close> and \<open>websock-wasm\<close> are the plain connections of the two platforms,
  and builders, clients and servers of all four crates make connections and sessions.

  \<^bold>\<open>Wire format.\<close> \<open>Varint\<close> (\<open>varint.rs\<close>): variable-length integers with their synchronous and
  asynchronous readers and writers; round trip, exact acceptance, agreement of the two readers. \<open>Frames\<close>
  (\<open>stream.rs\<close>): stream identifiers and frames; round trip, soundness of the decoder, when the encoder
  panics, unique reading of concatenated frames, and the truncated length on 32-bit targets. Both codecs
  are instances of the interface \<open>codec\<close>. A panic is \<open>None\<close>, a decoding error \<open>Inl\<close>. \<open>usize\<close> is \<open>nat\<close>
  with the pointer width as an argument where the code converts or saturates.

  \<^bold>\<open>Options.\<close> \<open>Ws_Options\<close> (\<open>options.rs\<close>, \<open>error.rs\<close>, \<open>message.rs\<close>, the limits of \<open>session.rs\<close>): what the
  validation of limits accepts, that a maximal data frame fits one batch, and that the configurations
  given to tungstenite keep its requirement.

  \<^bold>\<open>Flow control.\<close> \<open>Send_Flow\<close> has the operations of \<open>SendFlowState\<close> as atomic functions. \<open>Send_Flow_Cas\<close>
  has them as compare-and-swap loops of any number of threads, interleaved instruction by instruction,
  and shows that sent and held bytes never exceed the credit and that a loop without interference
  computes the atomic function.

  \<^bold>\<open>Native session.\<close> \<open>Session_State\<close> has the record \<open>session\<close> (\<open>SessionInner\<close>, the objects behind its
  \<open>Arc\<close>s in memories addressed by numbers, and the queues) and the primitive operations;
  \<open>Session_Frames\<close> the frame handler; \<open>Recv_Stream\<close> and \<open>Send_Stream\<close> the stream handles with their
  direct and polled interfaces; \<open>Session_Api\<close> the session handle; \<open>Session_Tasks\<close> the two tasks. An
  asynchronous function is a function that runs to its first suspension and a function that resumes it
  (\<open>_resume\<close>), with a third for dropping it while suspended (\<open>_cancel\<close>). The code between two awaits is
  one step: the locks of the code are held within such a step only. A bounded channel of tokio is a list
  with its capacity taken from the limits, as its documentation describes it; a slot that was handed to a
  suspended sender counts as free until that sender is polled. The choice of a key from a hash map, the
  result of every operation on the WebSocket sink, and the messages that arrive are arguments.

  \<^bold>\<open>Invariants.\<close> \<open>Session_Inv\<close> defines the session invariant; \<open>Session_Safety\<close> and \<open>Task_Safety\<close> show that
  the handler and the tasks preserve it. \<open>Session_Evolve\<close> and \<open>Session_Handles\<close> add the relation between a
  receive handle and its channel (what was granted, received and consumed) and show that every step
  keeps it for all handles at once; \<open>Recv_Safety\<close>, \<open>Send_Safety\<close> and \<open>Api_Safety\<close> do so for the calls of
  an application. \<open>Session_System\<close> composes a session, its tasks and an application with any number of
  handles and suspended calls into one transition system; \<open>System_Safety\<close> shows that its invariant is
  inductive, through the interface \<open>invariant_system\<close>. \<open>Session_Guarantees\<close> reads off what holds in every
  reachable state: bounded queues, windows and credit kept in both directions, and no panic of the
  writer. \<open>Session_Runs\<close> has concrete runs that the witnesses use.

  \<^bold>\<open>Behaviour.\<close> \<open>Write_Delivery\<close>: what a write queues and how it is accounted for across suspensions.
  \<open>Wire\<close>: the writer refines a grouping of frames and drains its queue, the inbound loop refines the
  handling of frames (through the interface \<open>frame_loop\<close> of \<open>Frame_Loop\<close>), and the two compose across the
  wire. \<open>Stream_Behaviour\<close>: delivery within credit, reads in order, violations, stopping and resetting,
  renewal of credit, wake-ups, and release of all waiters when a session closes.

  \<^bold>\<open>Whole streams.\<close> \<open>Stream_Transfer\<close> follows the bytes of one stream through a write, the wire and the reads:
  how a buffer is cut into frames, when a write and a finish complete without suspending, and what the
  receiving channel then holds. \<open>Mux_Echo\<close> has the multiplexing echo servers of the examples and of the test
  server as tasks that suspend and resume, and shows that they queue exactly the bytes they read.
  \<open>Echo_Roundtrip\<close> composes client, wire and server from two fresh sessions: what the example client writes
  comes back to it, byte by byte.

  \<^bold>\<open>Browser session.\<close> \<open>Wasm_State\<close>, \<open>Wasm_Streams\<close>, \<open>Wasm_Session\<close> and \<open>Wasm_Task\<close> translate the browser
  session. It uses the channels of \<open>futures_channel\<close>, whose room is a parameter with the documented
  lower bound as a hypothesis. \<open>Wasm_Agreement\<close> compares it with the native session and shows that its
  task drains its queue; it also shows that the announcement of initial credit is lost when the
  channel is full. \<open>Wasm_Wire\<close> composes a native writer with the browser's loop, and the browser's task
  with the native inbound loop. \<open>Mux_Contract\<close> has the traits of \<open>websock-mux-proto/src/transport.rs\<close> as
  records of operations, with one value per implementation, and their contracts of writing, reading and
  accepting as locales that the native and the browser session interpret.

  \<^bold>\<open>Native transport.\<close> \<open>Handshake\<close> has what the endpoints share: headers, validation and selection of
  subprotocols; the \<open>http\<close> package is the parameter \<open>http_api\<close> with its documented laws as \<open>http_ok\<close>, and
  an incoming connection is the record \<open>incoming\<close> of what the network and tungstenite report.
  \<open>Plain_Connection\<close> (\<open>connection.rs\<close>) shows what repeated receiving delivers and answers. \<open>Plain_Split\<close>
  (\<open>stream.rs\<close>) composes the reader task, the writer task and the two halves into a transition system and
  shows order and bounds for every interleaving. \<open>Tls_Setup\<close> (\<open>tls\<close>, \<open>crypto.rs\<close>) has the loading of
  certificates and the configurations, with rustls and rcgen as the parameter \<open>tls_env\<close>.
  \<open>Mux_Endpoints\<close> and \<open>Plain_Endpoints\<close> have the builders, clients and servers of the two native crates:
  what the two sides negotiate, that they agree on it, that both then have a valid session or
  connection, and that a bound server never panics.

  \<^bold>\<open>Browser transport.\<close> \<open>Browser_Connection\<close> (\<open>websock-wasm/src/connection.rs\<close>) has the attempt to connect
  with its guard, the event handlers and the operations; \<open>Browser_Split\<close> (\<open>stream.rs\<close>) the halves, and runs
  of events and application calls: what arrives stays in order and within its limits, and nobody leaks
  the socket. \<open>Browser_Endpoints\<close> has the builders and the multiplexing client, and shows when a native
  server rejects it. \<open>Ws_Contract\<close> has the receiving contract of the transport trait as a locale that the
  native and the browser connection interpret. \<open>Test_Programs\<close> has the fuzz targets and the plain endpoints
  of the browser test server.

  \<^bold>\<open>Programs.\<close> \<open>Example_Programs\<close> has the example clients and servers and the accept loops of the test server:
  set-up from the arguments, which servers a client trusts, and the plain echo, whose client gets its
  message back. The packages \<open>url\<close> and \<open>rustls-pki-types\<close> are parameters.

  \<^bold>\<open>Bounds.\<close> Loops are terminating functions (the rest of the message, the rest of the data, or the queued
  events decrease); no fuel is used except in the statements that run a task for a number of turns, where
  one turn per queued frame is shown to be enough.

  \<^bold>\<open>Not modelled.\<close> The network, the cryptography of TLS, timers (a deadline may fire at any time), the
  protocol implementations of tungstenite and of the browser: they are parameters. Accessors that return
  a field, re-exports, argument parsing, logging, benchmarks and tests. The exchange of the split client and
  the demo page of the browser, which only call operations that are modelled. Atomic memory orderings are sequentially consistent, and
  strings are the bytes of their encoding.
\<close>

end
